(* ===== verification/Prelude.thy ===== *)
theory Prelude
  imports Main "HOL-Library.Word" "HOL-Library.Monad_Syntax"
begin

unbundle bit_operations_syntax

text \<open>
  The vocabulary the component theories share.

  \<^item> Octets: \<open>BYTE\<close> is an 8-bit word, a C++ pair (pointer, size) is a list of octets, a
    \<open>std::string\<close> is the list of its octets.
  \<^item> The accessors \<open>get2\<close>, \<open>set2\<close>, \<open>get3\<close>, \<open>set3\<close>, \<open>get4\<close>, \<open>set4\<close>, \<open>get8\<close>, \<open>set8\<close> come from the header
    \<open>medkit/tools.h\<close> of the fontventa submodule, which is not part of the repository.
    They are a parameter of every definition that uses them (record \<open>medkit\<close>); what the
    code relies on is the locale \<open>medkit_octets\<close>. The instance \<open>network_order\<close> shows that
    the locale can be met.
  \<^item> \<open>std::map<int, T>\<close> is an association list with ascending keys (\<open>om_find\<close>,
    \<open>om_put\<close>, \<open>om_erase\<close>), \<open>std::set<int>\<close> an ascending list (\<open>os_insert\<close>): the code
    iterates over both, and the order of the messages it sends is the key order.
  \<^item> A loop that stops at the first failure is \<open>foldM\<close>, in the option monad.
\<close>

named_theorems octet_simps \<open>reading back what was written\<close>
named_theorems omap_simps \<open>lookup, insertion and removal in ordered maps\<close>

type_synonym byte = "8 word"
type_synonym tid = nat

section \<open>Octets and integers\<close>

definition str :: "string \<Rightarrow> byte list" where
  "str s = map of_char s"

text \<open>The conversion of an unsigned 32-bit value to the C++ type \<open>int\<close>.\<close>

definition to_int32 :: "int \<Rightarrow> int" where
  "to_int32 v = (if v < 2 ^ 31 then v else v - 2 ^ 32)"

text \<open>The narrowing cast \<open>(BYTE)v\<close>.\<close>

definition to_byte :: "int \<Rightarrow> byte" where
  "to_byte v = word_of_int v"

lemma uint_to_byte: "uint (to_byte v) = v mod 256"
  by (simp add: to_byte_def uint_word_of_int)

lemma uint_to_byte_id [octet_simps]: "0 \<le> v \<Longrightarrow> v < 256 \<Longrightarrow> uint (to_byte v) = v"
  by (simp add: uint_to_byte)

lemma to_byte_uint [octet_simps]: "to_byte (uint b) = b"
  by (simp add: to_byte_def)

lemma uint_byte_bounds: "0 \<le> uint (b :: byte)" "uint (b :: byte) < 256"
  using uint_lt2p [of b] by simp_all

lemma to_int32_id [octet_simps]: "v < 2 ^ 31 \<Longrightarrow> to_int32 v = v"
  by (simp add: to_int32_def)

text \<open>Fields of bits side by side.\<close>

lemma nat_bit_bound: "(v :: nat) < 2 ^ k \<Longrightarrow> bit v n \<Longrightarrow> n < k"
  by (metis bit_take_bit_iff take_bit_nat_eq_self)

lemma word_bit_bound: "unat (w :: 'a :: len word) < 2 ^ k \<Longrightarrow> bit w n \<Longrightarrow> n < k"
  using nat_bit_bound [of "unat w" k n] by (simp add: bit_unsigned_iff)

lemma and_masks: "w AND 0x01 = take_bit 1 w" "w AND 0x03 = take_bit 2 w" "w AND 0x07 = take_bit 3 w" "w AND 0x3F = take_bit 6 w" "w AND 0x7F = take_bit 7 w"
  for w :: "'a :: len word"
  by (simp_all add: take_bit_eq_mask mask_eq_exp_minus_1)

lemma unat_push: "unat (push_bit i w) = unat w * 2 ^ i mod 2 ^ LENGTH('a)" for w :: "'a :: len word"
  by (subst unsigned_push_bit_eq) (simp add: push_bit_eq_mult take_bit_eq_mod)

lemma unat_drop: "unat (drop_bit i w) = unat w div 2 ^ i" for w :: "'a :: len word"
  by (subst unsigned_drop_bit_eq) (simp add: drop_bit_eq_div take_bit_nat_eq_self unsigned_less)

lemma push_bit_or_nat:
  assumes "(b :: nat) < 2 ^ k"
  shows "push_bit k a OR b = a * 2 ^ k + b"
proof -
  have "\<not> bit (push_bit k a) n \<or> \<not> bit b n" for n
    using nat_bit_bound [OF assms, of n] by (auto simp: bit_simps)
  from disjunctive_add [OF this] show ?thesis by (simp add: push_bit_eq_mult)
qed

lemma byte_eqI:
  fixes a b :: byte
  assumes "bit a 0 = bit b 0" "bit a 1 = bit b 1" "bit a 2 = bit b 2" "bit a 3 = bit b 3"
    "bit a 4 = bit b 4" "bit a 5 = bit b 5" "bit a 6 = bit b 6" "bit a 7 = bit b 7"
  shows "a = b"
proof (rule bit_word_eqI)
  fix n assume "n < LENGTH(8)"
  then have "n = 0 \<or> n = 1 \<or> n = 2 \<or> n = 3 \<or> n = 4 \<or> n = 5 \<or> n = 6 \<or> n = 7"
    unfolding len_of_numeral_defs by simp presburger
  then show "bit a n \<longleftrightarrow> bit b n"
    using assms by (elim disjE) (simp_all only:)
qed

record medkit =
  mk_get2 :: "byte \<Rightarrow> byte \<Rightarrow> int"
  mk_set2 :: "int \<Rightarrow> byte \<times> byte"
  mk_get4 :: "byte \<Rightarrow> byte \<Rightarrow> byte \<Rightarrow> byte \<Rightarrow> int"
  mk_set4 :: "int \<Rightarrow> byte \<times> byte \<times> byte \<times> byte"
  mk_get3 :: "byte \<Rightarrow> byte \<Rightarrow> byte \<Rightarrow> int"
  mk_set3 :: "int \<Rightarrow> byte \<times> byte \<times> byte"
  mk_pad32 :: "nat \<Rightarrow> nat"
  mk_get8 :: "byte list \<Rightarrow> int"
  mk_set8 :: "int \<Rightarrow> byte list"

text \<open>
  \<open>get2(data, i)\<close> reads the octets \<open>i\<close> and \<open>i + 1\<close>; \<open>set2(data, i, v)\<close> writes them; the others
  read and write three and four octets. The callers check the size of the buffer first, and the model keeps their checks.
\<close>

definition get2 :: "medkit \<Rightarrow> byte list \<Rightarrow> nat \<Rightarrow> int" where
  "get2 io d i = mk_get2 io (d ! i) (d ! (i + 1))"

definition set2 :: "medkit \<Rightarrow> int \<Rightarrow> byte list" where
  "set2 io v = (case mk_set2 io v of (a, b) \<Rightarrow> [a, b])"

definition get4 :: "medkit \<Rightarrow> byte list \<Rightarrow> nat \<Rightarrow> int" where
  "get4 io d i = mk_get4 io (d ! i) (d ! (i + 1)) (d ! (i + 2)) (d ! (i + 3))"

definition set4 :: "medkit \<Rightarrow> int \<Rightarrow> byte list" where
  "set4 io v = (case mk_set4 io v of (a, b, c, d) \<Rightarrow> [a, b, c, d])"

definition get3 :: "medkit \<Rightarrow> byte list \<Rightarrow> nat \<Rightarrow> int" where
  "get3 io d i = mk_get3 io (d ! i) (d ! (i + 1)) (d ! (i + 2))"

definition set3 :: "medkit \<Rightarrow> int \<Rightarrow> byte list" where
  "set3 io v = (case mk_set3 io v of (a, b, c) \<Rightarrow> [a, b, c])"

definition get8 :: "medkit \<Rightarrow> byte list \<Rightarrow> nat \<Rightarrow> int" where
  "get8 io d i = mk_get8 io (take 8 (drop i d))"

definition set8 :: "medkit \<Rightarrow> int \<Rightarrow> byte list" where
  "set8 io v = mk_set8 io v"

lemma length_set3 [simp]: "length (set3 io v) = 3"
  by (simp add: set3_def split: prod.splits)

lemma length_set2 [simp]: "length (set2 io v) = 2"
  by (simp add: set2_def split: prod.splits)

lemma length_set4 [simp]: "length (set4 io v) = 4"
  by (simp add: set4_def split: prod.splits)

text \<open>Reads at an offset only see what stands at that offset.\<close>

lemma get2_append_left:
  assumes "i + 1 < length xs"
  shows "get2 io (xs @ ys) i = get2 io xs i"
  using assms by (simp add: get2_def nth_append)

lemma get2_append_right: "get2 io (xs @ ys) (length xs + i) = get2 io ys i"
  by (simp add: get2_def nth_append)

lemma get2_take:
  assumes "i + 1 < n" "n \<le> length xs"
  shows "get2 io (take n xs) i = get2 io xs i"
  using assms by (simp add: get2_def)

locale medkit_octets =
  fixes io :: medkit
  assumes mk_get2_set2: "0 \<le> v \<Longrightarrow> v < 2 ^ 16 \<Longrightarrow> mk_set2 io v = (a, b) \<Longrightarrow> mk_get2 io a b = v"
    and mk_get2_lower: "0 \<le> mk_get2 io a b"
    and mk_get2_upper: "mk_get2 io a b < 2 ^ 16"
    and mk_get4_set4: "0 \<le> v \<Longrightarrow> v < 2 ^ 31 \<Longrightarrow> mk_set4 io v = (a, b, c, d) \<Longrightarrow> mk_get4 io a b c d = v"
    and mk_get3_set3: "0 \<le> v \<Longrightarrow> v < 2 ^ 24 \<Longrightarrow> mk_set3 io v = (a, b, c) \<Longrightarrow> mk_get3 io a b c = v"
begin

lemma get2_set2 [octet_simps]: "0 \<le> v \<Longrightarrow> v < 65536 \<Longrightarrow> get2 io (set2 io v @ xs) 0 = v"
  by (simp add: get2_def set2_def mk_get2_set2 split: prod.splits)

lemma get4_set4 [octet_simps]: "0 \<le> v \<Longrightarrow> v < 2 ^ 31 \<Longrightarrow> get4 io (set4 io v @ xs) 0 = v"
  by (simp add: get4_def set4_def mk_get4_set4 numeral_2_eq_2 numeral_3_eq_3 split: prod.splits)

lemma get3_set3 [octet_simps]: "0 \<le> v \<Longrightarrow> v < 2 ^ 24 \<Longrightarrow> get3 io (set3 io v @ xs) 0 = v"
  by (simp add: get3_def set3_def mk_get3_set3 numeral_2_eq_2 split: prod.splits)

lemma get2_bounds: "0 \<le> get2 io d i" "get2 io d i < 65536"
  using mk_get2_lower mk_get2_upper [of "d ! i" "d ! (i + 1)"] by (simp_all add: get2_def)

text \<open>
  Two octets cannot hold a larger value: whatever is written, what is read back differs.
\<close>

lemma get2_set2_overflow: "65536 \<le> v \<Longrightarrow> get2 io (set2 io v @ xs) 0 \<noteq> v"
  using get2_bounds(2) [of "set2 io v @ xs" 0] by auto

end

text \<open>The base-256 digits of a value below \<open>2 ^ 32\<close> rebuild it.\<close>

lemma network_order_div4:
  fixes v :: int
  assumes v: "0 \<le> v" "v < 2 ^ 32"
  shows "((v div 16777216 mod 256 * 256 + v div 65536 mod 256) * 256 + v div 256 mod 256) * 256
    + v mod 256 = v"
proof -
  have "v div 16777216 \<le> 4294967295 div 16777216"
    using v by (intro zdiv_mono1) simp_all
  then have "v div 256 div 256 div 256 mod 256 = v div 256 div 256 div 256"
    using v by (intro mod_pos_pos_trivial) (simp_all add: zdiv_zmult2_eq [symmetric] pos_imp_zdiv_nonneg_iff)
  moreover have "v div 65536 = v div 256 div 256" "v div 16777216 = v div 256 div 256 div 256"
    by (simp_all add: zdiv_zmult2_eq [symmetric])
  ultimately show ?thesis
    by (simp only: div_mult_mod_eq)
qed

definition network_order :: medkit where
  "network_order = \<lparr>
     mk_get2 = (\<lambda>a b. uint a * 256 + uint b),
     mk_set2 = (\<lambda>v. (to_byte (v div 256), to_byte v)),
     mk_get4 = (\<lambda>a b c d. ((uint a * 256 + uint b) * 256 + uint c) * 256 + uint d),
     mk_set4 = (\<lambda>v. (to_byte (v div 16777216), to_byte (v div 65536), to_byte (v div 256), to_byte v)),
     mk_get3 = (\<lambda>a b c. (uint a * 256 + uint b) * 256 + uint c),
     mk_set3 = (\<lambda>v. (to_byte (v div 65536), to_byte (v div 256), to_byte v)),
     mk_pad32 = (\<lambda>n. (n + 3) div 4 * 4),
     mk_get8 = foldl (\<lambda>v b. v * 256 + uint b) 0,
     mk_set8 = (\<lambda>v. map (\<lambda>i. to_byte (v div 256 ^ i)) [7, 6, 5, 4, 3, 2, 1, 0])\<rparr>"

lemma net_set2: "set2 network_order v = [to_byte (v div 256), to_byte v]"
  by (simp add: set2_def network_order_def)

lemma net_set4:
  "set4 network_order v = [to_byte (v div 16777216), to_byte (v div 65536), to_byte (v div 256), to_byte v]"
  by (simp add: set4_def network_order_def)

interpretation net: medkit_octets network_order
proof
  fix v :: int and a b :: byte
  assume "0 \<le> v" "v < 2 ^ 16" "mk_set2 network_order v = (a, b)"
  then show "mk_get2 network_order a b = v"
    by (auto simp: network_order_def uint_to_byte)
next
  fix a b :: byte
  show "0 \<le> mk_get2 network_order a b"
    by (simp add: network_order_def)
  show "mk_get2 network_order a b < 2 ^ 16"
    using uint_byte_bounds [of a] uint_byte_bounds [of b] by (simp add: network_order_def)
next
  fix v :: int and a b c d :: byte
  assume v: "0 \<le> v" "v < 2 ^ 31" and s: "mk_set4 network_order v = (a, b, c, d)"
  from v have "v < 2 ^ 32" by simp
  with s v(1) show "mk_get4 network_order a b c d = v"
    by (auto simp only: network_order_def medkit.simps prod.inject uint_to_byte network_order_div4)
next
  fix v :: int and a b c :: byte
  assume v: "0 \<le> v" "v < 2 ^ 24" and s: "mk_set3 network_order v = (a, b, c)"
  have "v div 65536 \<le> 16777215 div 65536"
    using v by (intro zdiv_mono1) simp_all
  then have "v div 256 div 256 mod 256 = v div 256 div 256" "v div 65536 = v div 256 div 256"
    using v by (simp_all add: zdiv_zmult2_eq [symmetric] pos_imp_zdiv_nonneg_iff)
  with s show "mk_get3 network_order a b c = v"
    by (auto simp only: network_order_def medkit.simps prod.inject uint_to_byte div_mult_mod_eq)
qed

text \<open>Where the code writes the two octets itself, it relies on the network order of \<open>get2\<close>.\<close>

locale medkit_network = medkit_octets +
  assumes get2_order: "mk_get2 io a b = uint a * 256 + uint b"
begin

lemma get2_octets: "get2 io (a # b # xs) 0 = uint a * 256 + uint b"
  by (simp add: get2_def get2_order)

end

interpretation netw: medkit_network network_order
  by unfold_locales (simp add: network_order_def)

text \<open>
  Where the code writes whole \<open>DWORD\<close>s, four octets keep all of their 32 bits; \<open>pad32\<close> rounds a length up
  to whole words of 32 bits.
\<close>

locale medkit_words = medkit_network +
  assumes get4_set4_dword: "0 \<le> v \<Longrightarrow> v < 2 ^ 32 \<Longrightarrow> mk_set4 io v = (a, b, c, d) \<Longrightarrow> mk_get4 io a b c d = v"
    and pad32_rounds: "mk_pad32 io n = (n + 3) div 4 * 4"
begin

lemma get4_dword [octet_simps]: "get4 io (set4 io (uint (w :: 32 word)) @ xs) 0 = uint w"
  using uint_lt2p [of w]
  by (simp add: get4_def set4_def get4_set4_dword numeral_2_eq_2 numeral_3_eq_3 split: prod.splits)

lemma get2_word [octet_simps]: "get2 io (set2 io (uint (w :: 16 word)) @ xs) 0 = uint w"
  using get2_set2 [of "uint w" xs] uint_lt2p [of w] by simp

lemma pad32_ge: "n \<le> mk_pad32 io n"
  by (simp add: pad32_rounds)

end

interpretation netd: medkit_words network_order
proof
  fix v :: int and a b c d :: byte
  assume v: "0 \<le> v" "v < 2 ^ 32" and s: "mk_set4 network_order v = (a, b, c, d)"
  from s v show "mk_get4 network_order a b c d = v"
    by (auto simp only: network_order_def medkit.simps prod.inject uint_to_byte network_order_div4)
qed (simp add: network_order_def)

text \<open>
  Where a header is sent and read octet by octet, eight octets keep a length of 64 bits, and the four octets of
  a key are the same again after a trip through a \<open>DWORD\<close>.
\<close>

locale medkit_frames = medkit_words +
  assumes get8_set8: "0 \<le> v \<Longrightarrow> v < 2 ^ 64 \<Longrightarrow> mk_get8 io (mk_set8 io v) = v"
    and length_set8: "length (mk_set8 io v) = 8"
    and get4_order: "mk_get4 io a b c d = ((uint a * 256 + uint b) * 256 + uint c) * 256 + uint d"

lemma div_below: "v div k < n" if "0 < k" "v < n * k" for v k n :: int
proof (rule ccontr)
  assume "\<not> v div k < n"
  then have "n * k \<le> v div k * k"
    using that by simp
  also have "\<dots> \<le> v"
    using div_mult_mod_eq [of v k] pos_mod_sign [OF that(1), of v] by linarith
  finally show False
    using that by simp
qed

lemma network_order_digits8:
  fixes v :: int
  assumes v: "0 \<le> v" "v < 2 ^ 64"
  shows "foldl (\<lambda>w b. w * 256 + uint b) 0 (map (\<lambda>i. to_byte (v div 256 ^ i)) [7, 6, 5, 4, 3, 2, 1, 0]) = v"
proof -
  define x where "x i = v div 256 ^ i" for i :: nat
  have j: "x k * 256 + x i mod 256 = x i" if "k = Suc i" for i k
    using that zdiv_zmult2_eq [of 256 v "256 ^ i"] by (simp add: x_def mult.commute)
  have "x 7 < 256"
    unfolding x_def by (rule div_below) (use v in simp_all)
  moreover have "0 \<le> x 7"
    using v(1) by (simp only: x_def pos_imp_zdiv_nonneg_iff zero_less_power zero_less_numeral)
  ultimately have t: "x 7 mod 256 = x 7"
    by simp
  have k: "x 7 * 256 + x 6 mod 256 = x 6" "x 6 * 256 + x 5 mod 256 = x 5" "x 5 * 256 + x 4 mod 256 = x 4"
    "x 4 * 256 + x 3 mod 256 = x 3" "x 3 * 256 + x 2 mod 256 = x 2" "x 2 * 256 + x 1 mod 256 = x 1"
    "x 1 * 256 + x 0 mod 256 = x 0"
    by (rule j, simp)+
  have "foldl (\<lambda>w b. w * 256 + uint b) 0 (map (\<lambda>i. to_byte (x i)) [7, 6, 5, 4, 3, 2, 1, 0]) = x 0"
    by (simp only: list.map foldl.simps uint_to_byte mult_zero_left add_0_left t k)
  then show ?thesis
    by (simp only: x_def power_0 div_by_1)
qed

lemma to_byte_digit: "to_byte (v * 256 + uint b) = b" "(v * 256 + uint b) div 256 = v" for b :: byte
  using uint_byte_bounds [of b] by (auto intro!: word_uint_eqI simp: uint_to_byte)

interpretation netf: medkit_frames network_order
proof
  fix v :: int
  assume "0 \<le> v" "v < 2 ^ 64"
  then show "mk_get8 network_order (mk_set8 network_order v) = v"
    unfolding network_order_def medkit.simps by (rule network_order_digits8)
qed (simp_all add: network_order_def)

context medkit_frames
begin

lemma set4_get4: "mk_set4 io (mk_get4 io a b c d) = (a, b, c, d)"
proof -
  obtain a' b' c' d' where s: "mk_set4 io (mk_get4 io a b c d) = (a', b', c', d')"
    by (metis surj_pair)
  have "0 \<le> mk_get4 io a b c d" "mk_get4 io a b c d < 2 ^ 32"
    using uint_byte_bounds [of a] uint_byte_bounds [of b] uint_byte_bounds [of c] uint_byte_bounds [of d]
    by (simp_all add: get4_order)
  from get4_set4_dword [OF this s]
  have "((uint a' * 256 + uint b') * 256 + uint c') * 256 + uint d' = ((uint a * 256 + uint b) * 256 + uint c) * 256 + uint d"
    (is "?w' = ?w") by (simp only: get4_order)
  then have "to_byte ?w' = to_byte ?w" "to_byte (?w' div 256) = to_byte (?w div 256)"
    "to_byte (?w' div 256 div 256) = to_byte (?w div 256 div 256)"
    "to_byte (?w' div 256 div 256 div 256) = to_byte (?w div 256 div 256 div 256)"
    by (simp_all only:)
  then show ?thesis
    by (simp only: to_byte_digit to_byte_uint s)
qed

lemma set4_of_get4: "length d = 4 \<Longrightarrow> set4 io (get4 io d 0) = d"
  by (auto simp: set4_def get4_def set4_get4 length_Suc_conv numeral_eq_Suc)

lemma get4_bounds: "0 \<le> get4 io d i" "get4 io d i < 2 ^ 32"
  using uint_byte_bounds [of "d ! i"] uint_byte_bounds [of "d ! (i + 1)"] uint_byte_bounds [of "d ! (i + 2)"]
    uint_byte_bounds [of "d ! (i + 3)"]
  by (simp_all add: get4_def get4_order)

lemma get4_pos: "0 < uint (d ! i) \<Longrightarrow> 0 < get4 io d i"
  unfolding get4_def get4_order by (intro add_pos_nonneg mult_pos_pos) simp_all

end

section \<open>Reads that can leave the buffer\<close>

text \<open>
  Where a parser is shown to stay inside what it was given, each of its reads is one of these; \<open>None\<close> is a
  read beyond the end. \<open>rdn\<close> is \<open>memcpy\<close>.
\<close>

definition rd1 :: "byte list \<Rightarrow> nat \<Rightarrow> byte option" where
  "rd1 d i = (if i < length d then Some (d ! i) else None)"

definition rd2 :: "medkit \<Rightarrow> byte list \<Rightarrow> nat \<Rightarrow> 16 word option" where
  "rd2 io d i = (if i + 2 \<le> length d then Some (word_of_int (get2 io d i)) else None)"

definition rd4 :: "medkit \<Rightarrow> byte list \<Rightarrow> nat \<Rightarrow> 32 word option" where
  "rd4 io d i = (if i + 4 \<le> length d then Some (word_of_int (get4 io d i)) else None)"

definition rd3 :: "medkit \<Rightarrow> byte list \<Rightarrow> nat \<Rightarrow> int option" where
  "rd3 io d i = (if i + 3 \<le> length d then Some (get3 io d i) else None)"

definition rdn :: "byte list \<Rightarrow> nat \<Rightarrow> nat \<Rightarrow> byte list option" where
  "rdn d i n = (if i + n \<le> length d then Some (take n (drop i d)) else None)"

lemma rd_inside [simp]:
  "i < length d \<Longrightarrow> rd1 d i = Some (d ! i)"
  "i + 2 \<le> length d \<Longrightarrow> rd2 io d i = Some (word_of_int (get2 io d i))"
  "i + 4 \<le> length d \<Longrightarrow> rd4 io d i = Some (word_of_int (get4 io d i))"
  "i + 3 \<le> length d \<Longrightarrow> rd3 io d i = Some (get3 io d i)"
  "i + n \<le> length d \<Longrightarrow> rdn d i n = Some (take n (drop i d))"
  by (simp_all add: rd1_def rd2_def rd3_def rd4_def rdn_def)

lemma get_shift:
  "get2 io (xs @ d) (length xs + i) = get2 io d i"
  "get4 io (xs @ d) (length xs + i) = get4 io d i"
  by (simp_all add: get2_def get4_def nth_append)

section \<open>Loops that stop at the first failure\<close>

fun foldM :: "('a \<Rightarrow> 's \<Rightarrow> 's option) \<Rightarrow> 'a list \<Rightarrow> 's \<Rightarrow> 's option" where
  "foldM f [] s = Some s"
| "foldM f (x # xs) s = (case f x s of None \<Rightarrow> None | Some s' \<Rightarrow> foldM f xs s')"

lemma foldM_append [simp]:
  "foldM f (xs @ ys) s = (case foldM f xs s of None \<Rightarrow> None | Some s' \<Rightarrow> foldM f ys s')"
  by (induction xs arbitrary: s) (auto split: option.splits)

lemma foldM_inv:
  assumes "foldM f xs s = Some t" and "P s"
    and "\<And>x s s'. x \<in> set xs \<Longrightarrow> P s \<Longrightarrow> f x s = Some s' \<Longrightarrow> P s'"
  shows "P t"
  using assms
proof (induction xs arbitrary: s)
  case Nil
  then show ?case by simp
next
  case (Cons x xs)
  from Cons.prems(1) obtain s' where s': "f x s = Some s'" "foldM f xs s' = Some t"
    by (auto split: option.splits)
  have "P s'"
    using Cons.prems(3) [OF _ Cons.prems(2) s'(1)] by simp
  with s'(2) show ?case
    by (rule Cons.IH) (auto intro: Cons.prems(3))
qed

text \<open>The same for loops that cannot fail.\<close>

lemma fold_inv:
  assumes "P s" and "\<And>x s. x \<in> set xs \<Longrightarrow> P s \<Longrightarrow> P (f x s)"
  shows "P (fold f xs s)"
  using assms by (induction xs arbitrary: s) auto

section \<open>Ordered maps and sets\<close>

text \<open>\<open>std::map<int, T>\<close>.\<close>

type_synonym 'v omap = "(int \<times> 'v) list"

definition om_find :: "int \<Rightarrow> 'v omap \<Rightarrow> 'v option" where
  "om_find k m = map_of m k"

fun om_put :: "int \<Rightarrow> 'v \<Rightarrow> 'v omap \<Rightarrow> 'v omap" where
  "om_put k v [] = [(k, v)]"
| "om_put k v ((k', v') # m) =
     (if k = k' then (k, v) # m
      else if k < k' then (k, v) # (k', v') # m
      else (k', v') # om_put k v m)"

definition om_erase :: "int \<Rightarrow> 'v omap \<Rightarrow> 'v omap" where
  "om_erase k m = filter (\<lambda>e. fst e \<noteq> k) m"

definition om_keys :: "'v omap \<Rightarrow> int list" where
  "om_keys m = map fst m"

definition om_sorted :: "'v omap \<Rightarrow> bool" where
  "om_sorted m = sorted_wrt (<) (om_keys m)"

text \<open>\<open>std::set<int>\<close>.\<close>

fun os_insert :: "int \<Rightarrow> int list \<Rightarrow> int list" where
  "os_insert k [] = [k]"
| "os_insert k (k' # s) =
     (if k = k' then k' # s else if k < k' then k # k' # s else k' # os_insert k s)"

lemma set_os_insert [omap_simps]: "set (os_insert k s) = insert k (set s)"
  by (induction s) auto

lemma sorted_os_insert: "sorted_wrt (<) s \<Longrightarrow> sorted_wrt (<) (os_insert k s)"
  by (induction s) (auto simp: set_os_insert)

text \<open>
  The interface the server uses: what a lookup returns after an insertion or a removal, and
  that both keep the order the iteration relies on.
\<close>

locale ordered_map =
  fixes find :: "int \<Rightarrow> 'm \<Rightarrow> 'v option"
    and put :: "int \<Rightarrow> 'v \<Rightarrow> 'm \<Rightarrow> 'm"
    and erase :: "int \<Rightarrow> 'm \<Rightarrow> 'm"
    and keys :: "'m \<Rightarrow> int list"
    and inv :: "'m \<Rightarrow> bool"
  assumes find_put: "find k (put k' v m) = (if k = k' then Some v else find k m)"
    and find_erase: "find k (erase k' m) = (if k = k' then None else find k m)"
    and inv_put: "inv m \<Longrightarrow> inv (put k v m)"
    and inv_erase: "inv m \<Longrightarrow> inv (erase k m)"
    and keys_find: "k \<in> set (keys m) \<longleftrightarrow> find k m \<noteq> None"
    and keys_sorted: "inv m \<Longrightarrow> sorted_wrt (<) (keys m)"
begin

lemma keys_put: "set (keys (put k v m)) = insert k (set (keys m))"
  by (auto simp: keys_find find_put split: if_splits)

lemma keys_erase: "set (keys (erase k m)) = set (keys m) - {k}"
  by (auto simp: keys_find find_erase split: if_splits)

lemma keys_distinct: "inv m \<Longrightarrow> distinct (keys m)"
  using keys_sorted strict_sorted_iff by blast

lemma put_keeps: "find k m = Some w \<Longrightarrow> set (keys (put k v m)) = set (keys m)"
  by (auto simp: keys_put keys_find)

end

lemma om_find_put: "om_find k (om_put k' v m) = (if k = k' then Some v else om_find k m)"
  by (induction m) (auto simp: om_find_def)

lemma om_find_erase: "om_find k (om_erase k' m) = (if k = k' then None else om_find k m)"
  by (induction m) (auto simp: om_find_def om_erase_def)

lemma om_keys_put: "set (om_keys (om_put k v m)) = insert k (set (om_keys m))"
proof (induction m)
  case Nil
  then show ?case by (simp add: om_keys_def)
next
  case (Cons e m)
  then show ?case by (cases e) (simp add: om_keys_def insert_commute)
qed

lemma om_sorted_put: "om_sorted m \<Longrightarrow> om_sorted (om_put k v m)"
proof (induction m)
  case Nil
  then show ?case by (simp add: om_sorted_def om_keys_def)
next
  case (Cons e m)
  obtain k' v' where e: "e = (k', v')" by (cases e)
  have "set (map fst (om_put k v m)) = insert k (set (map fst m))"
    using om_keys_put [of k v m] by (simp add: om_keys_def)
  with Cons show ?case
    by (auto simp: e om_sorted_def om_keys_def)
qed

lemma om_sorted_erase: "om_sorted m \<Longrightarrow> om_sorted (om_erase k m)"
  by (induction m) (auto simp: om_sorted_def om_keys_def om_erase_def)

interpretation om: ordered_map om_find om_put om_erase om_keys om_sorted
proof
  fix k :: int and m :: "'v omap"
  show "k \<in> set (om_keys m) \<longleftrightarrow> om_find k m \<noteq> None"
    by (auto simp: om_find_def om_keys_def map_of_eq_None_iff)
qed (simp_all add: om_find_put om_find_erase om_sorted_put om_sorted_erase om_sorted_def [symmetric])

declare om_find_put [omap_simps] om_find_erase [omap_simps] om.keys_put [omap_simps]
  om.keys_erase [omap_simps]

lemma om_find_Nil [simp]: "om_find k [] = None"
  by (simp add: om_find_def)

lemma om_sorted_Nil [simp]: "om_sorted []"
  by (simp add: om_sorted_def om_keys_def)

lemma om_find_in: "om_find k m = Some v \<Longrightarrow> (k, v) \<in> set m"
  by (simp add: om_find_def map_of_SomeD)

lemma om_in_find: "om_sorted m \<Longrightarrow> (k, v) \<in> set m \<Longrightarrow> om_find k m = Some v"
  unfolding om_find_def om_sorted_def om_keys_def
  by (simp add: strict_sorted_iff)

lemma om_in_iff: "om_sorted m \<Longrightarrow> (k, v) \<in> set m \<longleftrightarrow> om_find k m = Some v"
  using om_find_in om_in_find by metis

text \<open>\<open>for (it = m.begin(); \<dots>) it->second->f()\<close>: updating every value in place.\<close>

definition om_map :: "('v \<Rightarrow> 'v) \<Rightarrow> 'v omap \<Rightarrow> 'v omap" where
  "om_map f m = map (\<lambda>(k, v). (k, f v)) m"

lemma om_find_map [omap_simps]: "om_find k (om_map f m) = map_option f (om_find k m)"
  by (induction m) (auto simp: om_map_def om_find_def)

lemma om_keys_map [omap_simps]: "om_keys (om_map f m) = om_keys m"
  by (auto simp: om_map_def om_keys_def)

lemma om_sorted_map: "om_sorted m \<Longrightarrow> om_sorted (om_map f m)"
  by (simp add: om_sorted_def om_keys_map)

lemma om_sorted_Cons: "om_sorted ((k, v) # m) \<longleftrightarrow> om_sorted m \<and> (\<forall>e \<in> set m. k < fst e)"
  by (auto simp: om_sorted_def om_keys_def)

lemma om_sorted_append:
  "om_sorted (xs @ ys) \<longleftrightarrow> om_sorted xs \<and> om_sorted ys \<and> (\<forall>x \<in> set xs. \<forall>y \<in> set ys. fst x < fst y)"
  by (auto simp: om_sorted_def om_keys_def sorted_wrt_append)

lemma om_sorted_filter: "om_sorted m \<Longrightarrow> om_sorted (filter P m)"
  by (auto simp: om_sorted_def om_keys_def sorted_wrt_map intro: sorted_wrt_filter)

section \<open>Invariants of step relations\<close>

locale invariant_system =
  fixes init :: "'s \<Rightarrow> bool" and step :: "'s \<Rightarrow> 's \<Rightarrow> bool" and inv :: "'s \<Rightarrow> bool"
  assumes init_inv: "init s \<Longrightarrow> inv s"
    and step_inv: "inv s \<Longrightarrow> step s s' \<Longrightarrow> inv s'"
begin

lemma reachable_inv:
  assumes "init s" and "step\<^sup>*\<^sup>* s t"
  shows "inv t"
  using assms(2) init_inv [OF assms(1)] by induction (auto intro: step_inv)

end

end
