(* ===== verification/BfcpAttribute.thy ===== *)
theory BfcpAttribute
  imports Prelude
begin

unbundle bit_operations_syntax

text \<open>
  The attribute format of BFCP (\<open>mcu/src/bfcp/BFCPAttribute.cpp\<close>): the type codes, the padded
  writer \<open>BFCPAttribute::Write\<close> and the cursor \<open>BFCPAttrCursor\<close> that walks a sequence of
  attributes. A write that fails (the C++ value \<open>Failed\<close>) is \<open>None\<close>, one that succeeds is the
  octets written, so the returned \<open>size_t\<close> is their number.

  \<open>attrs_of\<close> is the specification of the cursor: the sequence of attributes a list of octets
  stands for. \<open>walk_spec\<close> shows that a \<open>while (cursor.Next())\<close> loop with any body computes
  what folding the body over that sequence does, and \<open>attrs_of_Write\<close> that the writer and the
  cursor are inverse. Both feed every round trip of the attributes and of the messages.
\<close>

section \<open>Type codes\<close>

datatype Name =
    BeneficiaryId | FloorId | FloorRequestId | Priority | RequestStatus | ErrorCode | ErrorInfo
  | ParticipantProvidedInfo | StatusInfo | SupportedAttributes | SupportedPrimitives
  | UserDisplayName | UserUri | BeneficiaryInformation | FloorRequestInformation
  | RequestedByInformation | FloorRequestStatus | OverallRequestStatus

fun name_code :: "Name \<Rightarrow> int" where
  "name_code BeneficiaryId = 1"
| "name_code FloorId = 2"
| "name_code FloorRequestId = 3"
| "name_code Priority = 4"
| "name_code RequestStatus = 5"
| "name_code ErrorCode = 6"
| "name_code ErrorInfo = 7"
| "name_code ParticipantProvidedInfo = 8"
| "name_code StatusInfo = 9"
| "name_code SupportedAttributes = 10"
| "name_code SupportedPrimitives = 11"
| "name_code UserDisplayName = 12"
| "name_code UserUri = 13"
| "name_code BeneficiaryInformation = 14"
| "name_code FloorRequestInformation = 15"
| "name_code RequestedByInformation = 16"
| "name_code FloorRequestStatus = 17"
| "name_code OverallRequestStatus = 18"

lemma name_code_bounds: "1 \<le> name_code n" "name_code n \<le> 18"
  by (cases n; simp)+

lemma name_code_inject [simp]: "name_code m = name_code n \<longleftrightarrow> m = n"
  by (cases m; cases n; simp)

definition TypeName :: "int \<Rightarrow> string" where
  "TypeName type =
    (if type = name_code BeneficiaryId then ''BENEFICIARY-ID''
     else if type = name_code FloorId then ''FLOOR-ID''
     else if type = name_code FloorRequestId then ''FLOOR-REQUEST-ID''
     else if type = name_code Priority then ''PRIORITY''
     else if type = name_code RequestStatus then ''REQUEST-STATUS''
     else if type = name_code ErrorCode then ''ERROR-CODE''
     else if type = name_code ErrorInfo then ''ERROR-INFO''
     else if type = name_code ParticipantProvidedInfo then ''PARTICIPANT-PROVIDED-INFO''
     else if type = name_code StatusInfo then ''STATUS-INFO''
     else if type = name_code SupportedAttributes then ''SUPPORTED-ATTRIBUTES''
     else if type = name_code SupportedPrimitives then ''SUPPORTED-PRIMITIVES''
     else if type = name_code UserDisplayName then ''USER-DISPLAY-NAME''
     else if type = name_code UserUri then ''USER-URI''
     else if type = name_code BeneficiaryInformation then ''BENEFICIARY-INFORMATION''
     else if type = name_code FloorRequestInformation then ''FLOOR-REQUEST-INFORMATION''
     else if type = name_code RequestedByInformation then ''REQUESTED-BY-INFORMATION''
     else if type = name_code FloorRequestStatus then ''FLOOR-REQUEST-STATUS''
     else if type = name_code OverallRequestStatus then ''OVERALL-REQUEST-STATUS''
     else ''unknown'')"

section \<open>Writing one attribute\<close>

definition HeaderLen :: nat where
  "HeaderLen = 2"

definition MaxLength :: nat where
  "MaxLength = 255"

definition Padded :: "nat \<Rightarrow> nat" where
  "Padded len = nat ((int len + 3) AND NOT 3)"

definition BFCPAttribute_Write :: "nat \<Rightarrow> Name \<Rightarrow> bool \<Rightarrow> byte list \<Rightarrow> byte list option" where
  "BFCPAttribute_Write mx type mandatory contents =
    (let len = HeaderLen + length contents in
     if len > MaxLength then None
     else let total = Padded len in
       if total > mx then None
       else Some ([to_byte (push_bit 1 (name_code type) OR (if mandatory then 1 else 0)), to_byte (int len)]
                  @ contents @ replicate (total - len) 0))"

definition ReadWord :: "medkit \<Rightarrow> byte list \<Rightarrow> int option" where
  "ReadWord io contents = (if length contents < 2 then None else Some (get2 io contents 0))"

lemma int_and_minus_4: "(x :: int) AND - 4 = 4 * (x div 4)"
proof -
  have "x AND NOT (mask 2) = push_bit 2 (drop_bit 2 x)"
  proof (rule bit_eqI)
    fix n
    show "bit (x AND NOT (mask 2)) n = bit (push_bit 2 (drop_bit 2 x)) n"
    proof (cases "n < 2")
      case False
      then have "Suc (Suc (n - 2)) = n" by simp
      with False show ?thesis by (simp add: bit_simps)
    qed (simp add: bit_simps)
  qed
  moreover have "NOT (mask 2) = (- 4 :: int)" by (simp add: mask_eq_exp_minus_1)
  ultimately show ?thesis by (simp add: push_bit_eq_mult drop_bit_eq_div)
qed

lemma Padded_div: "Padded len = 4 * ((len + 3) div 4)"
  by (simp add: Padded_def int_and_minus_4 nat_mult_distrib nat_div_distrib nat_add_distrib)

lemma Padded_bounds: "len \<le> Padded len" "Padded len < len + 4"
  unfolding Padded_div by presburger+

lemma Padded_pos: "0 < len \<Longrightarrow> 0 < Padded len"
  using Padded_bounds(1) [of len] by simp

lemma Padded_dvd [simp]: "4 dvd Padded len"
  by (simp add: Padded_div)

lemma Padded_id: "4 dvd len \<Longrightarrow> Padded len = len"
  unfolding Padded_div by presburger

lemma Padded_mono: "m \<le> n \<Longrightarrow> Padded m \<le> Padded n"
  unfolding Padded_div by (intro mult_le_mono2 div_le_mono) simp

lemma Padded_MaxLength: "len \<le> MaxLength \<Longrightarrow> Padded len \<le> 256"
  using Padded_mono [of len MaxLength] by (simp add: MaxLength_def Padded_div)

text \<open>The first octet of an attribute holds the type and the M bit.\<close>

lemma type_octet:
  assumes "0 \<le> n" "n < 128"
  shows "uint (to_byte (push_bit 1 n OR (if m then 1 else 0))) = 2 * n + of_bool m"
proof -
  have "push_bit 1 n OR (if m then 1 else 0) = 2 * n + of_bool m"
    by (cases m) (auto simp: push_bit_eq_mult or_one_eq)
  then show ?thesis
    using assms by (simp add: uint_to_byte_id)
qed

lemma Write_length:
  "BFCPAttribute_Write mx type m c = Some bs \<Longrightarrow> length bs = Padded (length c + 2)"
  using Padded_bounds(1) [of "length c + 2"]
  by (auto simp: BFCPAttribute_Write_def Let_def HeaderLen_def split: if_splits)

lemma Write_None_iff:
  "BFCPAttribute_Write mx type m c = None \<longleftrightarrow> 253 < length c \<or> mx < Padded (length c + 2)"
  by (auto simp: BFCPAttribute_Write_def Let_def HeaderLen_def MaxLength_def)

lemma Write_fits: "BFCPAttribute_Write mx type m c = Some bs \<Longrightarrow> Padded (length c + 2) \<le> mx"
  using Write_None_iff [of mx type m c] by (auto simp: not_less)

section \<open>The cursor\<close>

text \<open>An attribute as the cursor shows it: type, M bit, contents.\<close>

type_synonym attr = "int \<times> bool \<times> byte list"

record BFCPAttrCursor =
  cdata :: "byte list"
  cpos :: nat
  ctype :: int
  cmandatory :: bool
  ccontents :: "byte list"
  cmalformed :: bool

definition cursor :: "byte list \<Rightarrow> BFCPAttrCursor" where
  "cursor data = \<lparr>cdata = data, cpos = 0, ctype = 0, cmandatory = False, ccontents = [], cmalformed = False\<rparr>"

definition Next :: "BFCPAttrCursor \<Rightarrow> bool \<times> BFCPAttrCursor" where
  "Next c =
    (let data = cdata c; size = length data; pos = cpos c in
     if cmalformed c \<or> pos = size then (False, c)
     else if pos + HeaderLen > size then (False, c\<lparr>cmalformed := True\<rparr>)
     else let len = unat (data ! (pos + 1)) in
       if len < HeaderLen then (False, c\<lparr>cmalformed := True\<rparr>)
       else let total = Padded len in
         if pos + total > size then (False, c\<lparr>cmalformed := True\<rparr>)
         else (True, c\<lparr>ctype := drop_bit 1 (uint (data ! pos)),
                       cmandatory := (uint (data ! pos) AND 1 \<noteq> 0),
                       ccontents := take (len - HeaderLen) (drop (pos + HeaderLen) data),
                       cpos := pos + total\<rparr>))"

lemma Next_True:
  assumes "Next c = (True, c')"
  shows "cdata c' = cdata c" "cpos c < cpos c'" "cpos c' \<le> length (cdata c)" "\<not> cmalformed c'"
proof -
  define len where "len = unat (cdata c ! (cpos c + 1))"
  have *: "\<not> cmalformed c" "2 \<le> len" "cpos c + Padded len \<le> length (cdata c)"
    "cdata c' = cdata c" "cpos c' = cpos c + Padded len" "cmalformed c' = cmalformed c"
    using assms by (auto simp: Next_def Let_def HeaderLen_def len_def split: if_splits)
  then show "cdata c' = cdata c" "cpos c < cpos c'" "cpos c' \<le> length (cdata c)" "\<not> cmalformed c'"
    using Padded_bounds(1) [of len] by simp_all
qed

lemma Next_decreases:
  "(True, c') = Next c \<Longrightarrow> length (cdata c') - cpos c' < length (cdata c) - cpos c"
  using Next_True [of c c'] by auto

text \<open>
  The loop \<open>while (cursor.Next()) \<dots>\<close> with its body \<open>f\<close>, a body that returns early being
  \<open>None\<close>, and the check of \<open>cursor.Malformed()\<close> that follows it everywhere.
\<close>

function walk :: "(attr \<Rightarrow> 's \<Rightarrow> 's option) \<Rightarrow> BFCPAttrCursor \<Rightarrow> 's \<Rightarrow> 's option" where
  "walk f c s =
    (case Next c of
       (False, c') \<Rightarrow> if cmalformed c' then None else Some s
     | (True, c') \<Rightarrow>
         (case f (ctype c', cmandatory c', ccontents c') s of
            None \<Rightarrow> None
          | Some s' \<Rightarrow> walk f c' s'))"
  by pat_completeness auto
termination
  by (relation "measure (\<lambda>(f, c, s). length (cdata c) - cpos c)") (auto intro: Next_decreases)

declare walk.simps [simp del]

section \<open>What a sequence of octets stands for\<close>

function attrs_of :: "byte list \<Rightarrow> attr list option" where
  "attrs_of d =
    (if d = [] then Some []
     else if length d < 2 then None
     else let len = unat (d ! 1) in
       if len < 2 \<or> length d < Padded len then None
       else map_option (Cons (uint (d ! 0) div 2, odd (uint (d ! 0)), take (len - 2) (drop 2 d)))
              (attrs_of (drop (Padded len) d)))"
  by pat_completeness auto
termination
  by (relation "measure length") (auto simp: Padded_pos)

declare attrs_of.simps [simp del]

lemma attrs_of_Nil [simp]: "attrs_of [] = Some []"
  by (simp add: attrs_of.simps)

lemma Next_octets:
  assumes "\<not> cmalformed c" "cpos c \<le> length (cdata c)"
  defines "d \<equiv> drop (cpos c) (cdata c)"
  shows "Next c =
    (if d = [] then (False, c)
     else if length d < 2 \<or> unat (d ! 1) < 2 \<or> length d < Padded (unat (d ! 1))
     then (False, c\<lparr>cmalformed := True\<rparr>)
     else (True, c\<lparr>ctype := uint (d ! 0) div 2, cmandatory := odd (uint (d ! 0)),
                   ccontents := take (unat (d ! 1) - 2) (drop 2 d),
                   cpos := cpos c + Padded (unat (d ! 1))\<rparr>))"
  using assms
  by (auto simp: Next_def Let_def HeaderLen_def drop_bit_eq_div and_one_eq odd_iff_mod_2_eq_one add.commute)

lemma walk_spec:
  assumes "\<not> cmalformed c" "cpos c \<le> length (cdata c)"
  shows "walk f c s = Option.bind (attrs_of (drop (cpos c) (cdata c))) (\<lambda>as. foldM f as s)"
  using assms
proof (induction f c s rule: walk.induct)
  case (1 f c s)
  define d where "d = drop (cpos c) (cdata c)"
  note N = Next_octets [OF "1.prems", folded d_def]
  show ?case
  proof (cases "d = [] \<or> length d < 2 \<or> unat (d ! 1) < 2 \<or> length d < Padded (unat (d ! 1))")
    case True
    with N "1.prems"(1) show ?thesis
      unfolding d_def [symmetric] by (subst walk.simps, subst attrs_of.simps) (auto simp: Let_def)
  next
    case False
    let ?a = "(uint (d ! 0) div 2, odd (uint (d ! 0)), take (unat (d ! 1) - 2) (drop 2 d))"
    let ?c = "c\<lparr>ctype := uint (d ! 0) div 2, cmandatory := odd (uint (d ! 0)),
                   ccontents := take (unat (d ! 1) - 2) (drop 2 d),
                   cpos := cpos c + Padded (unat (d ! 1))\<rparr>"
    from False N have N': "Next c = (True, ?c)" by auto
    have rest: "drop (Padded (unat (d ! 1))) d = drop (cpos ?c) (cdata ?c)"
      by (simp add: d_def add.commute)
    have A: "attrs_of d = map_option (Cons ?a) (attrs_of (drop (cpos ?c) (cdata ?c)))"
      using False by (subst attrs_of.simps) (simp add: Let_def rest [simplified])
    show ?thesis
    proof (cases "f ?a s")
      case None
      then have "walk f c s = None" by (subst walk.simps) (simp add: N')
      moreover from None A have "Option.bind (attrs_of d) (\<lambda>as. foldM f as s) = None"
        by (cases "attrs_of (drop (cpos ?c) (cdata ?c))") simp_all
      ultimately show ?thesis by (simp add: d_def)
    next
      case (Some s')
      from Next_True [OF N'] have "\<not> cmalformed ?c" "cpos ?c \<le> length (cdata ?c)" by simp_all
      from "1.IH" [OF N' [symmetric] refl, simplified, OF Some [simplified]] this
      have "walk f ?c s' = Option.bind (attrs_of (drop (cpos ?c) (cdata ?c))) (\<lambda>as. foldM f as s')"
        by simp
      moreover have "walk f c s = walk f ?c s'"
        using Some by (subst walk.simps) (simp add: N')
      moreover have "Option.bind (attrs_of d) (\<lambda>as. foldM f as s) =
          Option.bind (attrs_of (drop (cpos ?c) (cdata ?c))) (\<lambda>as. foldM f as s')"
        using A Some by (cases "attrs_of (drop (cpos ?c) (cdata ?c))") simp_all
      ultimately show ?thesis by (simp add: d_def)
    qed
  qed
qed

corollary walk_cursor: "walk f (cursor d) s = Option.bind (attrs_of d) (\<lambda>as. foldM f as s)"
  by (simp add: walk_spec cursor_def)

lemma to_byte_length: "n \<le> 255 \<Longrightarrow> unat (to_byte (int n)) = n"
  using uint_to_byte_id [of "int n"] by (simp add: unat_eq_nat_uint)

text \<open>The cursor reads back what the writer wrote, and goes on with what follows.\<close>

lemma attrs_of_Cons:
  assumes l: "unat l = length c + 2"
    and pad: "length c + 2 + length pad = Padded (length c + 2)"
  shows "attrs_of (t # l # c @ pad @ rest) = map_option (Cons (uint t div 2, odd (uint t), c)) (attrs_of rest)"
proof -
  have "drop (Padded (length c + 2)) (t # l # c @ pad @ rest) = rest"
    by (subst pad [symmetric]) simp
  then show ?thesis
    using pad by (subst attrs_of.simps) (simp add: Let_def l)
qed

lemma attrs_of_Write:
  assumes "BFCPAttribute_Write mx type m c = Some bs"
  shows "attrs_of (bs @ rest) = map_option (Cons (name_code type, m, c)) (attrs_of rest)"
proof -
  let ?len = "length c + 2"
  let ?t = "to_byte (push_bit 1 (name_code type) OR (if m then 1 else 0))"
  from assms have len: "?len \<le> 255"
    and bs: "bs = ?t # to_byte (int ?len) # c @ replicate (Padded ?len - ?len) 0"
    by (auto simp: BFCPAttribute_Write_def Let_def HeaderLen_def MaxLength_def add.commute split: if_splits)
  have "uint ?t = 2 * name_code type + of_bool m"
    using name_code_bounds [of type] by (intro type_octet) simp_all
  then have "uint ?t div 2 = name_code type" "odd (uint ?t) = m"
    by simp_all
  moreover have "unat (to_byte (int ?len)) = ?len"
    using len by (rule to_byte_length)
  moreover have "?len + length (replicate (Padded ?len - ?len) (0 :: byte)) = Padded ?len"
    using Padded_bounds(1) [of ?len] by simp
  ultimately show ?thesis
    by (simp only: bs append_Cons append_assoc attrs_of_Cons)
qed

text \<open>\<open>encodes w as\<close>: the octets \<open>w\<close> are exactly the attributes \<open>as\<close>, wherever they stand.\<close>

definition encodes :: "byte list \<Rightarrow> attr list \<Rightarrow> bool" where
  "encodes w as \<longleftrightarrow>
     4 dvd length w \<and> (\<forall>rest. attrs_of (w @ rest) = map_option ((@) as) (attrs_of rest))"

definition attr_of :: "Name \<Rightarrow> bool \<Rightarrow> byte list option \<Rightarrow> attr" where
  "attr_of n m c = (name_code n, m, the c)"

lemma encodes_Nil [simp]: "encodes [] []"
  by (auto simp: encodes_def map_option_case split: option.splits)

lemma encodes_append: "encodes v as \<Longrightarrow> encodes w bs \<Longrightarrow> encodes (v @ w) (as @ bs)"
  by (auto simp: encodes_def map_option_case split: option.splits)

lemma encodes_attrs_of: "encodes w as \<Longrightarrow> attrs_of w = Some as"
  using attrs_of_Nil by (fastforce simp: encodes_def dest: spec [of _ "[]"])

lemma encodes_Write: "BFCPAttribute_Write mx type m c = Some bs \<Longrightarrow> encodes bs [(name_code type, m, c)]"
  by (auto simp: encodes_def attrs_of_Write Write_length map_option_case split: option.splits)

section \<open>One attribute after another\<close>

text \<open>
  \<open>written = attr->Serialize(out + n, max - n, m); if (written == Failed) return Failed;
  n += written;\<close> with \<open>ser\<close> the serializer of the attribute and \<open>out\<close> the octets written
  so far.
\<close>

definition append_attr :: "(nat \<Rightarrow> byte list option) \<Rightarrow> nat \<Rightarrow> byte list \<Rightarrow> byte list option" where
  "append_attr ser mx out = (case ser (mx - length out) of None \<Rightarrow> None | Some w \<Rightarrow> Some (out @ w))"

text \<open>The same under \<open>if (attr) \<dots>\<close>, and in a loop over a vector of attributes.\<close>

definition append_opt :: "('a \<Rightarrow> nat \<Rightarrow> byte list option) \<Rightarrow> nat \<Rightarrow> 'a option \<Rightarrow> byte list \<Rightarrow> byte list option" where
  "append_opt ser mx a out = (case a of None \<Rightarrow> Some out | Some x \<Rightarrow> append_attr (ser x) mx out)"

definition append_all :: "('a \<Rightarrow> nat \<Rightarrow> byte list option) \<Rightarrow> nat \<Rightarrow> 'a list \<Rightarrow> byte list \<Rightarrow> byte list option" where
  "append_all ser mx xs out = foldM (\<lambda>x. append_attr (ser x) mx) xs out"

lemma append_all_simps [simp]:
  "append_all ser mx [] out = Some out"
  "append_all ser mx (x # xs) out = Option.bind (append_attr (ser x) mx out) (append_all ser mx xs)"
  by (simp_all add: append_all_def split: option.splits)

lemma append_opt_all: "append_opt ser mx a out = append_all ser mx (case a of None \<Rightarrow> [] | Some x \<Rightarrow> [x]) out"
  by (cases a) (simp_all add: append_opt_def append_all_def split: option.splits)

text \<open>
  What an attribute class promises: its serializer writes one attribute of its own type, and
  its parser reads the contents back. \<open>contents\<close> is what stands between the header and the
  padding, \<open>wf\<close> the values that fit their fields.
\<close>

locale attr_codec =
  fixes name :: Name
    and serialize :: "'a \<Rightarrow> nat \<Rightarrow> bool \<Rightarrow> byte list option"
    and parse :: "byte list \<Rightarrow> 'a option"
    and contents :: "'a \<Rightarrow> byte list option"
    and wf :: "'a \<Rightarrow> bool"
  assumes serialize_contents:
      "serialize a mx m = Option.bind (contents a) (BFCPAttribute_Write mx name m)"
    and parse_contents: "wf a \<Longrightarrow> contents a = Some c \<Longrightarrow> parse c = Some a"
begin

lemma serialize_Some:
  assumes "serialize a mx m = Some bs"
  obtains c where "contents a = Some c" "BFCPAttribute_Write mx name m c = Some bs"
  using assms by (auto simp: serialize_contents bind_eq_Some_conv)

lemma serialize_le: "serialize a mx m = Some bs \<Longrightarrow> length bs \<le> mx"
  by (elim serialize_Some) (auto simp: Write_length dest: Write_fits)

lemma serialize_encodes:
  assumes "serialize a mx m = Some bs"
  shows "contents a \<noteq> None" "encodes bs [attr_of name m (contents a)]"
  using assms by (auto elim!: serialize_Some simp: attr_of_def intro: encodes_Write)

lemma append_all_encodes:
  assumes "append_all (\<lambda>x k. serialize x k m) mx xs out = Some out'"
  shows "\<exists>w. out' = out @ w \<and> encodes w (map (\<lambda>x. attr_of name m (contents x)) xs)
           \<and> (\<forall>x \<in> set xs. contents x \<noteq> None)"
  using assms
proof (induction xs arbitrary: out)
  case Nil
  then show ?case by simp
next
  case (Cons x xs)
  from Cons.prems obtain v where v: "serialize x (mx - length out) m = Some v"
    and out': "append_all (\<lambda>x k. serialize x k m) mx xs (out @ v) = Some out'"
    by (auto simp: append_attr_def bind_eq_Some_conv split: option.splits)
  from Cons.IH [OF out'] obtain w where "out' = (out @ v) @ w"
    "encodes w (map (\<lambda>x. attr_of name m (contents x)) xs)" "\<forall>x \<in> set xs. contents x \<noteq> None"
    by blast
  with encodes_append [OF serialize_encodes(2) [OF v]] serialize_encodes(1) [OF v]
  show ?case by (intro exI [of _ "v @ w"]) auto
qed

text \<open>
  A parsing loop whose body hands the attribute to \<open>parse\<close> and stores the result sees the
  values that were written.
\<close>

lemma foldM_parse:
  assumes "\<And>x s. x \<in> set xs \<Longrightarrow> f (attr_of name m (contents x)) s =
      (case parse (the (contents x)) of None \<Rightarrow> None | Some a \<Rightarrow> Some (g a s))"
    and "\<forall>x \<in> set xs. wf x \<and> contents x \<noteq> None"
  shows "foldM f (map (\<lambda>x. attr_of name m (contents x)) xs) s = Some (fold g xs s)"
  using assms
proof (induction xs arbitrary: s)
  case Nil
  then show ?case by simp
next
  case (Cons x xs)
  from Cons.prems(2) obtain c where "contents x = Some c" "wf x" by auto
  then have "parse (the (contents x)) = Some x" by (simp add: parse_contents)
  with Cons.prems(1) [of x s] have "f (attr_of name m (contents x)) s = Some (g x s)" by simp
  with Cons show ?case by simp
qed

end

end
