(* ===== verification/BfcpAttributes.thy ===== *)
theory BfcpAttributes
  imports BfcpAttribute
begin

unbundle bit_operations_syntax

text \<open>
  The attribute classes of \<open>mcu/src/bfcp/attributes\<close>. An attribute object is the value it holds:
  an \<open>int\<close>, a string of octets, a list of codes, or a record for the grouped ones; a pointer that
  may be \<open>NULL\<close> is an option. \<open>X_Serialize\<close> is the method of class \<open>X\<close>, \<open>X_Parse\<close> its static
  parser, \<open>X_contents\<close> the part of \<open>Serialize\<close> that fills the local buffer \<open>contents\<close>.

  Every class meets the contract \<open>attr_codec\<close>: the \<open>sublocale\<close> declarations discharge it for any
  accessors that meet \<open>medkit_octets\<close>. The grouped attributes rest on the contracts of the
  attributes they hold.
\<close>

abbreviation wf16 :: "int \<Rightarrow> bool" where
  "wf16 v \<equiv> 0 \<le> v \<and> v < 65536"

section \<open>Identifiers\<close>

type_synonym BFCPAttrBeneficiaryId = int
type_synonym BFCPAttrFloorId = int
type_synonym BFCPAttrFloorRequestId = int

definition BFCPAttrBeneficiaryId_Serialize ::
  "medkit \<Rightarrow> BFCPAttrBeneficiaryId \<Rightarrow> nat \<Rightarrow> bool \<Rightarrow> byte list option" where
  "BFCPAttrBeneficiaryId_Serialize io value mx mandatory =
     BFCPAttribute_Write mx BeneficiaryId mandatory (set2 io value)"

definition BFCPAttrBeneficiaryId_Parse :: "medkit \<Rightarrow> byte list \<Rightarrow> BFCPAttrBeneficiaryId option" where
  "BFCPAttrBeneficiaryId_Parse io contents = ReadWord io contents"

definition BFCPAttrFloorId_Serialize ::
  "medkit \<Rightarrow> BFCPAttrFloorId \<Rightarrow> nat \<Rightarrow> bool \<Rightarrow> byte list option" where
  "BFCPAttrFloorId_Serialize io value mx mandatory =
     BFCPAttribute_Write mx FloorId mandatory (set2 io value)"

definition BFCPAttrFloorId_Parse :: "medkit \<Rightarrow> byte list \<Rightarrow> BFCPAttrFloorId option" where
  "BFCPAttrFloorId_Parse io contents = ReadWord io contents"

definition BFCPAttrFloorRequestId_Serialize ::
  "medkit \<Rightarrow> BFCPAttrFloorRequestId \<Rightarrow> nat \<Rightarrow> bool \<Rightarrow> byte list option" where
  "BFCPAttrFloorRequestId_Serialize io value mx mandatory =
     BFCPAttribute_Write mx FloorRequestId mandatory (set2 io value)"

definition BFCPAttrFloorRequestId_Parse :: "medkit \<Rightarrow> byte list \<Rightarrow> BFCPAttrFloorRequestId option" where
  "BFCPAttrFloorRequestId_Parse io contents = ReadWord io contents"

section \<open>REQUEST-STATUS\<close>

datatype Status = Pending | Accepted | Granted | Denied | Cancelled | Released | Revoked

fun status_code :: "Status \<Rightarrow> int" where
  "status_code Pending = 1"
| "status_code Accepted = 2"
| "status_code Granted = 3"
| "status_code Denied = 4"
| "status_code Cancelled = 5"
| "status_code Released = 6"
| "status_code Revoked = 7"

text \<open>The cast \<open>(enum Status)octet\<close>, for an octet in the range of the enumeration.\<close>

definition status_cast :: "int \<Rightarrow> Status" where
  "status_cast v =
    (if v = status_code Pending then Pending
     else if v = status_code Accepted then Accepted
     else if v = status_code Granted then Granted
     else if v = status_code Denied then Denied
     else if v = status_code Cancelled then Cancelled
     else if v = status_code Released then Released
     else Revoked)"

fun StatusName :: "Status \<Rightarrow> string" where
  "StatusName Pending = ''Pending''"
| "StatusName Accepted = ''Accepted''"
| "StatusName Granted = ''Granted''"
| "StatusName Denied = ''Denied''"
| "StatusName Cancelled = ''Cancelled''"
| "StatusName Released = ''Released''"
| "StatusName Revoked = ''Revoked''"

record BFCPAttrRequestStatus =
  rs_status :: Status
  rs_queuePosition :: int

definition BFCPAttrRequestStatus_contents :: "BFCPAttrRequestStatus \<Rightarrow> byte list" where
  "BFCPAttrRequestStatus_contents a = [to_byte (status_code (rs_status a)), to_byte (rs_queuePosition a)]"

definition BFCPAttrRequestStatus_Serialize :: "BFCPAttrRequestStatus \<Rightarrow> nat \<Rightarrow> bool \<Rightarrow> byte list option" where
  "BFCPAttrRequestStatus_Serialize a mx mandatory =
     BFCPAttribute_Write mx RequestStatus mandatory (BFCPAttrRequestStatus_contents a)"

definition BFCPAttrRequestStatus_Parse :: "byte list \<Rightarrow> BFCPAttrRequestStatus option" where
  "BFCPAttrRequestStatus_Parse contents =
    (if length contents < 2 then None
     else if uint (contents ! 0) < status_code Pending \<or> status_code Revoked < uint (contents ! 0) then None
     else Some \<lparr>rs_status = status_cast (uint (contents ! 0)), rs_queuePosition = uint (contents ! 1)\<rparr>)"

lemma status_cast_code [simp]: "status_cast (status_code s) = s"
  by (cases s) (simp_all add: status_cast_def)

lemma status_code_bounds: "1 \<le> status_code s" "status_code s \<le> 7"
  by (cases s; simp)+

section \<open>ERROR-CODE\<close>

datatype ErrorCodes =
    ConferenceDoesNotExist | UserDoesNotExist | UnknownPrimitive | UnknownMandatoryAttribute
  | UnauthorizedOperation | InvalidFloorId | FloorRequestIdDoesNotExist | FloorRequestMaxNumberReached
  | UseTls | UnableToParse | UseDtls | UnsupportedVersion | IncorrectMessageLength | GenericError

fun error_code :: "ErrorCodes \<Rightarrow> int" where
  "error_code ConferenceDoesNotExist = 1"
| "error_code UserDoesNotExist = 2"
| "error_code UnknownPrimitive = 3"
| "error_code UnknownMandatoryAttribute = 4"
| "error_code UnauthorizedOperation = 5"
| "error_code InvalidFloorId = 6"
| "error_code FloorRequestIdDoesNotExist = 7"
| "error_code FloorRequestMaxNumberReached = 8"
| "error_code UseTls = 9"
| "error_code UnableToParse = 10"
| "error_code UseDtls = 11"
| "error_code UnsupportedVersion = 12"
| "error_code IncorrectMessageLength = 13"
| "error_code GenericError = 14"

text \<open>The parser casts any octet to the enumeration, so the value is the integer.\<close>

type_synonym BFCPAttrErrorCode = int

definition CodeName :: "BFCPAttrErrorCode \<Rightarrow> string" where
  "CodeName code =
    (if code = error_code ConferenceDoesNotExist then ''ConferenceDoesNotExist''
     else if code = error_code UserDoesNotExist then ''UserDoesNotExist''
     else if code = error_code UnknownPrimitive then ''UnknownPrimitive''
     else if code = error_code UnknownMandatoryAttribute then ''UnknownMandatoryAttribute''
     else if code = error_code UnauthorizedOperation then ''UnauthorizedOperation''
     else if code = error_code InvalidFloorId then ''InvalidFloorId''
     else if code = error_code FloorRequestIdDoesNotExist then ''FloorRequestIdDoesNotExist''
     else if code = error_code FloorRequestMaxNumberReached then ''FloorRequestMaxNumberReached''
     else if code = error_code UseTls then ''UseTls''
     else if code = error_code UnableToParse then ''UnableToParse''
     else if code = error_code UseDtls then ''UseDtls''
     else if code = error_code UnsupportedVersion then ''UnsupportedVersion''
     else if code = error_code IncorrectMessageLength then ''IncorrectMessageLength''
     else if code = error_code GenericError then ''GenericError''
     else ''Unknown'')"

definition BFCPAttrErrorCode_Serialize :: "BFCPAttrErrorCode \<Rightarrow> nat \<Rightarrow> bool \<Rightarrow> byte list option" where
  "BFCPAttrErrorCode_Serialize value mx mandatory =
     BFCPAttribute_Write mx ErrorCode mandatory [to_byte value]"

definition BFCPAttrErrorCode_Parse :: "byte list \<Rightarrow> BFCPAttrErrorCode option" where
  "BFCPAttrErrorCode_Parse contents = (if length contents < 1 then None else Some (uint (contents ! 0)))"

section \<open>Texts\<close>

type_synonym BFCPAttrErrorInfo = "byte list"
type_synonym BFCPAttrParticipantProvidedInfo = "byte list"
type_synonym BFCPAttrStatusInfo = "byte list"

definition BFCPAttrErrorInfo_Serialize :: "BFCPAttrErrorInfo \<Rightarrow> nat \<Rightarrow> bool \<Rightarrow> byte list option" where
  "BFCPAttrErrorInfo_Serialize value mx mandatory = BFCPAttribute_Write mx ErrorInfo mandatory value"

definition BFCPAttrErrorInfo_Parse :: "byte list \<Rightarrow> BFCPAttrErrorInfo" where
  "BFCPAttrErrorInfo_Parse contents = contents"

definition BFCPAttrParticipantProvidedInfo_Serialize ::
  "BFCPAttrParticipantProvidedInfo \<Rightarrow> nat \<Rightarrow> bool \<Rightarrow> byte list option" where
  "BFCPAttrParticipantProvidedInfo_Serialize value mx mandatory =
     BFCPAttribute_Write mx ParticipantProvidedInfo mandatory value"

definition BFCPAttrParticipantProvidedInfo_Parse :: "byte list \<Rightarrow> BFCPAttrParticipantProvidedInfo" where
  "BFCPAttrParticipantProvidedInfo_Parse contents = contents"

definition BFCPAttrStatusInfo_Serialize :: "BFCPAttrStatusInfo \<Rightarrow> nat \<Rightarrow> bool \<Rightarrow> byte list option" where
  "BFCPAttrStatusInfo_Serialize value mx mandatory = BFCPAttribute_Write mx StatusInfo mandatory value"

definition BFCPAttrStatusInfo_Parse :: "byte list \<Rightarrow> BFCPAttrStatusInfo" where
  "BFCPAttrStatusInfo_Parse contents = contents"

section \<open>SUPPORTED-ATTRIBUTES and SUPPORTED-PRIMITIVES\<close>

type_synonym BFCPAttrSupportedAttributes = "int list"
type_synonym BFCPAttrSupportedPrimitives = "int list"

definition SupportedAttributes_Has :: "BFCPAttrSupportedAttributes \<Rightarrow> int \<Rightarrow> bool" where
  "SupportedAttributes_Has codes code = List.member codes code"

definition SupportedAttributes_Add :: "int \<Rightarrow> BFCPAttrSupportedAttributes \<Rightarrow> BFCPAttrSupportedAttributes" where
  "SupportedAttributes_Add code codes = (if SupportedAttributes_Has codes code then codes else codes @ [code])"

definition SupportedAttributes_Get :: "BFCPAttrSupportedAttributes \<Rightarrow> nat \<Rightarrow> int" where
  "SupportedAttributes_Get codes index = (if index \<ge> length codes then 0 else codes ! index)"

definition SupportedAttributes_contents :: "BFCPAttrSupportedAttributes \<Rightarrow> byte list" where
  "SupportedAttributes_contents codes = map (\<lambda>c. to_byte (push_bit 1 c)) (take MaxLength codes)"

definition BFCPAttrSupportedAttributes_Serialize ::
  "BFCPAttrSupportedAttributes \<Rightarrow> nat \<Rightarrow> bool \<Rightarrow> byte list option" where
  "BFCPAttrSupportedAttributes_Serialize codes mx mandatory =
     BFCPAttribute_Write mx SupportedAttributes mandatory (SupportedAttributes_contents codes)"

definition BFCPAttrSupportedAttributes_Parse :: "byte list \<Rightarrow> BFCPAttrSupportedAttributes" where
  "BFCPAttrSupportedAttributes_Parse contents =
     fold (\<lambda>b. SupportedAttributes_Add (drop_bit 1 (uint b))) contents []"

definition SupportedPrimitives_Has :: "BFCPAttrSupportedPrimitives \<Rightarrow> int \<Rightarrow> bool" where
  "SupportedPrimitives_Has codes code = List.member codes code"

definition SupportedPrimitives_Add :: "int \<Rightarrow> BFCPAttrSupportedPrimitives \<Rightarrow> BFCPAttrSupportedPrimitives" where
  "SupportedPrimitives_Add code codes = (if SupportedPrimitives_Has codes code then codes else codes @ [code])"

definition SupportedPrimitives_Get :: "BFCPAttrSupportedPrimitives \<Rightarrow> nat \<Rightarrow> int" where
  "SupportedPrimitives_Get codes index = (if index \<ge> length codes then 0 else codes ! index)"

definition SupportedPrimitives_contents :: "BFCPAttrSupportedPrimitives \<Rightarrow> byte list" where
  "SupportedPrimitives_contents codes = map to_byte (take MaxLength codes)"

definition BFCPAttrSupportedPrimitives_Serialize ::
  "BFCPAttrSupportedPrimitives \<Rightarrow> nat \<Rightarrow> bool \<Rightarrow> byte list option" where
  "BFCPAttrSupportedPrimitives_Serialize codes mx mandatory =
     BFCPAttribute_Write mx SupportedPrimitives mandatory (SupportedPrimitives_contents codes)"

definition BFCPAttrSupportedPrimitives_Parse :: "byte list \<Rightarrow> BFCPAttrSupportedPrimitives" where
  "BFCPAttrSupportedPrimitives_Parse contents =
     fold (\<lambda>b. SupportedPrimitives_Add (uint b)) contents []"

section \<open>Grouped attributes\<close>

text \<open>A loop that only walks the attributes, to prove that they are well formed.\<close>

definition well_formed_attrs :: "byte list \<Rightarrow> bool" where
  "well_formed_attrs d = (walk (\<lambda>_ s. Some s) (cursor d) () \<noteq> None)"

type_synonym BFCPAttrBeneficiaryInformation = BFCPAttrBeneficiaryId

definition BFCPAttrBeneficiaryInformation_Serialize ::
  "medkit \<Rightarrow> BFCPAttrBeneficiaryInformation \<Rightarrow> nat \<Rightarrow> bool \<Rightarrow> byte list option" where
  "BFCPAttrBeneficiaryInformation_Serialize io beneficiaryId mx mandatory =
     BFCPAttribute_Write mx BeneficiaryInformation mandatory (set2 io beneficiaryId)"

definition BFCPAttrBeneficiaryInformation_Parse ::
  "medkit \<Rightarrow> byte list \<Rightarrow> BFCPAttrBeneficiaryInformation option" where
  "BFCPAttrBeneficiaryInformation_Parse io contents =
    (case ReadWord io contents of
       None \<Rightarrow> None
     | Some beneficiaryId \<Rightarrow> if well_formed_attrs (drop 2 contents) then Some beneficiaryId else None)"

type_synonym BFCPAttrRequestedByInformation = int

definition BFCPAttrRequestedByInformation_Serialize ::
  "medkit \<Rightarrow> BFCPAttrRequestedByInformation \<Rightarrow> nat \<Rightarrow> bool \<Rightarrow> byte list option" where
  "BFCPAttrRequestedByInformation_Serialize io requestedById mx mandatory =
     BFCPAttribute_Write mx RequestedByInformation mandatory (set2 io requestedById)"

definition BFCPAttrRequestedByInformation_Parse ::
  "medkit \<Rightarrow> byte list \<Rightarrow> BFCPAttrRequestedByInformation option" where
  "BFCPAttrRequestedByInformation_Parse io contents =
    (case ReadWord io contents of
       None \<Rightarrow> None
     | Some requestedById \<Rightarrow> if well_formed_attrs (drop 2 contents) then Some requestedById else None)"

record BFCPAttrFloorRequestStatus =
  frs_floorId :: BFCPAttrFloorId
  frs_requestStatus :: "BFCPAttrRequestStatus option"

definition BFCPAttrFloorRequestStatus_new :: "int \<Rightarrow> BFCPAttrFloorRequestStatus" where
  "BFCPAttrFloorRequestStatus_new floorId = \<lparr>frs_floorId = floorId, frs_requestStatus = None\<rparr>"

definition BFCPAttrFloorRequestStatus_contents :: "medkit \<Rightarrow> BFCPAttrFloorRequestStatus \<Rightarrow> byte list option" where
  "BFCPAttrFloorRequestStatus_contents io a =
     append_opt (\<lambda>rs k. BFCPAttrRequestStatus_Serialize rs k False) MaxLength (frs_requestStatus a)
       (set2 io (frs_floorId a))"

definition BFCPAttrFloorRequestStatus_Serialize ::
  "medkit \<Rightarrow> BFCPAttrFloorRequestStatus \<Rightarrow> nat \<Rightarrow> bool \<Rightarrow> byte list option" where
  "BFCPAttrFloorRequestStatus_Serialize io a mx mandatory =
     Option.bind (BFCPAttrFloorRequestStatus_contents io a)
       (BFCPAttribute_Write mx FloorRequestStatus mandatory)"

definition BFCPAttrFloorRequestStatus_Parse_attr ::
  "attr \<Rightarrow> BFCPAttrFloorRequestStatus \<Rightarrow> BFCPAttrFloorRequestStatus option" where
  "BFCPAttrFloorRequestStatus_Parse_attr = (\<lambda>(type, mandatory, contents) a.
     if type = name_code RequestStatus then
       (case BFCPAttrRequestStatus_Parse contents of
          None \<Rightarrow> None
        | Some st \<Rightarrow> Some (a\<lparr>frs_requestStatus := Some st\<rparr>))
     else if mandatory then None
     else Some a)"

definition BFCPAttrFloorRequestStatus_Parse :: "medkit \<Rightarrow> byte list \<Rightarrow> BFCPAttrFloorRequestStatus option" where
  "BFCPAttrFloorRequestStatus_Parse io contents =
    (case ReadWord io contents of
       None \<Rightarrow> None
     | Some floorId \<Rightarrow>
         walk BFCPAttrFloorRequestStatus_Parse_attr (cursor (drop 2 contents))
           (BFCPAttrFloorRequestStatus_new floorId))"

record BFCPAttrOverallRequestStatus =
  ors_floorRequestId :: BFCPAttrFloorRequestId
  ors_requestStatus :: "BFCPAttrRequestStatus option"
  ors_statusInfo :: "BFCPAttrStatusInfo option"

definition BFCPAttrOverallRequestStatus_new :: "int \<Rightarrow> BFCPAttrOverallRequestStatus" where
  "BFCPAttrOverallRequestStatus_new floorRequestId =
     \<lparr>ors_floorRequestId = floorRequestId, ors_requestStatus = None, ors_statusInfo = None\<rparr>"

definition BFCPAttrOverallRequestStatus_contents ::
  "medkit \<Rightarrow> BFCPAttrOverallRequestStatus \<Rightarrow> byte list option" where
  "BFCPAttrOverallRequestStatus_contents io a =
     Option.bind
       (append_opt (\<lambda>rs k. BFCPAttrRequestStatus_Serialize rs k False) MaxLength (ors_requestStatus a)
          (set2 io (ors_floorRequestId a)))
       (append_opt (\<lambda>si k. BFCPAttrStatusInfo_Serialize si k False) MaxLength (ors_statusInfo a))"

definition BFCPAttrOverallRequestStatus_Serialize ::
  "medkit \<Rightarrow> BFCPAttrOverallRequestStatus \<Rightarrow> nat \<Rightarrow> bool \<Rightarrow> byte list option" where
  "BFCPAttrOverallRequestStatus_Serialize io a mx mandatory =
     Option.bind (BFCPAttrOverallRequestStatus_contents io a)
       (BFCPAttribute_Write mx OverallRequestStatus mandatory)"

definition BFCPAttrOverallRequestStatus_Parse_attr ::
  "attr \<Rightarrow> BFCPAttrOverallRequestStatus \<Rightarrow> BFCPAttrOverallRequestStatus option" where
  "BFCPAttrOverallRequestStatus_Parse_attr = (\<lambda>(type, mandatory, contents) a.
     if type = name_code RequestStatus then
       (case BFCPAttrRequestStatus_Parse contents of
          None \<Rightarrow> None
        | Some st \<Rightarrow> Some (a\<lparr>ors_requestStatus := Some st\<rparr>))
     else if type = name_code StatusInfo then
       Some (a\<lparr>ors_statusInfo := Some (BFCPAttrStatusInfo_Parse contents)\<rparr>)
     else if mandatory then None
     else Some a)"

definition BFCPAttrOverallRequestStatus_Parse :: "medkit \<Rightarrow> byte list \<Rightarrow> BFCPAttrOverallRequestStatus option" where
  "BFCPAttrOverallRequestStatus_Parse io contents =
    (case ReadWord io contents of
       None \<Rightarrow> None
     | Some floorRequestId \<Rightarrow>
         walk BFCPAttrOverallRequestStatus_Parse_attr (cursor (drop 2 contents))
           (BFCPAttrOverallRequestStatus_new floorRequestId))"

record BFCPAttrFloorRequestInformation =
  fri_floorRequestId :: BFCPAttrFloorRequestId
  fri_floorRequestStatuses :: "BFCPAttrFloorRequestStatus list"
  fri_overallRequestStatus :: "BFCPAttrOverallRequestStatus option"
  fri_beneficiaryInformation :: "BFCPAttrBeneficiaryInformation option"
  fri_requestedByInformation :: "BFCPAttrRequestedByInformation option"

definition BFCPAttrFloorRequestInformation_new :: "int \<Rightarrow> BFCPAttrFloorRequestInformation" where
  "BFCPAttrFloorRequestInformation_new floorRequestId =
     \<lparr>fri_floorRequestId = floorRequestId, fri_floorRequestStatuses = [],
      fri_overallRequestStatus = None, fri_beneficiaryInformation = None,
      fri_requestedByInformation = None\<rparr>"

text \<open>
  \<open>AddFloorRequestStatus\<close> compares pointers, and every caller passes a new object: the guard
  never fires and the status is appended.
\<close>

definition AddFloorRequestStatus ::
  "BFCPAttrFloorRequestStatus \<Rightarrow> BFCPAttrFloorRequestInformation \<Rightarrow> BFCPAttrFloorRequestInformation" where
  "AddFloorRequestStatus st a = a\<lparr>fri_floorRequestStatuses := fri_floorRequestStatuses a @ [st]\<rparr>"

definition SetDescription :: "byte list \<Rightarrow> BFCPAttrFloorRequestInformation \<Rightarrow> BFCPAttrFloorRequestInformation" where
  "SetDescription statusInfo a =
    (case fri_overallRequestStatus a of
       None \<Rightarrow> a
     | Some ors \<Rightarrow> a\<lparr>fri_overallRequestStatus := Some (ors\<lparr>ors_statusInfo := Some statusInfo\<rparr>)\<rparr>)"

definition GetFloorRequestStatus ::
  "BFCPAttrFloorRequestInformation \<Rightarrow> nat \<Rightarrow> BFCPAttrFloorRequestStatus option" where
  "GetFloorRequestStatus a index =
    (if index \<ge> length (fri_floorRequestStatuses a) then None
     else Some (fri_floorRequestStatuses a ! index))"

definition BFCPAttrFloorRequestInformation_contents ::
  "medkit \<Rightarrow> BFCPAttrFloorRequestInformation \<Rightarrow> byte list option" where
  "BFCPAttrFloorRequestInformation_contents io a =
    do {
      out \<leftarrow> append_opt (\<lambda>o' k. BFCPAttrOverallRequestStatus_Serialize io o' k False) MaxLength
               (fri_overallRequestStatus a) (set2 io (fri_floorRequestId a));
      out \<leftarrow> append_all (\<lambda>st k. BFCPAttrFloorRequestStatus_Serialize io st k True) MaxLength
               (fri_floorRequestStatuses a) out;
      out \<leftarrow> append_opt (\<lambda>b k. BFCPAttrBeneficiaryInformation_Serialize io b k False) MaxLength
               (fri_beneficiaryInformation a) out;
      append_opt (\<lambda>r k. BFCPAttrRequestedByInformation_Serialize io r k False) MaxLength
               (fri_requestedByInformation a) out
    }"

definition BFCPAttrFloorRequestInformation_Serialize ::
  "medkit \<Rightarrow> BFCPAttrFloorRequestInformation \<Rightarrow> nat \<Rightarrow> bool \<Rightarrow> byte list option" where
  "BFCPAttrFloorRequestInformation_Serialize io a mx mandatory =
     Option.bind (BFCPAttrFloorRequestInformation_contents io a)
       (BFCPAttribute_Write mx FloorRequestInformation mandatory)"

definition BFCPAttrFloorRequestInformation_Parse_attr ::
  "medkit \<Rightarrow> attr \<Rightarrow> BFCPAttrFloorRequestInformation \<Rightarrow> BFCPAttrFloorRequestInformation option" where
  "BFCPAttrFloorRequestInformation_Parse_attr io = (\<lambda>(type, mandatory, contents) a.
     if type = name_code OverallRequestStatus then
       (case BFCPAttrOverallRequestStatus_Parse io contents of
          None \<Rightarrow> None
        | Some overall \<Rightarrow> Some (a\<lparr>fri_overallRequestStatus := Some overall\<rparr>))
     else if type = name_code FloorRequestStatus then
       (case BFCPAttrFloorRequestStatus_Parse io contents of
          None \<Rightarrow> None
        | Some st \<Rightarrow> Some (AddFloorRequestStatus st a))
     else if type = name_code BeneficiaryInformation then
       (case BFCPAttrBeneficiaryInformation_Parse io contents of
          None \<Rightarrow> None
        | Some b \<Rightarrow> Some (a\<lparr>fri_beneficiaryInformation := Some b\<rparr>))
     else if type = name_code RequestedByInformation then
       (case BFCPAttrRequestedByInformation_Parse io contents of
          None \<Rightarrow> None
        | Some r \<Rightarrow> Some (a\<lparr>fri_requestedByInformation := Some r\<rparr>))
     else if mandatory then None
     else Some a)"

definition BFCPAttrFloorRequestInformation_Parse ::
  "medkit \<Rightarrow> byte list \<Rightarrow> BFCPAttrFloorRequestInformation option" where
  "BFCPAttrFloorRequestInformation_Parse io contents =
    (case ReadWord io contents of
       None \<Rightarrow> None
     | Some floorRequestId \<Rightarrow>
         walk (BFCPAttrFloorRequestInformation_Parse_attr io) (cursor (drop 2 contents))
           (BFCPAttrFloorRequestInformation_new floorRequestId))"

section \<open>Every class meets the contract\<close>

abbreviation opt_list :: "'a option \<Rightarrow> 'a list" where
  "opt_list a \<equiv> case a of None \<Rightarrow> [] | Some x \<Rightarrow> [x]"

definition rs_wf :: "BFCPAttrRequestStatus \<Rightarrow> bool" where
  "rs_wf a = (0 \<le> rs_queuePosition a \<and> rs_queuePosition a < 256)"

definition codes_wf :: "int \<Rightarrow> int list \<Rightarrow> bool" where
  "codes_wf bound codes = (distinct codes \<and> (\<forall>c \<in> set codes. 0 \<le> c \<and> c < bound) \<and> length codes \<le> 253)"

definition frs_wf :: "BFCPAttrFloorRequestStatus \<Rightarrow> bool" where
  "frs_wf a = (wf16 (frs_floorId a) \<and> list_all rs_wf (opt_list (frs_requestStatus a)))"

definition ors_wf :: "BFCPAttrOverallRequestStatus \<Rightarrow> bool" where
  "ors_wf a = (wf16 (ors_floorRequestId a) \<and> list_all rs_wf (opt_list (ors_requestStatus a)))"

definition fri_wf :: "BFCPAttrFloorRequestInformation \<Rightarrow> bool" where
  "fri_wf a =
    (wf16 (fri_floorRequestId a) \<and> list_all frs_wf (fri_floorRequestStatuses a)
     \<and> list_all ors_wf (opt_list (fri_overallRequestStatus a))
     \<and> list_all (\<lambda>v. wf16 v) (opt_list (fri_beneficiaryInformation a))
     \<and> list_all (\<lambda>v. wf16 v) (opt_list (fri_requestedByInformation a)))"

interpretation requestStatus: attr_codec RequestStatus BFCPAttrRequestStatus_Serialize
  BFCPAttrRequestStatus_Parse "\<lambda>a. Some (BFCPAttrRequestStatus_contents a)" rs_wf
proof
  fix a :: BFCPAttrRequestStatus and c
  assume a: "rs_wf a" and "Some (BFCPAttrRequestStatus_contents a) = Some c"
  then have c: "c = BFCPAttrRequestStatus_contents a" by simp
  have s: "uint (to_byte (status_code (rs_status a))) = status_code (rs_status a)"
    using status_code_bounds [of "rs_status a"] by (intro uint_to_byte_id) simp_all
  have q: "uint (to_byte (rs_queuePosition a)) = rs_queuePosition a"
    using a by (intro uint_to_byte_id) (simp_all add: rs_wf_def)
  show "BFCPAttrRequestStatus_Parse c = Some a"
    using status_code_bounds [of "rs_status a"]
    by (simp add: c BFCPAttrRequestStatus_contents_def BFCPAttrRequestStatus_Parse_def s q)
qed (simp add: BFCPAttrRequestStatus_Serialize_def)

interpretation errorCode: attr_codec ErrorCode BFCPAttrErrorCode_Serialize
  BFCPAttrErrorCode_Parse "\<lambda>v. Some [to_byte v]" "\<lambda>v. 0 \<le> v \<and> v < 256"
  by unfold_locales (auto simp: BFCPAttrErrorCode_Serialize_def BFCPAttrErrorCode_Parse_def octet_simps)

interpretation errorInfo: attr_codec ErrorInfo BFCPAttrErrorInfo_Serialize
  "\<lambda>c. Some (BFCPAttrErrorInfo_Parse c)" Some "\<lambda>_. True"
  by unfold_locales (simp_all add: BFCPAttrErrorInfo_Serialize_def BFCPAttrErrorInfo_Parse_def)

interpretation participantInfo: attr_codec ParticipantProvidedInfo BFCPAttrParticipantProvidedInfo_Serialize
  "\<lambda>c. Some (BFCPAttrParticipantProvidedInfo_Parse c)" Some "\<lambda>_. True"
  by unfold_locales
    (simp_all add: BFCPAttrParticipantProvidedInfo_Serialize_def BFCPAttrParticipantProvidedInfo_Parse_def)

interpretation statusInfo: attr_codec StatusInfo BFCPAttrStatusInfo_Serialize
  "\<lambda>c. Some (BFCPAttrStatusInfo_Parse c)" Some "\<lambda>_. True"
  by unfold_locales (simp_all add: BFCPAttrStatusInfo_Serialize_def BFCPAttrStatusInfo_Parse_def)

lemma fold_Add_distinct:
  assumes "\<And>c cs. add c cs = (if c \<in> set cs then cs else cs @ [c])"
    and "distinct (acc @ codes)"
  shows "fold add codes acc = acc @ codes"
  using assms(2) by (induction codes arbitrary: acc) (simp_all add: assms(1))

interpretation supportedAttributes: attr_codec SupportedAttributes BFCPAttrSupportedAttributes_Serialize
  "\<lambda>c. Some (BFCPAttrSupportedAttributes_Parse c)" "\<lambda>a. Some (SupportedAttributes_contents a)" "codes_wf 128"
proof
  fix a :: "int list" and c
  assume a: "codes_wf 128 a" and "Some (SupportedAttributes_contents a) = Some c"
  then have c: "c = map (\<lambda>c. to_byte (push_bit 1 c)) a"
    by (simp add: SupportedAttributes_contents_def MaxLength_def codes_wf_def)
  have "fold (\<lambda>b. SupportedAttributes_Add (drop_bit 1 (uint b))) c [] = fold SupportedAttributes_Add a []"
    unfolding c fold_map
    using a by (intro fold_cong) (auto simp: o_def push_bit_eq_mult drop_bit_eq_div uint_to_byte_id codes_wf_def)
  also have "\<dots> = a"
    using a fold_Add_distinct [of SupportedAttributes_Add "[]" a]
    by (simp add: SupportedAttributes_Add_def SupportedAttributes_Has_def codes_wf_def)
  finally show "Some (BFCPAttrSupportedAttributes_Parse c) = Some a"
    by (simp add: BFCPAttrSupportedAttributes_Parse_def)
qed (simp add: BFCPAttrSupportedAttributes_Serialize_def)

interpretation supportedPrimitives: attr_codec SupportedPrimitives BFCPAttrSupportedPrimitives_Serialize
  "\<lambda>c. Some (BFCPAttrSupportedPrimitives_Parse c)" "\<lambda>a. Some (SupportedPrimitives_contents a)" "codes_wf 256"
proof
  fix a :: "int list" and c
  assume a: "codes_wf 256 a" and "Some (SupportedPrimitives_contents a) = Some c"
  then have c: "c = map to_byte a"
    by (simp add: SupportedPrimitives_contents_def MaxLength_def codes_wf_def)
  have "fold (\<lambda>b. SupportedPrimitives_Add (uint b)) c [] = fold SupportedPrimitives_Add a []"
    unfolding c fold_map
    using a by (intro fold_cong) (auto simp: o_def uint_to_byte_id codes_wf_def)
  also have "\<dots> = a"
    using a fold_Add_distinct [of SupportedPrimitives_Add "[]" a]
    by (simp add: SupportedPrimitives_Add_def SupportedPrimitives_Has_def codes_wf_def)
  finally show "Some (BFCPAttrSupportedPrimitives_Parse c) = Some a"
    by (simp add: BFCPAttrSupportedPrimitives_Parse_def)
qed (simp add: BFCPAttrSupportedPrimitives_Serialize_def)

lemma well_formed_Nil [simp]: "well_formed_attrs []"
  by (simp add: well_formed_attrs_def walk_cursor)

context medkit_octets
begin

lemma ReadWord_set2: "wf16 v \<Longrightarrow> ReadWord io (set2 io v @ xs) = Some v"
  by (simp add: ReadWord_def octet_simps)

lemma ReadWord_set2': "wf16 v \<Longrightarrow> ReadWord io (set2 io v) = Some v"
  using ReadWord_set2 [of v "[]"] by simp

end

sublocale medkit_octets \<subseteq> beneficiaryId: attr_codec BeneficiaryId "BFCPAttrBeneficiaryId_Serialize io"
  "BFCPAttrBeneficiaryId_Parse io" "\<lambda>v. Some (set2 io v)" wf16
  by unfold_locales
    (auto simp: BFCPAttrBeneficiaryId_Serialize_def BFCPAttrBeneficiaryId_Parse_def ReadWord_set2')

sublocale medkit_octets \<subseteq> floorId: attr_codec FloorId "BFCPAttrFloorId_Serialize io"
  "BFCPAttrFloorId_Parse io" "\<lambda>v. Some (set2 io v)" wf16
  by unfold_locales
    (auto simp: BFCPAttrFloorId_Serialize_def BFCPAttrFloorId_Parse_def ReadWord_set2')

sublocale medkit_octets \<subseteq> floorRequestId: attr_codec FloorRequestId "BFCPAttrFloorRequestId_Serialize io"
  "BFCPAttrFloorRequestId_Parse io" "\<lambda>v. Some (set2 io v)" wf16
  by unfold_locales
    (auto simp: BFCPAttrFloorRequestId_Serialize_def BFCPAttrFloorRequestId_Parse_def ReadWord_set2')

sublocale medkit_octets \<subseteq> beneficiaryInformation: attr_codec BeneficiaryInformation
  "BFCPAttrBeneficiaryInformation_Serialize io" "BFCPAttrBeneficiaryInformation_Parse io"
  "\<lambda>v. Some (set2 io v)" wf16
  by unfold_locales
    (auto simp: BFCPAttrBeneficiaryInformation_Serialize_def BFCPAttrBeneficiaryInformation_Parse_def ReadWord_set2')

sublocale medkit_octets \<subseteq> requestedByInformation: attr_codec RequestedByInformation
  "BFCPAttrRequestedByInformation_Serialize io" "BFCPAttrRequestedByInformation_Parse io"
  "\<lambda>v. Some (set2 io v)" wf16
  by unfold_locales
    (auto simp: BFCPAttrRequestedByInformation_Serialize_def BFCPAttrRequestedByInformation_Parse_def ReadWord_set2')

text \<open>
  The grouped attributes: an identifier, then the attributes they hold. Parsing one is folding
  the loop body over what was written after the identifier.
\<close>

context medkit_octets
begin

lemma grouped_parse:
  assumes "wf16 v" "encodes w as"
  shows "(case ReadWord io (set2 io v @ w) of None \<Rightarrow> None
          | Some i \<Rightarrow> walk f (cursor (drop 2 (set2 io v @ w))) (new i)) = foldM f as (new v)"
  using assms by (simp add: ReadWord_set2 walk_cursor encodes_attrs_of)

lemma frs_parse_contents:
  assumes wf: "frs_wf a" and c: "BFCPAttrFloorRequestStatus_contents io a = Some c"
  shows "BFCPAttrFloorRequestStatus_Parse io c = Some a"
proof -
  let ?xs = "opt_list (frs_requestStatus a)"
  from c obtain w where w: "c = set2 io (frs_floorId a) @ w"
    and enc: "encodes w (map (\<lambda>x. attr_of RequestStatus False (Some (BFCPAttrRequestStatus_contents x))) ?xs)"
    unfolding BFCPAttrFloorRequestStatus_contents_def append_opt_all
    by (blast dest: requestStatus.append_all_encodes)
  have "foldM BFCPAttrFloorRequestStatus_Parse_attr
      (map (\<lambda>x. attr_of RequestStatus False (Some (BFCPAttrRequestStatus_contents x))) ?xs)
      (BFCPAttrFloorRequestStatus_new (frs_floorId a))
    = Some (fold (\<lambda>st a. a\<lparr>frs_requestStatus := Some st\<rparr>) ?xs (BFCPAttrFloorRequestStatus_new (frs_floorId a)))"
    using wf by (intro requestStatus.foldM_parse)
      (simp_all add: attr_of_def BFCPAttrFloorRequestStatus_Parse_attr_def frs_wf_def list_all_iff)
  moreover have "fold (\<lambda>st a. a\<lparr>frs_requestStatus := Some st\<rparr>) ?xs
      (BFCPAttrFloorRequestStatus_new (frs_floorId a)) = a"
    by (cases "frs_requestStatus a") (simp_all add: BFCPAttrFloorRequestStatus_new_def)
  ultimately show ?thesis
    unfolding BFCPAttrFloorRequestStatus_Parse_def w using wf by (subst grouped_parse [OF _ enc]) (auto simp: frs_wf_def)
qed

lemma ors_parse_contents:
  assumes wf: "ors_wf a" and c: "BFCPAttrOverallRequestStatus_contents io a = Some c"
  shows "BFCPAttrOverallRequestStatus_Parse io c = Some a"
proof -
  let ?xs = "opt_list (ors_requestStatus a)" and ?ys = "opt_list (ors_statusInfo a)"
  let ?as = "map (\<lambda>x. attr_of RequestStatus False (Some (BFCPAttrRequestStatus_contents x))) ?xs"
  let ?bs = "map (\<lambda>x. attr_of StatusInfo False (Some x)) ?ys"
  let ?new = "BFCPAttrOverallRequestStatus_new (ors_floorRequestId a)"
  from c obtain v w where c: "c = set2 io (ors_floorRequestId a) @ v @ w"
    and enc: "encodes v ?as" "encodes w ?bs"
    unfolding BFCPAttrOverallRequestStatus_contents_def append_opt_all bind_eq_Some_conv
    by (force dest: requestStatus.append_all_encodes statusInfo.append_all_encodes)
  have "foldM BFCPAttrOverallRequestStatus_Parse_attr ?as ?new
      = Some (fold (\<lambda>st a. a\<lparr>ors_requestStatus := Some st\<rparr>) ?xs ?new)"
    using wf by (intro requestStatus.foldM_parse)
      (simp_all add: attr_of_def BFCPAttrOverallRequestStatus_Parse_attr_def ors_wf_def list_all_iff)
  moreover have "foldM BFCPAttrOverallRequestStatus_Parse_attr ?bs s
      = Some (fold (\<lambda>si a. a\<lparr>ors_statusInfo := Some si\<rparr>) ?ys s)" for s
    by (cases "ors_statusInfo a")
      (simp_all add: attr_of_def BFCPAttrOverallRequestStatus_Parse_attr_def BFCPAttrStatusInfo_Parse_def)
  moreover have "fold (\<lambda>si a. a\<lparr>ors_statusInfo := Some si\<rparr>) ?ys
      (fold (\<lambda>st a. a\<lparr>ors_requestStatus := Some st\<rparr>) ?xs ?new) = a"
    by (cases "ors_requestStatus a"; cases "ors_statusInfo a")
      (simp_all add: BFCPAttrOverallRequestStatus_new_def)
  ultimately show ?thesis
    unfolding BFCPAttrOverallRequestStatus_Parse_def c
    using wf by (subst grouped_parse [OF _ encodes_append [OF enc]]) (auto simp: ors_wf_def)
qed

end

sublocale medkit_octets \<subseteq> floorRequestStatus: attr_codec FloorRequestStatus
  "BFCPAttrFloorRequestStatus_Serialize io" "BFCPAttrFloorRequestStatus_Parse io"
  "BFCPAttrFloorRequestStatus_contents io" frs_wf
  by unfold_locales (simp_all add: BFCPAttrFloorRequestStatus_Serialize_def frs_parse_contents)

sublocale medkit_octets \<subseteq> overallRequestStatus: attr_codec OverallRequestStatus
  "BFCPAttrOverallRequestStatus_Serialize io" "BFCPAttrOverallRequestStatus_Parse io"
  "BFCPAttrOverallRequestStatus_contents io" ors_wf
  by unfold_locales (simp_all add: BFCPAttrOverallRequestStatus_Serialize_def ors_parse_contents)

context medkit_octets
begin

text \<open>Each loop body step of the group, for the four kinds of attributes it holds.\<close>

lemma fri_step_overall:
  "\<forall>x \<in> set xs. ors_wf x \<and> BFCPAttrOverallRequestStatus_contents io x \<noteq> None \<Longrightarrow>
    foldM (BFCPAttrFloorRequestInformation_Parse_attr io)
      (map (\<lambda>x. attr_of OverallRequestStatus m (BFCPAttrOverallRequestStatus_contents io x)) xs) s
    = Some (fold (\<lambda>x a. a\<lparr>fri_overallRequestStatus := Some x\<rparr>) xs s)"
  by (rule overallRequestStatus.foldM_parse)
    (simp_all add: attr_of_def BFCPAttrFloorRequestInformation_Parse_attr_def)

lemma fri_step_status:
  "\<forall>y \<in> set ys. frs_wf y \<and> BFCPAttrFloorRequestStatus_contents io y \<noteq> None \<Longrightarrow>
    foldM (BFCPAttrFloorRequestInformation_Parse_attr io)
      (map (\<lambda>x. attr_of FloorRequestStatus m (BFCPAttrFloorRequestStatus_contents io x)) ys) s
    = Some (fold AddFloorRequestStatus ys s)"
  by (rule floorRequestStatus.foldM_parse)
    (simp_all add: attr_of_def BFCPAttrFloorRequestInformation_Parse_attr_def)

lemma fri_step_beneficiary:
  "\<forall>z \<in> set zs. wf16 z \<Longrightarrow>
    foldM (BFCPAttrFloorRequestInformation_Parse_attr io)
      (map (\<lambda>x. attr_of BeneficiaryInformation m (Some (set2 io x))) zs) s
    = Some (fold (\<lambda>x a. a\<lparr>fri_beneficiaryInformation := Some x\<rparr>) zs s)"
  by (rule beneficiaryInformation.foldM_parse)
    (simp_all add: attr_of_def BFCPAttrFloorRequestInformation_Parse_attr_def)

lemma fri_step_requestedBy:
  "\<forall>z \<in> set zs. wf16 z \<Longrightarrow>
    foldM (BFCPAttrFloorRequestInformation_Parse_attr io)
      (map (\<lambda>x. attr_of RequestedByInformation m (Some (set2 io x))) zs) s
    = Some (fold (\<lambda>x a. a\<lparr>fri_requestedByInformation := Some x\<rparr>) zs s)"
  by (rule requestedByInformation.foldM_parse)
    (simp_all add: attr_of_def BFCPAttrFloorRequestInformation_Parse_attr_def)

lemmas fri_step = fri_step_overall fri_step_status fri_step_beneficiary fri_step_requestedBy

lemma fri_contents_encodes:
  assumes "BFCPAttrFloorRequestInformation_contents io a = Some c"
  obtains w where "c = set2 io (fri_floorRequestId a) @ w"
    "encodes w
      (map (\<lambda>x. attr_of OverallRequestStatus False (BFCPAttrOverallRequestStatus_contents io x))
         (opt_list (fri_overallRequestStatus a))
       @ map (\<lambda>x. attr_of FloorRequestStatus True (BFCPAttrFloorRequestStatus_contents io x))
         (fri_floorRequestStatuses a)
       @ map (\<lambda>x. attr_of BeneficiaryInformation False (Some (set2 io x)))
         (opt_list (fri_beneficiaryInformation a))
       @ map (\<lambda>x. attr_of RequestedByInformation False (Some (set2 io x)))
         (opt_list (fri_requestedByInformation a)))"
    "\<forall>x \<in> set (opt_list (fri_overallRequestStatus a)). BFCPAttrOverallRequestStatus_contents io x \<noteq> None"
    "\<forall>x \<in> set (fri_floorRequestStatuses a). BFCPAttrFloorRequestStatus_contents io x \<noteq> None"
proof -
  from assms obtain out1 out2 out3 where
    "append_all (\<lambda>o' k. BFCPAttrOverallRequestStatus_Serialize io o' k False) MaxLength
       (opt_list (fri_overallRequestStatus a)) (set2 io (fri_floorRequestId a)) = Some out1"
    "append_all (\<lambda>st k. BFCPAttrFloorRequestStatus_Serialize io st k True) MaxLength
       (fri_floorRequestStatuses a) out1 = Some out2"
    "append_all (\<lambda>b k. BFCPAttrBeneficiaryInformation_Serialize io b k False) MaxLength
       (opt_list (fri_beneficiaryInformation a)) out2 = Some out3"
    "append_all (\<lambda>r k. BFCPAttrRequestedByInformation_Serialize io r k False) MaxLength
       (opt_list (fri_requestedByInformation a)) out3 = Some c"
    unfolding BFCPAttrFloorRequestInformation_contents_def append_opt_all bind_eq_Some_conv by blast
  from overallRequestStatus.append_all_encodes [OF this(1)] floorRequestStatus.append_all_encodes [OF this(2)]
    beneficiaryInformation.append_all_encodes [OF this(3)] requestedByInformation.append_all_encodes [OF this(4)]
  show ?thesis
    by (elim exE conjE) (rule that; auto intro!: encodes_append)
qed

lemma fri_parse_contents:
  assumes wf: "fri_wf a" and c: "BFCPAttrFloorRequestInformation_contents io a = Some c"
  shows "BFCPAttrFloorRequestInformation_Parse io c = Some a"
proof -
  let ?new = "BFCPAttrFloorRequestInformation_new (fri_floorRequestId a)"
  let ?os = "opt_list (fri_overallRequestStatus a)" and ?bs = "opt_list (fri_beneficiaryInformation a)"
    and ?rs = "opt_list (fri_requestedByInformation a)"
  from c obtain w where c: "c = set2 io (fri_floorRequestId a) @ w"
    and enc: "encodes w
      (map (\<lambda>x. attr_of OverallRequestStatus False (BFCPAttrOverallRequestStatus_contents io x)) ?os
       @ map (\<lambda>x. attr_of FloorRequestStatus True (BFCPAttrFloorRequestStatus_contents io x))
         (fri_floorRequestStatuses a)
       @ map (\<lambda>x. attr_of BeneficiaryInformation False (Some (set2 io x))) ?bs
       @ map (\<lambda>x. attr_of RequestedByInformation False (Some (set2 io x))) ?rs)"
    and ne: "\<forall>x \<in> set ?os. BFCPAttrOverallRequestStatus_contents io x \<noteq> None"
      "\<forall>x \<in> set (fri_floorRequestStatuses a). BFCPAttrFloorRequestStatus_contents io x \<noteq> None"
    by (rule fri_contents_encodes)
  have add: "fold AddFloorRequestStatus ys b = b\<lparr>fri_floorRequestStatuses := fri_floorRequestStatuses b @ ys\<rparr>"
    for ys b by (induction ys arbitrary: b) (simp_all add: AddFloorRequestStatus_def)
  have w': "\<forall>x \<in> set ?os. ors_wf x" "\<forall>x \<in> set (fri_floorRequestStatuses a). frs_wf x"
    "\<forall>x \<in> set ?bs. wf16 x" "\<forall>x \<in> set ?rs. wf16 x" "wf16 (fri_floorRequestId a)"
    using wf by (simp_all add: fri_wf_def list_all_iff)
  have "fold (\<lambda>x a. a\<lparr>fri_requestedByInformation := Some x\<rparr>) ?rs
      (fold (\<lambda>x a. a\<lparr>fri_beneficiaryInformation := Some x\<rparr>) ?bs
      (fold AddFloorRequestStatus (fri_floorRequestStatuses a)
      (fold (\<lambda>x a. a\<lparr>fri_overallRequestStatus := Some x\<rparr>) ?os ?new))) = a"
    by (simp add: add BFCPAttrFloorRequestInformation_new_def split: option.split)
  then show ?thesis
    unfolding BFCPAttrFloorRequestInformation_Parse_def c grouped_parse [OF w'(5) enc]
    using w' ne by (simp add: fri_step)
qed

end

sublocale medkit_octets \<subseteq> floorRequestInformation: attr_codec FloorRequestInformation
  "BFCPAttrFloorRequestInformation_Serialize io" "BFCPAttrFloorRequestInformation_Parse io"
  "BFCPAttrFloorRequestInformation_contents io" fri_wf
  by unfold_locales
    (simp_all add: BFCPAttrFloorRequestInformation_Serialize_def fri_parse_contents)

end
