(* ===== verification/BfcpMessage.thy ===== *)
theory BfcpMessage
  imports BfcpAttributes
begin

unbundle bit_operations_syntax

text \<open>
  The messages of BFCP (\<open>mcu/src/bfcp/BFCPMessage.cpp\<close> and \<open>mcu/src/bfcp/messages\<close>): the class
  \<open>BFCPMessage\<close> with its header fields, and one constructor of \<open>BFCPBody\<close> for each derived class.
  \<open>MsgOther p\<close> is an object of the base class itself, with primitive code \<open>p\<close>. The virtual
  methods \<open>SerializeAttributes\<close>, \<open>ParseAttributes\<close> and \<open>IsValid\<close> dispatch on the constructor.

  \<open>Parse_Serialize\<close> is the round trip of every message whose values fit their fields; the
  theorems about errors say what \<open>Parse\<close> refuses.
\<close>

section \<open>Primitives\<close>

datatype Primitive =
    P_FloorRequest | P_FloorRelease | P_FloorRequestQuery | P_FloorRequestStatus | P_UserQuery
  | P_UserStatus | P_FloorQuery | P_FloorStatus | P_ChairAction | P_ChairActionAck | P_Hello
  | P_HelloAck | P_Error | P_FloorRequestStatusAck | P_FloorStatusAck | P_Goodbye | P_GoodbyeAck

fun prim_code :: "Primitive \<Rightarrow> int" where
  "prim_code P_FloorRequest = 1"
| "prim_code P_FloorRelease = 2"
| "prim_code P_FloorRequestQuery = 3"
| "prim_code P_FloorRequestStatus = 4"
| "prim_code P_UserQuery = 5"
| "prim_code P_UserStatus = 6"
| "prim_code P_FloorQuery = 7"
| "prim_code P_FloorStatus = 8"
| "prim_code P_ChairAction = 9"
| "prim_code P_ChairActionAck = 10"
| "prim_code P_Hello = 11"
| "prim_code P_HelloAck = 12"
| "prim_code P_Error = 13"
| "prim_code P_FloorRequestStatusAck = 14"
| "prim_code P_FloorStatusAck = 15"
| "prim_code P_Goodbye = 16"
| "prim_code P_GoodbyeAck = 17"

definition PrimitiveName :: "int \<Rightarrow> string" where
  "PrimitiveName primitive =
    (if primitive = prim_code P_FloorRequest then ''FloorRequest''
     else if primitive = prim_code P_FloorRelease then ''FloorRelease''
     else if primitive = prim_code P_FloorRequestQuery then ''FloorRequestQuery''
     else if primitive = prim_code P_FloorRequestStatus then ''FloorRequestStatus''
     else if primitive = prim_code P_UserQuery then ''UserQuery''
     else if primitive = prim_code P_UserStatus then ''UserStatus''
     else if primitive = prim_code P_FloorQuery then ''FloorQuery''
     else if primitive = prim_code P_FloorStatus then ''FloorStatus''
     else if primitive = prim_code P_ChairAction then ''ChairAction''
     else if primitive = prim_code P_ChairActionAck then ''ChairActionAck''
     else if primitive = prim_code P_Hello then ''Hello''
     else if primitive = prim_code P_HelloAck then ''HelloAck''
     else if primitive = prim_code P_Error then ''Error''
     else if primitive = prim_code P_FloorRequestStatusAck then ''FloorRequestStatusAck''
     else if primitive = prim_code P_FloorStatusAck then ''FloorStatusAck''
     else if primitive = prim_code P_Goodbye then ''Goodbye''
     else if primitive = prim_code P_GoodbyeAck then ''GoodbyeAck''
     else ''Unknown'')"

section \<open>The message classes\<close>

record BFCPMsgFloorRequest =
  mfr_floorIds :: "BFCPAttrFloorId list"
  mfr_beneficiaryId :: "BFCPAttrBeneficiaryId option"
  mfr_participantProvidedInfo :: "BFCPAttrParticipantProvidedInfo option"

type_synonym BFCPMsgFloorRelease = "BFCPAttrFloorRequestId option"
type_synonym BFCPMsgFloorQuery = "BFCPAttrFloorId list"
type_synonym BFCPMsgFloorRequestStatus = "BFCPAttrFloorRequestInformation option"

record BFCPMsgFloorStatus =
  mfs_floorId :: "BFCPAttrFloorId option"
  mfs_floorRequestInformations :: "BFCPAttrFloorRequestInformation list"

record BFCPMsgHelloAck =
  mha_supportedPrimitives :: BFCPAttrSupportedPrimitives
  mha_supportedAttributes :: BFCPAttrSupportedAttributes

record BFCPMsgError =
  me_errorCode :: "BFCPAttrErrorCode option"
  me_errorInfo :: "BFCPAttrErrorInfo option"

datatype BFCPBody =
    MsgFloorRequest BFCPMsgFloorRequest
  | MsgFloorRelease BFCPMsgFloorRelease
  | MsgFloorQuery BFCPMsgFloorQuery
  | MsgFloorRequestStatus BFCPMsgFloorRequestStatus
  | MsgFloorStatus BFCPMsgFloorStatus
  | MsgHello
  | MsgHelloAck BFCPMsgHelloAck
  | MsgError BFCPMsgError
  | MsgOther int

record BFCPMessage =
  m_transactionId :: int
  m_conferenceId :: int
  m_userId :: int
  m_version :: int
  m_responder :: bool
  m_body :: BFCPBody

definition MsgHeaderLen :: nat where
  "MsgHeaderLen = 12"

definition VersionReliable :: int where
  "VersionReliable = 1"

definition VersionUnreliable :: int where
  "VersionUnreliable = 2"

definition BFCPMessage_new :: "BFCPBody \<Rightarrow> int \<Rightarrow> int \<Rightarrow> int \<Rightarrow> BFCPMessage" where
  "BFCPMessage_new body transactionId conferenceId userId =
     \<lparr>m_transactionId = transactionId, m_conferenceId = conferenceId, m_userId = userId,
      m_version = VersionReliable, m_responder = False, m_body = body\<rparr>"

fun body_primitive :: "BFCPBody \<Rightarrow> int" where
  "body_primitive (MsgFloorRequest _) = prim_code P_FloorRequest"
| "body_primitive (MsgFloorRelease _) = prim_code P_FloorRelease"
| "body_primitive (MsgFloorQuery _) = prim_code P_FloorQuery"
| "body_primitive (MsgFloorRequestStatus _) = prim_code P_FloorRequestStatus"
| "body_primitive (MsgFloorStatus _) = prim_code P_FloorStatus"
| "body_primitive MsgHello = prim_code P_Hello"
| "body_primitive (MsgHelloAck _) = prim_code P_HelloAck"
| "body_primitive (MsgError _) = prim_code P_Error"
| "body_primitive (MsgOther p) = p"

definition GetPrimitive :: "BFCPMessage \<Rightarrow> int" where
  "GetPrimitive msg = body_primitive (m_body msg)"

section \<open>FloorRequest\<close>

definition BFCPMsgFloorRequest_new :: BFCPMsgFloorRequest where
  "BFCPMsgFloorRequest_new =
     \<lparr>mfr_floorIds = [], mfr_beneficiaryId = None, mfr_participantProvidedInfo = None\<rparr>"

definition BFCPMsgFloorRequest_IsValid :: "BFCPMsgFloorRequest \<Rightarrow> bool" where
  "BFCPMsgFloorRequest_IsValid msg = (\<not> length (mfr_floorIds msg) < 1)"

definition FloorRequest_AddFloorId :: "int \<Rightarrow> BFCPMsgFloorRequest \<Rightarrow> BFCPMsgFloorRequest" where
  "FloorRequest_AddFloorId floorId msg = msg\<lparr>mfr_floorIds := mfr_floorIds msg @ [floorId]\<rparr>"

definition BFCPMsgFloorRequest_SerializeAttributes :: "medkit \<Rightarrow> BFCPMsgFloorRequest \<Rightarrow> nat \<Rightarrow> byte list option" where
  "BFCPMsgFloorRequest_SerializeAttributes io msg mx =
    do {
      out \<leftarrow> append_all (\<lambda>f k. BFCPAttrFloorId_Serialize io f k True) mx (mfr_floorIds msg) [];
      out \<leftarrow> append_opt (\<lambda>b k. BFCPAttrBeneficiaryId_Serialize io b k False) mx (mfr_beneficiaryId msg) out;
      append_opt (\<lambda>p k. BFCPAttrParticipantProvidedInfo_Serialize p k False) mx
        (mfr_participantProvidedInfo msg) out
    }"

definition BFCPMsgFloorRequest_ParseAttribute ::
  "medkit \<Rightarrow> attr \<Rightarrow> BFCPMsgFloorRequest \<Rightarrow> BFCPMsgFloorRequest option" where
  "BFCPMsgFloorRequest_ParseAttribute io = (\<lambda>(type, mandatory, contents) msg.
     if type = name_code FloorId then
       (case ReadWord io contents of
          None \<Rightarrow> None
        | Some floorId \<Rightarrow> Some (FloorRequest_AddFloorId floorId msg))
     else if type = name_code BeneficiaryId then
       (case ReadWord io contents of
          None \<Rightarrow> None
        | Some beneficiaryId \<Rightarrow> Some (msg\<lparr>mfr_beneficiaryId := Some beneficiaryId\<rparr>))
     else if type = name_code ParticipantProvidedInfo then
       Some (msg\<lparr>mfr_participantProvidedInfo := Some contents\<rparr>)
     else if type = name_code Priority then Some msg
     else if mandatory then None
     else Some msg)"

section \<open>FloorRelease and FloorQuery\<close>

definition BFCPMsgFloorRelease_IsValid :: "BFCPMsgFloorRelease \<Rightarrow> bool" where
  "BFCPMsgFloorRelease_IsValid floorRequestId = (floorRequestId \<noteq> None)"

definition BFCPMsgFloorRelease_SerializeAttributes :: "medkit \<Rightarrow> BFCPMsgFloorRelease \<Rightarrow> nat \<Rightarrow> byte list option" where
  "BFCPMsgFloorRelease_SerializeAttributes io floorRequestId mx =
    (case floorRequestId of
       None \<Rightarrow> None
     | Some i \<Rightarrow> BFCPAttrFloorRequestId_Serialize io i mx True)"

definition BFCPMsgFloorRelease_ParseAttribute :: "medkit \<Rightarrow> attr \<Rightarrow> BFCPMsgFloorRelease \<Rightarrow> BFCPMsgFloorRelease option" where
  "BFCPMsgFloorRelease_ParseAttribute io = (\<lambda>(type, mandatory, contents) msg.
     if type = name_code FloorRequestId then
       (case ReadWord io contents of
          None \<Rightarrow> None
        | Some floorRequestId \<Rightarrow> Some (Some floorRequestId))
     else if mandatory then None
     else Some msg)"

definition BFCPMsgFloorQuery_SerializeAttributes :: "medkit \<Rightarrow> BFCPMsgFloorQuery \<Rightarrow> nat \<Rightarrow> byte list option" where
  "BFCPMsgFloorQuery_SerializeAttributes io floorIds mx =
     append_all (\<lambda>f k. BFCPAttrFloorId_Serialize io f k False) mx floorIds []"

definition BFCPMsgFloorQuery_ParseAttribute :: "medkit \<Rightarrow> attr \<Rightarrow> BFCPMsgFloorQuery \<Rightarrow> BFCPMsgFloorQuery option" where
  "BFCPMsgFloorQuery_ParseAttribute io = (\<lambda>(type, mandatory, contents) msg.
     if type = name_code FloorId then
       (case ReadWord io contents of
          None \<Rightarrow> None
        | Some floorId \<Rightarrow> Some (msg @ [floorId]))
     else if mandatory then None
     else Some msg)"

section \<open>FloorRequestStatus and FloorStatus\<close>

definition BFCPMsgFloorRequestStatus_IsValid :: "BFCPMsgFloorRequestStatus \<Rightarrow> bool" where
  "BFCPMsgFloorRequestStatus_IsValid info = (info \<noteq> None)"

definition BFCPMsgFloorRequestStatus_SerializeAttributes ::
  "medkit \<Rightarrow> BFCPMsgFloorRequestStatus \<Rightarrow> nat \<Rightarrow> byte list option" where
  "BFCPMsgFloorRequestStatus_SerializeAttributes io info mx =
    (case info of
       None \<Rightarrow> None
     | Some i \<Rightarrow> BFCPAttrFloorRequestInformation_Serialize io i mx True)"

definition BFCPMsgFloorRequestStatus_ParseAttribute ::
  "medkit \<Rightarrow> attr \<Rightarrow> BFCPMsgFloorRequestStatus \<Rightarrow> BFCPMsgFloorRequestStatus option" where
  "BFCPMsgFloorRequestStatus_ParseAttribute io = (\<lambda>(type, mandatory, contents) msg.
     if type = name_code FloorRequestInformation then
       (case BFCPAttrFloorRequestInformation_Parse io contents of
          None \<Rightarrow> None
        | Some info \<Rightarrow> Some (Some info))
     else if mandatory then None
     else Some msg)"

definition BFCPMsgFloorStatus_new :: BFCPMsgFloorStatus where
  "BFCPMsgFloorStatus_new = \<lparr>mfs_floorId = None, mfs_floorRequestInformations = []\<rparr>"

text \<open>As in the grouped attribute, the guard on pointers never fires.\<close>

definition AddFloorRequestInformation :: "BFCPAttrFloorRequestInformation \<Rightarrow> BFCPMsgFloorStatus \<Rightarrow> BFCPMsgFloorStatus" where
  "AddFloorRequestInformation info msg =
     msg\<lparr>mfs_floorRequestInformations := mfs_floorRequestInformations msg @ [info]\<rparr>"

definition BFCPMsgFloorStatus_SerializeAttributes :: "medkit \<Rightarrow> BFCPMsgFloorStatus \<Rightarrow> nat \<Rightarrow> byte list option" where
  "BFCPMsgFloorStatus_SerializeAttributes io msg mx =
    do {
      out \<leftarrow> append_opt (\<lambda>f k. BFCPAttrFloorId_Serialize io f k False) mx (mfs_floorId msg) [];
      append_all (\<lambda>i k. BFCPAttrFloorRequestInformation_Serialize io i k False) mx
        (mfs_floorRequestInformations msg) out
    }"

definition BFCPMsgFloorStatus_ParseAttribute :: "medkit \<Rightarrow> attr \<Rightarrow> BFCPMsgFloorStatus \<Rightarrow> BFCPMsgFloorStatus option" where
  "BFCPMsgFloorStatus_ParseAttribute io = (\<lambda>(type, mandatory, contents) msg.
     if type = name_code FloorId then
       (case ReadWord io contents of
          None \<Rightarrow> None
        | Some floorId \<Rightarrow> Some (msg\<lparr>mfs_floorId := Some floorId\<rparr>))
     else if type = name_code FloorRequestInformation then
       (case BFCPAttrFloorRequestInformation_Parse io contents of
          None \<Rightarrow> None
        | Some info \<Rightarrow> Some (AddFloorRequestInformation info msg))
     else if mandatory then None
     else Some msg)"

section \<open>HelloAck and Error\<close>

definition BFCPMsgHelloAck_new :: BFCPMsgHelloAck where
  "BFCPMsgHelloAck_new = \<lparr>mha_supportedPrimitives = [], mha_supportedAttributes = []\<rparr>"

definition AddSupportedPrimitive :: "int \<Rightarrow> BFCPMsgHelloAck \<Rightarrow> BFCPMsgHelloAck" where
  "AddSupportedPrimitive p msg =
     msg\<lparr>mha_supportedPrimitives := SupportedPrimitives_Add p (mha_supportedPrimitives msg)\<rparr>"

definition AddSupportedAttribute :: "int \<Rightarrow> BFCPMsgHelloAck \<Rightarrow> BFCPMsgHelloAck" where
  "AddSupportedAttribute a msg =
     msg\<lparr>mha_supportedAttributes := SupportedAttributes_Add a (mha_supportedAttributes msg)\<rparr>"

definition BFCPMsgHelloAck_SerializeAttributes :: "BFCPMsgHelloAck \<Rightarrow> nat \<Rightarrow> byte list option" where
  "BFCPMsgHelloAck_SerializeAttributes msg mx =
    do {
      out \<leftarrow> BFCPAttrSupportedPrimitives_Serialize (mha_supportedPrimitives msg) mx True;
      append_attr (\<lambda>k. BFCPAttrSupportedAttributes_Serialize (mha_supportedAttributes msg) k True) mx out
    }"

definition BFCPMsgHelloAck_ParseAttribute :: "attr \<Rightarrow> BFCPMsgHelloAck \<Rightarrow> BFCPMsgHelloAck option" where
  "BFCPMsgHelloAck_ParseAttribute = (\<lambda>(type, mandatory, contents) msg.
     if type = name_code SupportedPrimitives then
       Some (fold (\<lambda>b. AddSupportedPrimitive (uint b)) contents msg)
     else if type = name_code SupportedAttributes then
       Some (fold (\<lambda>b. AddSupportedAttribute (drop_bit 1 (uint b))) contents msg)
     else if mandatory then None
     else Some msg)"

definition BFCPMsgError_new :: BFCPMsgError where
  "BFCPMsgError_new = \<lparr>me_errorCode = None, me_errorInfo = None\<rparr>"

definition BFCPMsgError_IsValid :: "BFCPMsgError \<Rightarrow> bool" where
  "BFCPMsgError_IsValid msg = (me_errorCode msg \<noteq> None)"

text \<open>The constructor that answers a message.\<close>

definition BFCPMsgError_reply :: "BFCPMessage \<Rightarrow> BFCPAttrErrorCode \<Rightarrow> byte list \<Rightarrow> BFCPMessage" where
  "BFCPMsgError_reply msg errorCode errorInfo =
     BFCPMessage_new (MsgError \<lparr>me_errorCode = Some errorCode, me_errorInfo = Some errorInfo\<rparr>)
       (m_transactionId msg) (m_conferenceId msg) (m_userId msg)"

definition BFCPMsgError_SerializeAttributes :: "BFCPMsgError \<Rightarrow> nat \<Rightarrow> byte list option" where
  "BFCPMsgError_SerializeAttributes msg mx =
    (case me_errorCode msg of
       None \<Rightarrow> None
     | Some code \<Rightarrow>
         do {
           out \<leftarrow> BFCPAttrErrorCode_Serialize code mx True;
           append_opt (\<lambda>i k. BFCPAttrErrorInfo_Serialize i k False) mx (me_errorInfo msg) out
         })"

definition BFCPMsgError_ParseAttribute :: "attr \<Rightarrow> BFCPMsgError \<Rightarrow> BFCPMsgError option" where
  "BFCPMsgError_ParseAttribute = (\<lambda>(type, mandatory, contents) msg.
     if type = name_code ErrorCode then
       (case BFCPAttrErrorCode_Parse contents of
          None \<Rightarrow> None
        | Some code \<Rightarrow> Some (msg\<lparr>me_errorCode := Some code\<rparr>))
     else if type = name_code ErrorInfo then Some (msg\<lparr>me_errorInfo := Some contents\<rparr>)
     else if mandatory then None
     else Some msg)"

section \<open>The base class\<close>

fun IsValid :: "BFCPBody \<Rightarrow> bool" where
  "IsValid (MsgFloorRequest msg) = BFCPMsgFloorRequest_IsValid msg"
| "IsValid (MsgFloorRelease msg) = BFCPMsgFloorRelease_IsValid msg"
| "IsValid (MsgFloorRequestStatus msg) = BFCPMsgFloorRequestStatus_IsValid msg"
| "IsValid (MsgError msg) = BFCPMsgError_IsValid msg"
| "IsValid (MsgFloorQuery _) = True"
| "IsValid (MsgFloorStatus _) = True"
| "IsValid MsgHello = True"
| "IsValid (MsgHelloAck _) = True"
| "IsValid (MsgOther _) = True"

fun SerializeAttributes :: "medkit \<Rightarrow> BFCPBody \<Rightarrow> nat \<Rightarrow> byte list option" where
  "SerializeAttributes io (MsgFloorRequest msg) mx = BFCPMsgFloorRequest_SerializeAttributes io msg mx"
| "SerializeAttributes io (MsgFloorRelease msg) mx = BFCPMsgFloorRelease_SerializeAttributes io msg mx"
| "SerializeAttributes io (MsgFloorQuery msg) mx = BFCPMsgFloorQuery_SerializeAttributes io msg mx"
| "SerializeAttributes io (MsgFloorRequestStatus msg) mx = BFCPMsgFloorRequestStatus_SerializeAttributes io msg mx"
| "SerializeAttributes io (MsgFloorStatus msg) mx = BFCPMsgFloorStatus_SerializeAttributes io msg mx"
| "SerializeAttributes io (MsgHelloAck msg) mx = BFCPMsgHelloAck_SerializeAttributes msg mx"
| "SerializeAttributes io (MsgError msg) mx = BFCPMsgError_SerializeAttributes msg mx"
| "SerializeAttributes io MsgHello mx = Some []"
| "SerializeAttributes io (MsgOther _) mx = Some []"

fun ParseAttributes :: "medkit \<Rightarrow> BFCPBody \<Rightarrow> byte list \<Rightarrow> BFCPBody option" where
  "ParseAttributes io (MsgFloorRequest msg) d =
     map_option MsgFloorRequest (walk (BFCPMsgFloorRequest_ParseAttribute io) (cursor d) msg)"
| "ParseAttributes io (MsgFloorRelease msg) d =
     map_option MsgFloorRelease (walk (BFCPMsgFloorRelease_ParseAttribute io) (cursor d) msg)"
| "ParseAttributes io (MsgFloorQuery msg) d =
     map_option MsgFloorQuery (walk (BFCPMsgFloorQuery_ParseAttribute io) (cursor d) msg)"
| "ParseAttributes io (MsgFloorRequestStatus msg) d =
     map_option MsgFloorRequestStatus (walk (BFCPMsgFloorRequestStatus_ParseAttribute io) (cursor d) msg)"
| "ParseAttributes io (MsgFloorStatus msg) d =
     map_option MsgFloorStatus (walk (BFCPMsgFloorStatus_ParseAttribute io) (cursor d) msg)"
| "ParseAttributes io (MsgHelloAck msg) d =
     map_option MsgHelloAck (walk BFCPMsgHelloAck_ParseAttribute (cursor d) msg)"
| "ParseAttributes io (MsgError msg) d =
     map_option MsgError (walk BFCPMsgError_ParseAttribute (cursor d) msg)"
| "ParseAttributes io MsgHello d = (if well_formed_attrs d then Some MsgHello else None)"
| "ParseAttributes io (MsgOther p) d = (if well_formed_attrs d then Some (MsgOther p) else None)"

definition BFCPMessage_Serialize :: "medkit \<Rightarrow> BFCPMessage \<Rightarrow> nat \<Rightarrow> int \<Rightarrow> byte list option" where
  "BFCPMessage_Serialize io msg mx version =
    (if mx < MsgHeaderLen then None
     else case SerializeAttributes io (m_body msg) (mx - MsgHeaderLen) of
       None \<Rightarrow> None
     | Some payload \<Rightarrow>
         if length payload mod 4 \<noteq> 0 then None
         else if length payload div 4 > 65535 then None
         else Some ([to_byte (push_bit 5 version OR (if m_responder msg then 16 else 0)),
                     to_byte (GetPrimitive msg)]
                    @ set2 io (int (length payload div 4)) @ set4 io (m_conferenceId msg)
                    @ set2 io (m_transactionId msg) @ set2 io (m_userId msg) @ payload))"

text \<open>The object \<open>Parse\<close> creates for a primitive code.\<close>

definition new_body :: "int \<Rightarrow> BFCPBody" where
  "new_body primitive =
    (if primitive = prim_code P_FloorRequest then MsgFloorRequest BFCPMsgFloorRequest_new
     else if primitive = prim_code P_FloorRelease then MsgFloorRelease None
     else if primitive = prim_code P_FloorQuery then MsgFloorQuery []
     else if primitive = prim_code P_FloorRequestStatus then MsgFloorRequestStatus None
     else if primitive = prim_code P_FloorStatus then MsgFloorStatus BFCPMsgFloorStatus_new
     else if primitive = prim_code P_Hello then MsgHello
     else if primitive = prim_code P_HelloAck then MsgHelloAck BFCPMsgHelloAck_new
     else if primitive = prim_code P_Error then MsgError BFCPMsgError_new
     else MsgOther primitive)"

definition BFCPMessage_Parse :: "medkit \<Rightarrow> byte list \<Rightarrow> BFCPMessage option" where
  "BFCPMessage_Parse io data =
    (let size = length data in
     if size < MsgHeaderLen then None
     else let version = drop_bit 5 (uint (data ! 0));
              responder = (uint (data ! 0) AND 16 \<noteq> 0);
              fragmented = (uint (data ! 0) AND 8 \<noteq> 0) in
       if version \<noteq> VersionReliable \<and> version \<noteq> VersionUnreliable then None
       else if fragmented then None
       else let payload = nat (get2 io data 2) * 4 in
         if MsgHeaderLen + payload > size then None
         else let primitive = uint (data ! 1);
                  conferenceId = to_int32 (get4 io data 4);
                  transactionId = get2 io data 8;
                  userId = get2 io data 10;
                  msg = (BFCPMessage_new (new_body primitive) transactionId conferenceId userId)
                          \<lparr>m_version := version, m_responder := responder\<rparr> in
           case ParseAttributes io (m_body msg) (take payload (drop MsgHeaderLen data)) of
             None \<Rightarrow> None
           | Some body \<Rightarrow> if IsValid body then Some (msg\<lparr>m_body := body\<rparr>) else None)"

section \<open>Round trip\<close>

text \<open>The values that fit the fields they are written to.\<close>

fun body_wf :: "BFCPBody \<Rightarrow> bool" where
  "body_wf (MsgFloorRequest m) =
     (list_all (\<lambda>v. wf16 v) (mfr_floorIds m) \<and> list_all (\<lambda>v. wf16 v) (opt_list (mfr_beneficiaryId m)))"
| "body_wf (MsgFloorRelease m) = list_all (\<lambda>v. wf16 v) (opt_list m)"
| "body_wf (MsgFloorQuery m) = list_all (\<lambda>v. wf16 v) m"
| "body_wf (MsgFloorRequestStatus m) = list_all fri_wf (opt_list m)"
| "body_wf (MsgFloorStatus m) =
     (list_all (\<lambda>v. wf16 v) (opt_list (mfs_floorId m)) \<and> list_all fri_wf (mfs_floorRequestInformations m))"
| "body_wf MsgHello = True"
| "body_wf (MsgHelloAck m) =
     (codes_wf 256 (mha_supportedPrimitives m) \<and> codes_wf 128 (mha_supportedAttributes m))"
| "body_wf (MsgError m) = list_all (\<lambda>v. 0 \<le> v \<and> v < 256) (opt_list (me_errorCode m))"
| "body_wf (MsgOther p) = (0 \<le> p \<and> p < 256 \<and> new_body p = MsgOther p)"

definition msg_wf :: "BFCPMessage \<Rightarrow> bool" where
  "msg_wf m \<longleftrightarrow> wf16 (m_transactionId m) \<and> wf16 (m_userId m)
     \<and> 0 \<le> m_conferenceId m \<and> m_conferenceId m < 2 ^ 31 \<and> body_wf (m_body m)"

lemma new_body_primitive: "body_wf b \<Longrightarrow> body_primitive (new_body (body_primitive b)) = body_primitive b"
  by (cases b) (simp_all add: new_body_def)

lemma append_attr_Some:
  assumes "append_attr ser mx out = Some out'"
  obtains w where "ser (mx - length out) = Some w" "out' = out @ w"
  using assms by (cases "ser (mx - length out)") (simp_all add: append_attr_def)

text \<open>
  \<open>serializes b bs\<close>: the octets \<open>bs\<close> are attributes from which the parser of the class of \<open>b\<close>
  rebuilds \<open>b\<close>.
\<close>

definition serializes :: "medkit \<Rightarrow> BFCPBody \<Rightarrow> byte list \<Rightarrow> bool" where
  "serializes io b bs \<longleftrightarrow> 4 dvd length bs \<and> ParseAttributes io (new_body (body_primitive b)) bs = Some b"

lemma serializesI:
  assumes "encodes bs as"
    and "\<And>d. attrs_of d = Some as \<Longrightarrow> ParseAttributes io (new_body (body_primitive b)) d = Some b"
  shows "serializes io b bs"
  using assms(1) assms(2) [OF encodes_attrs_of [OF assms(1)]] by (simp add: serializes_def encodes_def)

lemma well_formed_attrs_of: "attrs_of d = Some as \<Longrightarrow> well_formed_attrs d"
proof -
  have "foldM (\<lambda>_ s. Some s) as u = Some u" for u :: unit
    by (induction as) simp_all
  then show "attrs_of d = Some as \<Longrightarrow> well_formed_attrs d"
    by (simp add: well_formed_attrs_def walk_cursor)
qed

context medkit_octets
begin

lemma floorRequest_serializes:
  assumes wf: "body_wf (MsgFloorRequest msg)"
    and s: "BFCPMsgFloorRequest_SerializeAttributes io msg mx = Some bs"
  shows "serializes io (MsgFloorRequest msg) bs"
proof -
  let ?fs = "mfr_floorIds msg" and ?bs = "opt_list (mfr_beneficiaryId msg)"
    and ?ps = "opt_list (mfr_participantProvidedInfo msg)"
  let ?as = "map (\<lambda>x. attr_of FloorId True (Some (set2 io x))) ?fs
    @ map (\<lambda>x. attr_of BeneficiaryId False (Some (set2 io x))) ?bs
    @ map (\<lambda>x. attr_of ParticipantProvidedInfo False (Some x)) ?ps"
  let ?f = "BFCPMsgFloorRequest_ParseAttribute io"
  from s obtain out1 out2 where
    "append_all (\<lambda>f k. BFCPAttrFloorId_Serialize io f k True) mx ?fs [] = Some out1"
    "append_all (\<lambda>b k. BFCPAttrBeneficiaryId_Serialize io b k False) mx ?bs out1 = Some out2"
    "append_all (\<lambda>p k. BFCPAttrParticipantProvidedInfo_Serialize p k False) mx ?ps out2 = Some bs"
    unfolding BFCPMsgFloorRequest_SerializeAttributes_def append_opt_all bind_eq_Some_conv by blast
  from floorId.append_all_encodes [OF this(1)] beneficiaryId.append_all_encodes [OF this(2)]
    participantInfo.append_all_encodes [OF this(3)]
  have enc: "encodes bs ?as"
    by (elim exE conjE) (auto intro!: encodes_append)
  have "foldM ?f (map (\<lambda>x. attr_of FloorId True (Some (set2 io x))) ?fs) m
      = Some (fold FloorRequest_AddFloorId ?fs m)" for m
    using wf by (intro floorId.foldM_parse)
      (simp_all add: attr_of_def BFCPMsgFloorRequest_ParseAttribute_def BFCPAttrFloorId_Parse_def list_all_iff)
  moreover have "foldM ?f (map (\<lambda>x. attr_of BeneficiaryId False (Some (set2 io x))) ?bs) m
      = Some (fold (\<lambda>b m. m\<lparr>mfr_beneficiaryId := Some b\<rparr>) ?bs m)" for m
    using wf by (intro beneficiaryId.foldM_parse)
      (simp_all add: attr_of_def BFCPMsgFloorRequest_ParseAttribute_def BFCPAttrBeneficiaryId_Parse_def list_all_iff)
  moreover have "foldM ?f (map (\<lambda>x. attr_of ParticipantProvidedInfo False (Some x)) ?ps) m
      = Some (fold (\<lambda>p m. m\<lparr>mfr_participantProvidedInfo := Some p\<rparr>) ?ps m)" for m
    by (cases "mfr_participantProvidedInfo msg")
      (simp_all add: attr_of_def BFCPMsgFloorRequest_ParseAttribute_def)
  moreover have "fold FloorRequest_AddFloorId fs m = m\<lparr>mfr_floorIds := mfr_floorIds m @ fs\<rparr>" for fs m
    by (induction fs arbitrary: m) (simp_all add: FloorRequest_AddFloorId_def)
  ultimately have "foldM ?f ?as BFCPMsgFloorRequest_new = Some msg"
    by (simp add: BFCPMsgFloorRequest_new_def split: option.split)
  then show ?thesis
    by (intro serializesI [OF enc]) (simp add: walk_cursor new_body_def)
qed

lemma floorRelease_serializes:
  assumes wf: "body_wf (MsgFloorRelease msg)"
    and s: "BFCPMsgFloorRelease_SerializeAttributes io msg mx = Some bs"
  shows "serializes io (MsgFloorRelease msg) bs"
proof -
  from s obtain i where i: "msg = Some i" "BFCPAttrFloorRequestId_Serialize io i mx True = Some bs"
    by (auto simp: BFCPMsgFloorRelease_SerializeAttributes_def split: option.splits)
  show ?thesis
    using wf by (intro serializesI [OF floorRequestId.serialize_encodes(2) [OF i(2)]])
      (simp add: walk_cursor new_body_def attr_of_def BFCPMsgFloorRelease_ParseAttribute_def ReadWord_set2' i)
qed

lemma floorQuery_serializes:
  assumes wf: "body_wf (MsgFloorQuery msg)"
    and s: "BFCPMsgFloorQuery_SerializeAttributes io msg mx = Some bs"
  shows "serializes io (MsgFloorQuery msg) bs"
proof -
  let ?as = "map (\<lambda>x. attr_of FloorId False (Some (set2 io x))) msg"
  from s have enc: "encodes bs ?as"
    by (auto simp: BFCPMsgFloorQuery_SerializeAttributes_def dest!: floorId.append_all_encodes)
  have "foldM (BFCPMsgFloorQuery_ParseAttribute io) ?as m = Some (fold (\<lambda>f m. m @ [f]) msg m)" for m
    using wf by (intro floorId.foldM_parse)
      (simp_all add: attr_of_def BFCPMsgFloorQuery_ParseAttribute_def BFCPAttrFloorId_Parse_def list_all_iff)
  moreover have "fold (\<lambda>f m. m @ [f]) xs m = m @ xs" for xs m :: "int list"
    by (induction xs arbitrary: m) simp_all
  ultimately show ?thesis
    by (intro serializesI [OF enc]) (simp add: walk_cursor new_body_def)
qed

lemma floorRequestStatus_serializes:
  assumes wf: "body_wf (MsgFloorRequestStatus msg)"
    and s: "BFCPMsgFloorRequestStatus_SerializeAttributes io msg mx = Some bs"
  shows "serializes io (MsgFloorRequestStatus msg) bs"
proof -
  from s obtain i where i: "msg = Some i" "BFCPAttrFloorRequestInformation_Serialize io i mx True = Some bs"
    by (auto simp: BFCPMsgFloorRequestStatus_SerializeAttributes_def split: option.splits)
  from floorRequestInformation.serialize_encodes(1) [OF i(2)]
  obtain c where c: "BFCPAttrFloorRequestInformation_contents io i = Some c" by auto
  have "BFCPAttrFloorRequestInformation_Parse io c = Some i"
    using wf i(1) by (intro floorRequestInformation.parse_contents [OF _ c]) simp
  then show ?thesis
    by (intro serializesI [OF floorRequestInformation.serialize_encodes(2) [OF i(2)]])
      (simp add: walk_cursor new_body_def attr_of_def BFCPMsgFloorRequestStatus_ParseAttribute_def c i(1))
qed

lemma floorStatus_serializes:
  assumes wf: "body_wf (MsgFloorStatus msg)"
    and s: "BFCPMsgFloorStatus_SerializeAttributes io msg mx = Some bs"
  shows "serializes io (MsgFloorStatus msg) bs"
proof -
  let ?fs = "opt_list (mfs_floorId msg)" and ?is = "mfs_floorRequestInformations msg"
  let ?as = "map (\<lambda>x. attr_of FloorId False (Some (set2 io x))) ?fs
    @ map (\<lambda>x. attr_of FloorRequestInformation False (BFCPAttrFloorRequestInformation_contents io x)) ?is"
  let ?f = "BFCPMsgFloorStatus_ParseAttribute io"
  from s obtain out1 where
    "append_all (\<lambda>f k. BFCPAttrFloorId_Serialize io f k False) mx ?fs [] = Some out1"
    "append_all (\<lambda>i k. BFCPAttrFloorRequestInformation_Serialize io i k False) mx ?is out1 = Some bs"
    unfolding BFCPMsgFloorStatus_SerializeAttributes_def append_opt_all bind_eq_Some_conv by blast
  from floorId.append_all_encodes [OF this(1)] floorRequestInformation.append_all_encodes [OF this(2)]
  have enc: "encodes bs ?as" and ne: "\<forall>x \<in> set ?is. BFCPAttrFloorRequestInformation_contents io x \<noteq> None"
    by (auto intro!: encodes_append)
  have "foldM ?f (map (\<lambda>x. attr_of FloorId False (Some (set2 io x))) ?fs) m
      = Some (fold (\<lambda>f m. m\<lparr>mfs_floorId := Some f\<rparr>) ?fs m)" for m
    using wf by (intro floorId.foldM_parse)
      (simp_all add: attr_of_def BFCPMsgFloorStatus_ParseAttribute_def BFCPAttrFloorId_Parse_def list_all_iff)
  moreover have "foldM ?f (map (\<lambda>x. attr_of FloorRequestInformation False
      (BFCPAttrFloorRequestInformation_contents io x)) ?is) m
      = Some (fold AddFloorRequestInformation ?is m)" for m
    using wf ne by (intro floorRequestInformation.foldM_parse)
      (simp_all add: attr_of_def BFCPMsgFloorStatus_ParseAttribute_def list_all_iff)
  moreover have "fold AddFloorRequestInformation xs m
      = m\<lparr>mfs_floorRequestInformations := mfs_floorRequestInformations m @ xs\<rparr>" for xs m
    by (induction xs arbitrary: m) (simp_all add: AddFloorRequestInformation_def)
  ultimately have "foldM ?f ?as BFCPMsgFloorStatus_new = Some msg"
    by (simp add: BFCPMsgFloorStatus_new_def split: option.split)
  then show ?thesis
    by (intro serializesI [OF enc]) (simp add: walk_cursor new_body_def)
qed

lemma helloAck_serializes:
  assumes wf: "body_wf (MsgHelloAck msg)"
    and s: "BFCPMsgHelloAck_SerializeAttributes msg mx = Some bs"
  shows "serializes io (MsgHelloAck msg) bs"
proof -
  let ?ps = "mha_supportedPrimitives msg" and ?qs = "mha_supportedAttributes msg"
  from s obtain v where v: "BFCPAttrSupportedPrimitives_Serialize ?ps mx True = Some v"
    and "append_attr (\<lambda>k. BFCPAttrSupportedAttributes_Serialize ?qs k True) mx v = Some bs"
    by (auto simp: BFCPMsgHelloAck_SerializeAttributes_def bind_eq_Some_conv)
  from this(2) obtain w where "BFCPAttrSupportedAttributes_Serialize ?qs (mx - length v) True = Some w"
    and bs: "bs = v @ w"
    by (rule append_attr_Some)
  from encodes_append [OF supportedPrimitives.serialize_encodes(2) [OF v]
      supportedAttributes.serialize_encodes(2) [OF this(1)]]
  have enc: "encodes bs [attr_of SupportedPrimitives True (Some (SupportedPrimitives_contents ?ps)),
      attr_of SupportedAttributes True (Some (SupportedAttributes_contents ?qs))]"
    by (simp add: bs)
  have p: "fold (\<lambda>b. AddSupportedPrimitive (uint b)) c m = m\<lparr>mha_supportedPrimitives :=
      fold (\<lambda>b. SupportedPrimitives_Add (uint b)) c (mha_supportedPrimitives m)\<rparr>" for c m
    by (induction c arbitrary: m) (simp_all add: AddSupportedPrimitive_def)
  have q: "fold (\<lambda>b. AddSupportedAttribute (drop_bit 1 (uint b))) c m = m\<lparr>mha_supportedAttributes :=
      fold (\<lambda>b. SupportedAttributes_Add (drop_bit 1 (uint b))) c (mha_supportedAttributes m)\<rparr>" for c m
    by (induction c arbitrary: m) (simp_all add: AddSupportedAttribute_def)
  have "BFCPAttrSupportedPrimitives_Parse (SupportedPrimitives_contents ?ps) = ?ps"
    using supportedPrimitives.parse_contents [OF _ refl, of ?ps] wf by simp
  moreover have "BFCPAttrSupportedAttributes_Parse (SupportedAttributes_contents ?qs) = ?qs"
    using supportedAttributes.parse_contents [OF _ refl, of ?qs] wf by simp
  ultimately show ?thesis
    by (intro serializesI [OF enc])
      (simp add: walk_cursor new_body_def attr_of_def BFCPMsgHelloAck_ParseAttribute_def p q [simplified]
        BFCPMsgHelloAck_new_def BFCPAttrSupportedPrimitives_Parse_def BFCPAttrSupportedAttributes_Parse_def)
qed

lemma error_serializes:
  assumes wf: "body_wf (MsgError msg)"
    and s: "BFCPMsgError_SerializeAttributes msg mx = Some bs"
  shows "serializes io (MsgError msg) bs"
proof -
  let ?is = "opt_list (me_errorInfo msg)"
  from s obtain code out where code: "me_errorCode msg = Some code"
    and out: "BFCPAttrErrorCode_Serialize code mx True = Some out"
    and bs: "append_all (\<lambda>i k. BFCPAttrErrorInfo_Serialize i k False) mx ?is out = Some bs"
    unfolding BFCPMsgError_SerializeAttributes_def append_opt_all bind_eq_Some_conv
    by (cases "me_errorCode msg") (auto simp: bind_eq_Some_conv)
  from errorCode.serialize_encodes(2) [OF out] errorInfo.append_all_encodes [OF bs]
  have enc: "encodes bs ([attr_of ErrorCode True (Some [to_byte code])]
      @ map (\<lambda>x. attr_of ErrorInfo False (Some x)) ?is)"
    by (auto intro!: encodes_append simp del: append_Cons)
  have "BFCPAttrErrorCode_Parse [to_byte code] = Some code"
    using wf code by (intro errorCode.parse_contents) simp_all
  moreover have "\<lparr>me_errorCode = Some code, me_errorInfo = me_errorInfo msg\<rparr> = msg"
    using code by (cases msg) simp
  ultimately show ?thesis
    by (intro serializesI [OF enc], cases "me_errorInfo msg")
      (simp_all add: walk_cursor new_body_def attr_of_def BFCPMsgError_ParseAttribute_def BFCPMsgError_new_def)
qed

lemma body_serializes:
  assumes "body_wf b" "SerializeAttributes io b mx = Some bs"
  shows "serializes io b bs"
proof (cases b)
  case MsgHello
  then show ?thesis
    using assms by (simp add: serializes_def new_body_def)
next
  case (MsgOther p)
  then show ?thesis
    using assms by (simp add: serializes_def)
qed (use assms in \<open>simp_all add: floorRequest_serializes floorRelease_serializes floorQuery_serializes
  floorRequestStatus_serializes floorStatus_serializes helloAck_serializes error_serializes
  del: body_wf.simps\<close>)

text \<open>The header fields, at the offsets the parser reads them from.\<close>

lemma header_fields:
  fixes a b :: byte and rest :: "byte list"
  assumes "wf16 n" "wf16 t" "wf16 u" "0 \<le> c" "c < 2 ^ 31"
  defines "d \<equiv> [a, b] @ set2 io n @ set4 io c @ set2 io t @ set2 io u @ rest"
  shows "get2 io d 2 = n" "get4 io d 4 = c" "get2 io d 8 = t" "get2 io d 10 = u" "drop 12 d = rest"
    "length d = 12 + length rest"
proof -
  have at: "get2 io (xs @ ys) (length xs) = get2 io ys 0" for xs ys
    using get2_append_right [of io xs ys 0] by simp
  have at4: "get4 io (xs @ ys) (length xs) = get4 io ys 0" for xs ys
    by (simp add: get4_def nth_append numeral_eq_Suc)
  show "get2 io d 2 = n"
    using at [of "[a, b]"] assms by (simp add: d_def get2_set2 numeral_2_eq_2)
  show "get4 io d 4 = c"
    using at4 [of "[a, b] @ set2 io n"] assms by (simp add: d_def get4_set4)
  show "get2 io d 8 = t"
    using at [of "[a, b] @ set2 io n @ set4 io c"] assms by (simp add: d_def get2_set2)
  show "get2 io d 10 = u"
    using at [of "[a, b] @ set2 io n @ set4 io c @ set2 io t"] assms by (simp add: d_def get2_set2)
qed (simp_all add: d_def)

lemma version_octet:
  fixes r :: bool
  assumes "version = 1 \<or> version = 2"
  defines "h \<equiv> uint (to_byte (push_bit 5 version OR (if r then 16 else 0)))"
  shows "drop_bit 5 h = version" "(h AND 16 \<noteq> 0) = r" "h AND 8 = 0"
  using assms by (cases r; auto simp: uint_to_byte push_bit_eq_mult drop_bit_eq_div)+

lemma Parse_Serialize_lemma:
  assumes wf: "msg_wf msg" and valid: "IsValid (m_body msg)" and v: "version = 1 \<or> version = 2"
    and s: "BFCPMessage_Serialize io msg mx version = Some bs"
  shows "BFCPMessage_Parse io (bs @ rest) = Some (msg\<lparr>m_version := version\<rparr>)"
proof -
  let ?h = "to_byte (push_bit 5 version OR (if m_responder msg then 16 else 0))"
  from s obtain payload where "SerializeAttributes io (m_body msg) (mx - MsgHeaderLen) = Some payload"
    and "4 dvd length payload" and len: "length payload div 4 \<le> 65535"
    and bs: "bs = [?h, to_byte (GetPrimitive msg)] @ set2 io (int (length payload div 4))
        @ set4 io (m_conferenceId msg) @ set2 io (m_transactionId msg) @ set2 io (m_userId msg) @ payload"
    by (auto simp: BFCPMessage_Serialize_def dvd_eq_mod_eq_0 split: if_splits option.splits)
  from body_serializes [OF _ this(1)] wf
  have p: "ParseAttributes io (new_body (GetPrimitive msg)) payload = Some (m_body msg)"
    by (simp add: serializes_def msg_wf_def GetPrimitive_def)
  have prim: "uint (to_byte (GetPrimitive msg)) = GetPrimitive msg"
    using wf by (cases "m_body msg") (auto simp: msg_wf_def GetPrimitive_def uint_to_byte)
  have n: "nat (int (length payload div 4)) * 4 = length payload"
    using \<open>4 dvd length payload\<close> by simp
  define d where "d = bs @ rest"
  have d: "d = [?h, to_byte (GetPrimitive msg)] @ set2 io (int (length payload div 4))
        @ set4 io (m_conferenceId msg) @ set2 io (m_transactionId msg) @ set2 io (m_userId msg) @ payload @ rest"
    by (simp add: bs d_def)
  have h: "d ! 0 = ?h" "d ! Suc 0 = to_byte (GetPrimitive msg)"
    by (simp_all add: d)
  have "wf16 (int (length payload div 4))" "wf16 (m_transactionId msg)" "wf16 (m_userId msg)"
    "0 \<le> m_conferenceId msg" "m_conferenceId msg < 2 ^ 31"
    using wf len by (simp_all add: msg_wf_def)
  note f = header_fields [OF this, of ?h "to_byte (GetPrimitive msg)" "payload @ rest", folded d]
  show ?thesis
    using valid wf version_octet [OF v, of "m_responder msg"] v unfolding d_def [symmetric]
    by (simp add: BFCPMessage_Parse_def Let_def h f prim n [simplified] p MsgHeaderLen_def VersionReliable_def
      VersionUnreliable_def BFCPMessage_new_def msg_wf_def to_int32_id)
qed

end

section \<open>Properties\<close>

text \<open>
  C3. Round trip: a valid message whose values fit their fields, once serialized for either
  version into any buffer, is parsed back to the same message, whatever octets follow it.
\<close>

theorem Parse_Serialize:
  assumes "medkit_octets io" and "msg_wf msg" and "IsValid (m_body msg)"
    and "version = VersionReliable \<or> version = VersionUnreliable"
    and "BFCPMessage_Serialize io msg mx version = Some bs"
  shows "BFCPMessage_Parse io (bs @ rest) = Some (msg\<lparr>m_version := version\<rparr>)"
  using assms by (intro medkit_octets.Parse_Serialize_lemma)
    (simp_all add: VersionReliable_def VersionUnreliable_def)

definition sample_request :: BFCPMessage where
  "sample_request = BFCPMessage_new
     (MsgFloorRequest \<lparr>mfr_floorIds = [3, 700], mfr_beneficiaryId = Some 12,
        mfr_participantProvidedInfo = Some (str ''slides'')\<rparr>) 258 77 12"

definition sample_octets :: "byte list" where
  "sample_octets = [64, 1, 0, 5, 0, 0, 0, 77, 1, 2, 0, 12, 5, 4, 0, 3, 5, 4, 2, 188, 2, 4, 0, 12,
     16, 8, 115, 108, 105, 100, 101, 115]"

lemmas serialize_eval = BFCPMessage_Serialize_def BFCPMessage_new_def MsgHeaderLen_def
  BFCPMsgFloorRequest_SerializeAttributes_def append_attr_def append_opt_def
  BFCPAttrFloorId_Serialize_def BFCPAttrBeneficiaryId_Serialize_def
  BFCPAttrParticipantProvidedInfo_Serialize_def BFCPAttribute_Write_def HeaderLen_def MaxLength_def
  Padded_div to_byte_def net_set2 net_set4 GetPrimitive_def str_def Let_def

lemma sample_Serialize: "BFCPMessage_Serialize network_order sample_request 40 2 = Some sample_octets"
  by (simp add: sample_request_def sample_octets_def serialize_eval)

lemma sample_wf: "msg_wf sample_request" "IsValid (m_body sample_request)"
  by (simp_all add: sample_request_def msg_wf_def BFCPMessage_new_def BFCPMsgFloorRequest_IsValid_def)

lemma sample_Parse:
  "BFCPMessage_Parse network_order (sample_octets @ rest) = Some (sample_request\<lparr>m_version := 2\<rparr>)"
  using net.Parse_Serialize_lemma [OF sample_wf _ sample_Serialize] by simp

theorem Parse_Serialize_witness:
  "BFCPMessage_Parse network_order (sample_octets @ [1, 2, 3]) = Some (sample_request\<lparr>m_version := 2\<rparr>)"
  using Parse_Serialize [OF net.medkit_octets_axioms sample_wf _ sample_Serialize]
  by (simp add: VersionUnreliable_def)

lemma new_body_code: "body_primitive (new_body p) = p"
  by (simp add: new_body_def)

lemma ParseAttributes_primitive: "ParseAttributes io b d = Some b' \<Longrightarrow> body_primitive b' = body_primitive b"
  by (cases b) (auto split: if_splits)

lemma Parse_Some:
  assumes "BFCPMessage_Parse io d = Some msg"
  obtains body where "MsgHeaderLen + nat (get2 io d 2) * 4 \<le> length d"
    and "ParseAttributes io (new_body (uint (d ! 1)))
      (take (nat (get2 io d 2) * 4) (drop MsgHeaderLen d)) = Some body"
    and "IsValid body" and "uint (d ! 0) AND 8 = 0"
    and "drop_bit 5 (uint (d ! 0)) = VersionReliable \<or> drop_bit 5 (uint (d ! 0)) = VersionUnreliable"
    and "msg = \<lparr>m_transactionId = get2 io d 8, m_conferenceId = to_int32 (get4 io d 4),
      m_userId = get2 io d 10, m_version = drop_bit 5 (uint (d ! 0)),
      m_responder = (uint (d ! 0) AND 16 \<noteq> 0), m_body = body\<rparr>"
  using assms by (auto simp: BFCPMessage_Parse_def BFCPMessage_new_def Let_def not_less split: if_splits option.splits)

text \<open>
  C18. What \<open>Parse\<close> accepts: the octets hold a whole header and the whole payload it announces,
  the version is one of the two, the F bit is clear, and the message that comes out has the
  primitive of the header, 16-bit ids and the attributes its class requires. Octets that break
  any of these give \<open>NULL\<close>.
\<close>

theorem Parse_accepts:
  assumes "medkit_octets io" and "BFCPMessage_Parse io d = Some msg"
  shows "MsgHeaderLen + 4 * nat (get2 io d 2) \<le> length d \<and> uint (d ! 0) AND 8 = 0
    \<and> (m_version msg = VersionReliable \<or> m_version msg = VersionUnreliable)
    \<and> m_version msg = drop_bit 5 (uint (d ! 0)) \<and> GetPrimitive msg = uint (d ! 1)
    \<and> wf16 (m_transactionId msg) \<and> wf16 (m_userId msg) \<and> IsValid (m_body msg)"
  using assms(2)
proof (rule Parse_Some)
  fix body
  assume "ParseAttributes io (new_body (uint (d ! 1)))
      (take (nat (get2 io d 2) * 4) (drop MsgHeaderLen d)) = Some body"
  from ParseAttributes_primitive [OF this] have "body_primitive body = uint (d ! 1)"
    by (simp add: new_body_code)
  moreover assume "MsgHeaderLen + nat (get2 io d 2) * 4 \<le> length d"
  ultimately show ?thesis
    if "IsValid body" "uint (d ! 0) AND 8 = 0"
      "drop_bit 5 (uint (d ! 0)) = VersionReliable \<or> drop_bit 5 (uint (d ! 0)) = VersionUnreliable"
      "msg = \<lparr>m_transactionId = get2 io d 8, m_conferenceId = to_int32 (get4 io d 4),
        m_userId = get2 io d 10, m_version = drop_bit 5 (uint (d ! 0)),
        m_responder = (uint (d ! 0) AND 16 \<noteq> 0), m_body = body\<rparr>"
    using that medkit_octets.get2_bounds [OF assms(1)] by (simp add: GetPrimitive_def mult.commute)
qed

theorem Parse_accepts_witness: "GetPrimitive (sample_request\<lparr>m_version := 2\<rparr>) = uint (sample_octets ! 1)"
  using Parse_accepts [OF net.medkit_octets_axioms sample_Parse [of "[]"]] by simp

text \<open>
  Framing: \<open>Parse\<close> reads the length its header announces and nothing behind it, so the
  octets of the next message in the same buffer never change the result.
\<close>

theorem Parse_frame:
  assumes "BFCPMessage_Parse io d = Some msg"
  shows "BFCPMessage_Parse io (take (MsgHeaderLen + 4 * nat (get2 io d 2)) d @ rest) = Some msg"
  using assms
proof (rule Parse_Some)
  let ?n = "nat (get2 io d 2) * 4"
  define e where "e = take (MsgHeaderLen + 4 * nat (get2 io d 2)) d @ rest"
  assume len: "MsgHeaderLen + ?n \<le> length d"
  have nth: "e ! i = d ! i" if "i < 12" for i
    using that len by (simp add: e_def nth_append MsgHeaderLen_def)
  have get: "get2 io e 2 = get2 io d 2" "get4 io e 4 = get4 io d 4"
    "get2 io e 8 = get2 io d 8" "get2 io e 10 = get2 io d 10"
    by (simp_all add: get2_def get4_def nth)
  have pay: "take ?n (drop MsgHeaderLen e) = take ?n (drop MsgHeaderLen d)"
    and elen: "MsgHeaderLen + ?n \<le> length e"
    using len by (auto simp: e_def min_def mult.commute drop_take)
  have "\<not> length e < MsgHeaderLen" "\<not> length d < MsgHeaderLen"
    using len elen by simp_all
  then have "BFCPMessage_Parse io e = BFCPMessage_Parse io d"
    using len elen by (simp add: BFCPMessage_Parse_def Let_def nth get pay)
  with assms show ?thesis by (simp add: e_def)
qed

theorem Parse_frame_witness:
  "BFCPMessage_Parse network_order
     (take (12 + 4 * 5) sample_octets @ sample_octets) = Some (sample_request\<lparr>m_version := 2\<rparr>)"
  using Parse_frame [OF sample_Parse [of "[]"], of sample_octets]
  by (simp add: get2_def network_order_def sample_octets_def MsgHeaderLen_def)

text \<open>The attribute types each class with a parser of its own understands.\<close>

definition understood :: "int \<Rightarrow> int list" where
  "understood primitive =
    (if primitive = prim_code P_FloorRequest then
       map name_code [FloorId, BeneficiaryId, ParticipantProvidedInfo, Priority]
     else if primitive = prim_code P_FloorRelease then [name_code FloorRequestId]
     else if primitive = prim_code P_FloorQuery then [name_code FloorId]
     else if primitive = prim_code P_FloorRequestStatus then [name_code FloorRequestInformation]
     else if primitive = prim_code P_FloorStatus then map name_code [FloorId, FloorRequestInformation]
     else if primitive = prim_code P_HelloAck then map name_code [SupportedPrimitives, SupportedAttributes]
     else if primitive = prim_code P_Error then map name_code [ErrorCode, ErrorInfo]
     else [])"

lemma foldM_refuses:
  assumes "a \<in> set as" and "\<And>s. f a s = None"
  shows "foldM f as s = None"
  using assms by (induction as arbitrary: s) (auto split: option.splits)

lemma ParseAttributes_refuses:
  assumes "attrs_of d = Some as" and "(type, True, c) \<in> set as" and "type \<notin> set (understood p)"
    and "understood p \<noteq> []"
  shows "ParseAttributes io (new_body p) d = None"
proof -
  have "p \<in> {1, 2, 7, 4, 8, 12, 13}"
    using assms(4) by (auto simp: understood_def split: if_splits)
  moreover note parsers = BFCPMsgFloorRequest_ParseAttribute_def BFCPMsgFloorRelease_ParseAttribute_def
    BFCPMsgFloorQuery_ParseAttribute_def BFCPMsgFloorRequestStatus_ParseAttribute_def
    BFCPMsgFloorStatus_ParseAttribute_def BFCPMsgHelloAck_ParseAttribute_def BFCPMsgError_ParseAttribute_def
  ultimately show ?thesis
    using assms(3) by (auto simp: understood_def new_body_def walk_cursor assms(1) parsers
      intro!: foldM_refuses [OF assms(2)])
qed

text \<open>
  An attribute with the M bit set that the class of the message does not understand makes
  \<open>Parse\<close> refuse the message, wherever it stands. (Hello and the primitives without a class of
  their own keep no attribute and are only checked for well-formedness.)
\<close>

theorem Parse_unknown_mandatory:
  assumes "attrs_of (take (nat (get2 io d 2) * 4) (drop MsgHeaderLen d)) = Some as"
    and "(type, True, c) \<in> set as" and "type \<notin> set (understood (uint (d ! 1)))"
    and "understood (uint (d ! 1)) \<noteq> []"
  shows "BFCPMessage_Parse io d = None"
proof (rule ccontr)
  assume "BFCPMessage_Parse io d \<noteq> None"
  then obtain msg where "BFCPMessage_Parse io d = Some msg" by blast
  then show False
    by (rule Parse_Some) (use ParseAttributes_refuses [OF assms] in simp)
qed

lemma sample_attrs: "attrs_of [7, 4, 0, 1, 11, 4, 1, 0] = Some [(3, True, [0, 1]), (5, True, [1, 0])]"
  using attrs_of_Cons [of 4 "[0, 1]" "[]" 7 "[11, 4, 1, 0]"] attrs_of_Cons [of 4 "[1, 0]" "[]" 11 "[]"]
  by (simp add: Padded_div)

theorem Parse_unknown_mandatory_witness:
  "BFCPMessage_Parse network_order [32, 2, 0, 2, 0, 0, 0, 1, 0, 1, 0, 1, 7, 4, 0, 1, 11, 4, 1, 0] = None"
proof (rule Parse_unknown_mandatory [where type = 5 and c = "[1, 0]"])
  let ?d = "[32, 2, 0, 2, 0, 0, 0, 1, 0, 1, 0, 1, 7, 4, 0, 1, 11, 4, 1, 0] :: byte list"
  show "attrs_of (take (nat (get2 network_order ?d 2) * 4) (drop MsgHeaderLen ?d))
      = Some [(3, True, [0, 1]), (5, True, [1, 0])]"
    by (simp add: get2_def network_order_def MsgHeaderLen_def sample_attrs)
qed (simp_all add: understood_def)

lemma append_all_le:
  assumes "append_all ser mx xs out = Some out'" and "length out \<le> mx"
    and "\<And>x k w. ser x k = Some w \<Longrightarrow> length w \<le> k"
  shows "length out' \<le> mx"
  using assms(1) unfolding append_all_def
  by (rule foldM_inv) (use assms(2,3) in \<open>force simp: append_attr_def split: option.splits\<close>)+

lemma append_opt_le:
  assumes "append_opt ser mx a out = Some out'" and "length out \<le> mx"
    and "\<And>x k w. ser x k = Some w \<Longrightarrow> length w \<le> k"
  shows "length out' \<le> mx"
  using append_all_le [OF assms(1) [unfolded append_opt_all] assms(2,3)] .

context medkit_octets
begin

lemma SerializeAttributes_le:
  assumes "SerializeAttributes io b mx = Some w"
  shows "length w \<le> mx"
proof (cases b)
  case (MsgFloorRequest m)
  with assms show ?thesis
    by (auto simp: BFCPMsgFloorRequest_SerializeAttributes_def bind_eq_Some_conv
      dest!: append_all_le append_opt_le floorId.serialize_le beneficiaryId.serialize_le participantInfo.serialize_le)
next
  case (MsgHelloAck m)
  with assms obtain v where "BFCPAttrSupportedPrimitives_Serialize (mha_supportedPrimitives m) mx True = Some v"
    and "append_attr (\<lambda>k. BFCPAttrSupportedAttributes_Serialize (mha_supportedAttributes m) k True) mx v = Some w"
    by (auto simp: BFCPMsgHelloAck_SerializeAttributes_def bind_eq_Some_conv)
  from this(2) this(1) show ?thesis
    by (elim append_attr_Some) (auto dest!: supportedPrimitives.serialize_le supportedAttributes.serialize_le)
qed (use assms in \<open>auto simp: BFCPMsgFloorRelease_SerializeAttributes_def
    BFCPMsgFloorQuery_SerializeAttributes_def BFCPMsgFloorRequestStatus_SerializeAttributes_def
    BFCPMsgFloorStatus_SerializeAttributes_def BFCPMsgError_SerializeAttributes_def
    bind_eq_Some_conv split: option.splits
    dest!: append_all_le append_opt_le floorRequestId.serialize_le floorId.serialize_le
      floorRequestInformation.serialize_le errorCode.serialize_le errorInfo.serialize_le\<close>)

end

lemma Serialize_length:
  assumes "medkit_octets io" and "BFCPMessage_Serialize io msg mx version = Some bs"
  shows "length bs \<le> mx \<and> int (length bs) = int MsgHeaderLen + 4 * get2 io bs 2"
proof -
  from assms(2) obtain h payload where "MsgHeaderLen \<le> mx"
    and p: "SerializeAttributes io (m_body msg) (mx - MsgHeaderLen) = Some payload"
    and "4 dvd length payload" and len: "length payload div 4 \<le> 65535"
    and bs: "bs = [h, to_byte (GetPrimitive msg)] @ set2 io (int (length payload div 4))
        @ set4 io (m_conferenceId msg) @ set2 io (m_transactionId msg) @ set2 io (m_userId msg) @ payload"
    by (auto simp: BFCPMessage_Serialize_def dvd_eq_mod_eq_0 split: if_splits option.splits)
  have "get2 io bs 2 = int (length payload div 4)"
    using get2_append_right [of io "[h, to_byte (GetPrimitive msg)]" _ 0] len
      medkit_octets.get2_set2 [OF assms(1), of "int (length payload div 4)"]
    by (simp add: bs numeral_2_eq_2)
  moreover have "int (length payload) = 4 * int (length payload div 4)"
    using \<open>4 dvd length payload\<close> by presburger
  ultimately show ?thesis
    using medkit_octets.SerializeAttributes_le [OF assms(1) p] \<open>MsgHeaderLen \<le> mx\<close>
    by (simp add: bs MsgHeaderLen_def)
qed

text \<open>
  The size of what \<open>Serialize\<close> writes: never more than the buffer, a header and a whole
  number of 32-bit words, and the length field announces exactly the words that follow.
\<close>

theorem Serialize_size:
  assumes "medkit_octets io" and "BFCPMessage_Serialize io msg mx version = Some bs"
  shows "length bs \<le> mx \<and> int (length bs) = int MsgHeaderLen + 4 * get2 io bs 2"
  using assms by (rule Serialize_length)

theorem Serialize_size_witness: "length sample_octets \<le> 40 \<and> int (length sample_octets) = 12 + 4 * 5"
  using Serialize_size [OF net.medkit_octets_axioms sample_Serialize]
  by (simp add: get2_def network_order_def sample_octets_def MsgHeaderLen_def)

text \<open>
  Attributes written one after the other into a buffer, of any types and with any contents
  of at most 253 octets, are exactly what a cursor over that buffer shows, in the same order,
  with the M bits and without the padding.
\<close>

theorem cursor_reads_writes:
  assumes "append_all (\<lambda>(type, mandatory, contents) k. BFCPAttribute_Write k type mandatory contents) mx as []
      = Some bs"
  shows "walk (\<lambda>a seen. Some (seen @ [a])) (cursor bs) []
      = Some (map (\<lambda>(type, mandatory, contents). (name_code type, mandatory, contents)) as)"
proof -
  let ?ser = "\<lambda>(type, mandatory, contents) k. BFCPAttribute_Write k type mandatory contents"
  let ?show = "\<lambda>(type, mandatory, contents :: byte list). (name_code type, mandatory :: bool, contents)"
  have "append_all ?ser mx as out = Some bs \<Longrightarrow> \<exists>w. bs = out @ w \<and> encodes w (map ?show as)" for out
  proof (induction as arbitrary: out)
    case (Cons a as)
    from Cons.prems obtain v where v: "?ser a (mx - length out) = Some v"
      and bs: "append_all ?ser mx as (out @ v) = Some bs"
      by (auto simp: append_attr_def bind_eq_Some_conv split: option.splits)
    from Cons.IH [OF bs] obtain w where w: "bs = (out @ v) @ w" "encodes w (map ?show as)" by blast
    from v have "encodes v [?show a]" by (cases a) (simp add: encodes_Write)
    from encodes_append [OF this w(2)] w(1) show ?case by (intro exI [of _ "v @ w"]) simp
  qed simp
  from this [OF assms] have "attrs_of bs = Some (map ?show as)"
    by (auto dest: encodes_attrs_of)
  moreover have "foldM (\<lambda>a seen. Some (seen @ [a])) xs ys = Some (ys @ xs)" for xs ys :: "attr list"
    by (induction xs arbitrary: ys) simp_all
  ultimately show ?thesis by (simp add: walk_cursor)
qed

theorem cursor_reads_writes_witness:
  "walk (\<lambda>a seen. Some (seen @ [a])) (cursor [5, 4, 0, 3, 14, 5, 104, 105, 33, 0, 0, 0]) []
     = Some [(2, True, [0, 3]), (7, False, [104, 105, 33])]"
proof -
  have "replicate 3 (0 :: byte) = [0, 0, 0]"
    by (simp add: numeral_3_eq_3)
  then show ?thesis
    using cursor_reads_writes [of 12 "[(FloorId, True, [0, 3]), (ErrorInfo, False, [104, 105, 33])]"
        "[5, 4, 0, 3, 14, 5, 104, 105, 33, 0, 0, 0]"]
    by (simp add: append_attr_def BFCPAttribute_Write_def HeaderLen_def MaxLength_def Padded_div to_byte_def)
qed

end
