(* ===== verification/BfcpServer.thy ===== *)
theory BfcpServer
  imports BfcpMessage
begin

text \<open>
  The floor control server of one conference (\<open>mcu/src/bfcp/BFCPFloorControlServer.cpp\<close>) with its
  users (\<open>BFCPUser.cpp\<close>) and floor requests (\<open>BFCPFloorRequest.cpp\<close>).

  The server is a record with the fields of the class. A \<open>BFCPTransport*\<close> is a number, \<open>NULL\<close> is
  \<open>None\<close>; the virtual methods of the interface \<open>BFCPTransport\<close> are the record \<open>transports\<close>. A
  \<open>BFCPUser*\<close> or \<open>BFCPFloorRequest*\<close> that points into one of the maps is the key of its entry.
  Three fields stand for effects: \<open>s_sent\<close> is the sequence of calls made on transports,
  \<open>s_pending\<close> the local vector \<open>pending\<close> of the operation under way, \<open>s_notified\<close> the
  notifications handed to \<open>Fire\<close>, in the order in which the operations queued them.

  Every public operation holds the lock of the server from its first to its last access to the
  state, so an operation is one step. \<open>Fire\<close> runs once the lock is released: the order of
  \<open>s_notified\<close> is the one the listener sees when no second operation overtakes it.

  The result of \<open>BFCPTransport::Send\<close> is dropped by every caller but \<open>NotifyFloorStatus\<close>: a
  message the transport refuses is in \<open>s_sent\<close> too.
\<close>

section \<open>Transports, listener, users and requests\<close>

record transports =
  tr_IsReliable :: "tid \<Rightarrow> bool"
  tr_Send :: "tid \<Rightarrow> BFCPMessage \<Rightarrow> bool"

datatype effect = SentTo tid BFCPMessage | Closed tid

datatype notification =
    onFloorRequest int int int "int list"
  | onFloorGranted int int "int list"
  | onFloorReleased int int "int list"
  | onUserConnected int

record BFCPUser =
  u_userId :: int
  u_conferenceId :: int
  u_isChair :: bool
  u_transport :: "tid option"
  u_queriedFloorIds :: "int list"

definition BFCPUser_new :: "int \<Rightarrow> int \<Rightarrow> BFCPUser" where
  "BFCPUser_new userId conferenceId =
     \<lparr>u_userId = userId, u_conferenceId = conferenceId, u_isChair = False, u_transport = None,
      u_queriedFloorIds = []\<rparr>"

definition IsConnected :: "BFCPUser \<Rightarrow> bool" where
  "IsConnected user = (u_transport user \<noteq> None)"

definition IsReliable :: "transports \<Rightarrow> BFCPUser \<Rightarrow> bool" where
  "IsReliable tr user = (case u_transport user of None \<Rightarrow> True | Some t \<Rightarrow> tr_IsReliable tr t)"

definition HasQueriedFloorId :: "BFCPUser \<Rightarrow> int \<Rightarrow> bool" where
  "HasQueriedFloorId user floorId = List.member (u_queriedFloorIds user) floorId"

definition AddQueriedFloorId :: "int \<Rightarrow> BFCPUser \<Rightarrow> BFCPUser" where
  "AddQueriedFloorId floorId user =
    (if HasQueriedFloorId user floorId then user
     else user\<lparr>u_queriedFloorIds := u_queriedFloorIds user @ [floorId]\<rparr>)"

definition ResetQueriedFloorIds :: "BFCPUser \<Rightarrow> BFCPUser" where
  "ResetQueriedFloorIds user = user\<lparr>u_queriedFloorIds := []\<rparr>"

record BFCPFloorRequest =
  q_floorRequestId :: int
  q_userId :: int
  q_conferenceId :: int
  q_beneficiaryId :: int
  q_floorIds :: "int list"
  q_status :: Status
  q_queuePosition :: int

definition BFCPFloorRequest_new :: "int \<Rightarrow> int \<Rightarrow> int \<Rightarrow> BFCPFloorRequest" where
  "BFCPFloorRequest_new floorRequestId userId conferenceId =
     \<lparr>q_floorRequestId = floorRequestId, q_userId = userId, q_conferenceId = conferenceId,
      q_beneficiaryId = userId, q_floorIds = [], q_status = Pending, q_queuePosition = 0\<rparr>"

definition AddFloorId :: "int \<Rightarrow> BFCPFloorRequest \<Rightarrow> BFCPFloorRequest" where
  "AddFloorId floorId r = r\<lparr>q_floorIds := os_insert floorId (q_floorIds r)\<rparr>"

definition HasFloorId :: "BFCPFloorRequest \<Rightarrow> int \<Rightarrow> bool" where
  "HasFloorId r floorId = List.member (q_floorIds r) floorId"

definition IsGranted :: "BFCPFloorRequest \<Rightarrow> bool" where
  "IsGranted r = (q_status r = Granted)"

definition CanBeGranted :: "BFCPFloorRequest \<Rightarrow> bool" where
  "CanBeGranted r = (q_status r = Pending \<or> q_status r = Accepted)"

definition CanBeDenied :: "BFCPFloorRequest \<Rightarrow> bool" where
  "CanBeDenied r = CanBeGranted r"

definition CanBeCancelled :: "BFCPFloorRequest \<Rightarrow> bool" where
  "CanBeCancelled r = CanBeGranted r"

definition CreateFloorRequestInformation :: "BFCPFloorRequest \<Rightarrow> BFCPAttrFloorRequestInformation" where
  "CreateFloorRequestInformation r =
    (let info = BFCPAttrFloorRequestInformation_new (q_floorRequestId r);
         st = \<lparr>rs_status = q_status r, rs_queuePosition = q_queuePosition r\<rparr>;
         info = fold (\<lambda>f. AddFloorRequestStatus
                   ((BFCPAttrFloorRequestStatus_new f)\<lparr>frs_requestStatus := Some st\<rparr>)) (q_floorIds r) info;
         overall = (BFCPAttrOverallRequestStatus_new (q_floorRequestId r))\<lparr>ors_requestStatus := Some st\<rparr>
     in info\<lparr>fri_overallRequestStatus := Some overall,
             fri_beneficiaryInformation := Some (q_beneficiaryId r),
             fri_requestedByInformation := Some (q_userId r)\<rparr>)"

definition CreateFloorRequestStatus :: "BFCPFloorRequest \<Rightarrow> int \<Rightarrow> BFCPMessage" where
  "CreateFloorRequestStatus r transactionId =
     BFCPMessage_new (MsgFloorRequestStatus (Some (CreateFloorRequestInformation r)))
       transactionId (q_conferenceId r) (q_userId r)"

section \<open>The server\<close>

record server =
  s_conferenceId :: int
  s_users :: "BFCPUser omap"
  s_floors :: "int list"
  s_floorRequests :: "BFCPFloorRequest omap"
  s_floorRequestCounter :: int
  s_transactionCounter :: int
  s_ending :: bool
  s_sent :: "effect list"
  s_pending :: "notification list"
  s_notified :: "notification list"

definition BFCPFloorControlServer_new :: "int \<Rightarrow> server" where
  "BFCPFloorControlServer_new conferenceId =
     \<lparr>s_conferenceId = conferenceId, s_users = [], s_floors = [], s_floorRequests = [],
      s_floorRequestCounter = 1, s_transactionCounter = 0, s_ending = False,
      s_sent = [], s_pending = [], s_notified = []\<rparr>"

definition Fire :: "server \<Rightarrow> server" where
  "Fire s = s\<lparr>s_notified := s_notified s @ s_pending s, s_pending := []\<rparr>"

definition push_back :: "notification \<Rightarrow> server \<Rightarrow> server" where
  "push_back n s = s\<lparr>s_pending := s_pending s @ [n]\<rparr>"

definition emit :: "effect \<Rightarrow> server \<Rightarrow> server" where
  "emit e s = s\<lparr>s_sent := s_sent s @ [e]\<rparr>"

definition SendMessage :: "transports \<Rightarrow> BFCPUser \<Rightarrow> BFCPMessage \<Rightarrow> server \<Rightarrow> bool \<times> server" where
  "SendMessage tr user msg s =
    (case u_transport user of
       None \<Rightarrow> (False, s)
     | Some t \<Rightarrow> (tr_Send tr t msg, emit (SentTo t msg) s))"

definition set_user :: "int \<Rightarrow> BFCPUser \<Rightarrow> server \<Rightarrow> server" where
  "set_user userId user s = s\<lparr>s_users := om_put userId user (s_users s)\<rparr>"

definition set_request :: "int \<Rightarrow> BFCPFloorRequest \<Rightarrow> server \<Rightarrow> server" where
  "set_request floorRequestId r s = s\<lparr>s_floorRequests := om_put floorRequestId r (s_floorRequests s)\<rparr>"

definition erase_request :: "int \<Rightarrow> server \<Rightarrow> server" where
  "erase_request floorRequestId s = s\<lparr>s_floorRequests := om_erase floorRequestId (s_floorRequests s)\<rparr>"

text \<open>\<open>BFCPUser::CloseTransport\<close>, on the user the map holds.\<close>

definition CloseTransport :: "int \<Rightarrow> BFCPUser \<Rightarrow> server \<Rightarrow> server" where
  "CloseTransport userId user s =
    (let s = (case u_transport user of None \<Rightarrow> s | Some t \<Rightarrow> emit (Closed t) s)
     in set_user userId (user\<lparr>u_transport := None\<rparr>) s)"

definition GetUserLocked :: "int \<Rightarrow> server \<Rightarrow> BFCPUser option" where
  "GetUserLocked userId s = om_find userId (s_users s)"

definition GetFloorRequestLocked :: "int \<Rightarrow> server \<Rightarrow> BFCPFloorRequest option" where
  "GetFloorRequestLocked floorRequestId s = om_find floorRequestId (s_floorRequests s)"

definition GetFloorRequestsForFloorLocked :: "int \<Rightarrow> server \<Rightarrow> BFCPFloorRequest list" where
  "GetFloorRequestsForFloorLocked floorId s =
     filter (\<lambda>r. HasFloorId r floorId) (map snd (s_floorRequests s))"

text \<open>The pointers of \<open>GetFloorRequestsForFloorsLocked\<close>, as keys of the map.\<close>

definition GetFloorRequestsForFloorsLocked :: "int list \<Rightarrow> server \<Rightarrow> int list" where
  "GetFloorRequestsForFloorsLocked floorIds s =
     map fst (filter (\<lambda>(_, r). list_ex (HasFloorId r) floorIds) (s_floorRequests s))"

definition HasFloorLocked :: "int \<Rightarrow> server \<Rightarrow> bool" where
  "HasFloorLocked floorId s = List.member (s_floors s) floorId"

definition NextTransactionIdLocked :: "server \<Rightarrow> int \<times> server" where
  "NextTransactionIdLocked s =
    (let c = (s_transactionCounter s mod 65535) + 1 in (c, s\<lparr>s_transactionCounter := c\<rparr>))"

definition NotificationTransactionIdLocked :: "transports \<Rightarrow> BFCPUser option \<Rightarrow> server \<Rightarrow> int \<times> server" where
  "NotificationTransactionIdLocked tr user s =
    (case user of
       None \<Rightarrow> (0, s)
     | Some u \<Rightarrow> if \<not> IsReliable tr u then NextTransactionIdLocked s else (0, s))"

definition BuildFloorStatusLocked :: "int \<Rightarrow> int \<Rightarrow> int \<Rightarrow> server \<Rightarrow> BFCPMessage" where
  "BuildFloorStatusLocked floorId transactionId userId s =
    (let body = BFCPMsgFloorStatus_new\<lparr>mfs_floorId := Some floorId\<rparr>;
         body = fold (\<lambda>r. AddFloorRequestInformation (CreateFloorRequestInformation r))
                  (GetFloorRequestsForFloorLocked floorId s) body
     in BFCPMessage_new (MsgFloorStatus body) transactionId (s_conferenceId s) userId)"

text \<open>\<open>user->SendMessage(*BuildFloorStatusLocked(f, NotificationTransactionIdLocked(user), id))\<close>.\<close>

definition notify_floor :: "transports \<Rightarrow> BFCPUser \<Rightarrow> int \<Rightarrow> server \<Rightarrow> bool \<times> server" where
  "notify_floor tr user floorId s =
    (case NotificationTransactionIdLocked tr (Some user) s of
       (transactionId, s) \<Rightarrow>
         SendMessage tr user (BuildFloorStatusLocked floorId transactionId (u_userId user) s) s)"

definition NotifyForFloorRequestLocked :: "transports \<Rightarrow> BFCPFloorRequest \<Rightarrow> server \<Rightarrow> server" where
  "NotifyForFloorRequestLocked tr r s =
     fold (\<lambda>(_, user). fold (\<lambda>f s. if \<not> HasQueriedFloorId user f then s else snd (notify_floor tr user f s))
                            (q_floorIds r))
          (s_users s) s"

definition SendMessageLocked :: "transports \<Rightarrow> BFCPMessage \<Rightarrow> server \<Rightarrow> server" where
  "SendMessageLocked tr msg s =
    (case GetUserLocked (m_userId msg) s of
       None \<Rightarrow> s
     | Some user \<Rightarrow> snd (SendMessage tr user msg s))"

definition SendFloorRequestStatusLocked ::
  "transports \<Rightarrow> BFCPFloorRequest \<Rightarrow> int \<Rightarrow> int \<Rightarrow> byte list \<Rightarrow> bool \<Rightarrow> server \<Rightarrow> server" where
  "SendFloorRequestStatusLocked tr r transactionId toUserId statusInfo isResponse s =
    (let msg = (CreateFloorRequestStatus r transactionId)\<lparr>m_userId := toUserId, m_responder := isResponse\<rparr>;
         msg = (if statusInfo = [] then msg
                else msg\<lparr>m_body := MsgFloorRequestStatus
                          (Some (SetDescription statusInfo (CreateFloorRequestInformation r)))\<rparr>)
     in SendMessageLocked tr msg s)"

definition ReplyErrorLocked :: "BFCPMessage \<Rightarrow> tid option \<Rightarrow> ErrorCodes \<Rightarrow> byte list \<Rightarrow> server \<Rightarrow> server" where
  "ReplyErrorLocked msg to errorCode errorInfo s =
    (case to of
       None \<Rightarrow> s
     | Some t \<Rightarrow>
         emit (SentTo t ((BFCPMsgError_reply msg (error_code errorCode) errorInfo)\<lparr>m_responder := True\<rparr>)) s)"

text \<open>
  \<open>SendFloorRequestStatusLocked(r, NotificationTransactionIdLocked(requester), r->GetUserId(), info, false)\<close>.
\<close>

definition notify_requester :: "transports \<Rightarrow> BFCPUser option \<Rightarrow> BFCPFloorRequest \<Rightarrow> byte list \<Rightarrow> server \<Rightarrow> server" where
  "notify_requester tr requester r statusInfo s =
    (case NotificationTransactionIdLocked tr requester s of
       (transactionId, s) \<Rightarrow> SendFloorRequestStatusLocked tr r transactionId (q_userId r) statusInfo False s)"

section \<open>Granting, denying and revoking\<close>

definition DenyFloorRequestLocked :: "transports \<Rightarrow> int \<Rightarrow> byte list \<Rightarrow> server \<Rightarrow> bool \<times> server" where
  "DenyFloorRequestLocked tr floorRequestId statusInfo s =
    (case GetFloorRequestLocked floorRequestId s of
       None \<Rightarrow> (False, s)
     | Some r \<Rightarrow>
         if \<not> CanBeDenied r then (False, s)
         else
           let r = r\<lparr>q_status := Denied\<rparr>;
               s = set_request floorRequestId r s;
               requester = GetUserLocked (q_userId r) s;
               s = notify_requester tr requester r statusInfo s;
               s = NotifyForFloorRequestLocked tr r s
           in (True, erase_request floorRequestId s))"

definition RevokeFloorRequestLocked :: "transports \<Rightarrow> int \<Rightarrow> byte list \<Rightarrow> server \<Rightarrow> bool \<times> server" where
  "RevokeFloorRequestLocked tr floorRequestId statusInfo s =
    (case GetFloorRequestLocked floorRequestId s of
       None \<Rightarrow> (False, s)
     | Some r \<Rightarrow>
         if \<not> IsGranted r then (False, s)
         else
           let r = r\<lparr>q_status := Revoked\<rparr>;
               s = set_request floorRequestId r s;
               requester = GetUserLocked (q_userId r) s;
               s = notify_requester tr requester r statusInfo s;
               s = NotifyForFloorRequestLocked tr r s;
               s = erase_request floorRequestId s
           in (True, if s_ending s then s
                     else push_back (onFloorReleased floorRequestId (q_beneficiaryId r) (q_floorIds r)) s))"

text \<open>
  The loop of \<open>GrantFloorRequestLocked\<close> over the requests that share a floor. An entry of \<open>others\<close>
  that has left the map would be a dangling pointer; \<open>others_valid\<close> in \<open>BfcpFloorControl\<close> shows
  that there is none.
\<close>

definition revoke_other :: "transports \<Rightarrow> int \<Rightarrow> int \<Rightarrow> server \<Rightarrow> server" where
  "revoke_other tr floorRequestId other s =
    (case GetFloorRequestLocked other s of
       None \<Rightarrow> s
     | Some r \<Rightarrow>
         if other \<noteq> floorRequestId \<and> IsGranted r
         then snd (RevokeFloorRequestLocked tr (q_floorRequestId r) (str ''granted to other user'') s)
         else s)"

definition GrantFloorRequestLocked :: "transports \<Rightarrow> int \<Rightarrow> server \<Rightarrow> bool \<times> server" where
  "GrantFloorRequestLocked tr floorRequestId s =
    (case GetFloorRequestLocked floorRequestId s of
       None \<Rightarrow> (False, s)
     | Some r \<Rightarrow>
         if \<not> CanBeGranted r then (False, s)
         else
           let others = GetFloorRequestsForFloorsLocked (q_floorIds r) s;
               s = fold (revoke_other tr floorRequestId) others s;
               requester = GetUserLocked (q_userId r) s;
               r = r\<lparr>q_status := Accepted\<rparr>;
               s = set_request floorRequestId r s;
               s = notify_requester tr requester r [] s;
               r = r\<lparr>q_status := Granted\<rparr>;
               s = set_request floorRequestId r s;
               s = notify_requester tr requester r [] s;
               s = NotifyForFloorRequestLocked tr r s
           in (True, push_back (onFloorGranted floorRequestId (q_beneficiaryId r) (q_floorIds r)) s))"

text \<open>One turn of the loops that end every request of a user, or of the conference.\<close>

definition end_request :: "transports \<Rightarrow> byte list \<Rightarrow> int \<Rightarrow> server \<Rightarrow> server" where
  "end_request tr statusInfo floorRequestId s =
    (case GetFloorRequestLocked floorRequestId s of
       None \<Rightarrow> s
     | Some r \<Rightarrow>
         if IsGranted r then snd (RevokeFloorRequestLocked tr floorRequestId statusInfo s)
         else snd (DenyFloorRequestLocked tr floorRequestId statusInfo s))"

definition RevokeUserFloorRequestsLocked :: "transports \<Rightarrow> int \<Rightarrow> server \<Rightarrow> server" where
  "RevokeUserFloorRequestsLocked tr userId s =
    (let ids = map fst (filter (\<lambda>(_, r). q_beneficiaryId r = userId \<or> q_userId r = userId) (s_floorRequests s))
     in fold (end_request tr (str ''FloorRequests from this user have been revoked or denied'')) ids s)"

section \<open>The chair API\<close>

definition AddUser :: "int \<Rightarrow> server \<Rightarrow> bool \<times> server" where
  "AddUser userId s =
    (if s_ending s then (False, s)
     else if userId < 1 \<or> userId > 65535 then (False, s)
     else if om_find userId (s_users s) \<noteq> None then (False, s)
     else (True, set_user userId (BFCPUser_new userId (s_conferenceId s)) s))"

definition RemoveUserLocked :: "transports \<Rightarrow> int \<Rightarrow> bool \<Rightarrow> server \<Rightarrow> bool \<times> server" where
  "RemoveUserLocked tr userId sendGoodbye s =
    (case om_find userId (s_users s) of
       None \<Rightarrow> (False, s)
     | Some user \<Rightarrow>
         let s = RevokeUserFloorRequestsLocked tr userId s;
             s = (if sendGoodbye \<and> IsConnected user then
                    (case NotificationTransactionIdLocked tr (Some user) s of
                       (transactionId, s) \<Rightarrow>
                         snd (SendMessage tr user
                           (BFCPMessage_new (MsgOther (prim_code P_Goodbye)) transactionId (s_conferenceId s) userId) s))
                  else s);
             s = CloseTransport userId user s
         in (True, s\<lparr>s_users := om_erase userId (s_users s)\<rparr>))"

definition RemoveUser :: "transports \<Rightarrow> int \<Rightarrow> server \<Rightarrow> bool \<times> server" where
  "RemoveUser tr userId s =
    (if s_ending s then (False, s)
     else case RemoveUserLocked tr userId True s of (ok, s) \<Rightarrow> (ok, Fire s))"

definition SetChair :: "int \<Rightarrow> server \<Rightarrow> bool \<times> server" where
  "SetChair userId s =
    (if s_ending s then (False, s)
     else case GetUserLocked userId s of
       None \<Rightarrow> (False, s)
     | Some user \<Rightarrow>
         let s = s\<lparr>s_users := om_map (\<lambda>u. u\<lparr>u_isChair := False\<rparr>) (s_users s)\<rparr>
         in (True, set_user userId (user\<lparr>u_isChair := True\<rparr>) s))"

definition AddFloor :: "int \<Rightarrow> server \<Rightarrow> bool \<times> server" where
  "AddFloor floorId s =
    (if s_ending s then (False, s)
     else if floorId < 1 \<or> floorId > 65535 then (False, s)
     else if HasFloorLocked floorId s then (False, s)
     else (True, s\<lparr>s_floors := os_insert floorId (s_floors s)\<rparr>))"

definition GrantFloorRequest :: "transports \<Rightarrow> int \<Rightarrow> server \<Rightarrow> bool \<times> server" where
  "GrantFloorRequest tr floorRequestId s =
    (if s_ending s then (False, s)
     else case GrantFloorRequestLocked tr floorRequestId s of (ok, s) \<Rightarrow> (ok, Fire s))"

definition DenyFloorRequest :: "transports \<Rightarrow> int \<Rightarrow> byte list \<Rightarrow> server \<Rightarrow> bool \<times> server" where
  "DenyFloorRequest tr floorRequestId statusInfo s =
    (case DenyFloorRequestLocked tr floorRequestId statusInfo s of (ok, s) \<Rightarrow> (ok, Fire s))"

definition RevokeFloorRequest :: "transports \<Rightarrow> int \<Rightarrow> byte list \<Rightarrow> server \<Rightarrow> bool \<times> server" where
  "RevokeFloorRequest tr floorRequestId statusInfo s =
    (case RevokeFloorRequestLocked tr floorRequestId statusInfo s of (ok, s) \<Rightarrow> (ok, Fire s))"

definition GetGrantedFloorRequestId :: "int \<Rightarrow> server \<Rightarrow> int" where
  "GetGrantedFloorRequestId floorId s =
    (if s_ending s then 0
     else if \<not> HasFloorLocked floorId s then 0
     else case filter IsGranted (GetFloorRequestsForFloorLocked floorId s) of
       [] \<Rightarrow> 0
     | r # _ \<Rightarrow> q_floorRequestId r)"

definition IsUserConnected :: "int \<Rightarrow> server \<Rightarrow> bool" where
  "IsUserConnected userId s = (case GetUserLocked userId s of None \<Rightarrow> False | Some user \<Rightarrow> IsConnected user)"

definition NotifyFloorStatus :: "transports \<Rightarrow> int \<Rightarrow> int \<Rightarrow> server \<Rightarrow> bool \<times> server" where
  "NotifyFloorStatus tr userId floorId s =
    (if s_ending s then (False, s)
     else case GetUserLocked userId s of
       None \<Rightarrow> (False, s)
     | Some user \<Rightarrow>
         if \<not> HasFloorLocked floorId s then (False, s)
         else case NotificationTransactionIdLocked tr (Some user) s of
           (transactionId, s) \<Rightarrow> SendMessage tr user (BuildFloorStatusLocked floorId transactionId userId s) s)"

definition end_user :: "transports \<Rightarrow> int \<times> BFCPUser \<Rightarrow> server \<Rightarrow> server" where
  "end_user tr = (\<lambda>(key, user) s.
     let s = (if IsConnected user then
                (case NotificationTransactionIdLocked tr (Some user) s of
                   (transactionId, s) \<Rightarrow>
                     snd (SendMessage tr user
                       (BFCPMessage_new (MsgOther (prim_code P_Goodbye)) transactionId (s_conferenceId s) (u_userId user)) s))
              else s)
     in CloseTransport key user s)"

definition End :: "transports \<Rightarrow> server \<Rightarrow> server" where
  "End tr s =
    (if s_ending s then s
     else
       let s = s\<lparr>s_ending := True\<rparr>;
           ids = om_keys (s_floorRequests s);
           s = fold (end_request tr (str ''conference ended'')) ids s;
           s = s\<lparr>s_floorRequests := []\<rparr>;
           s = fold (end_user tr) (s_users s) s;
           s = s\<lparr>s_users := []\<rparr>
       in Fire s)"

section \<open>The transport API\<close>

definition AttachTransportLocked :: "transports \<Rightarrow> int \<Rightarrow> tid \<Rightarrow> server \<Rightarrow> server" where
  "AttachTransportLocked tr userId transport s =
    (case GetUserLocked userId s of
       None \<Rightarrow> s
     | Some user \<Rightarrow>
         if u_transport user = Some transport then s
         else
           let s = (if IsConnected user then
                      let s = set_user userId (ResetQueriedFloorIds user) s;
                          s = RevokeUserFloorRequestsLocked tr userId s
                      in CloseTransport userId (ResetQueriedFloorIds user) s
                    else s);
               user = (if IsConnected user then ResetQueriedFloorIds user else user)
           in set_user userId (user\<lparr>u_transport := Some transport\<rparr>) s)"

definition UserConnected :: "transports \<Rightarrow> int \<Rightarrow> tid \<Rightarrow> server \<Rightarrow> bool \<times> server" where
  "UserConnected tr userId transport s =
    (if s_ending s then (False, s)
     else case GetUserLocked userId s of
       None \<Rightarrow> (False, s)
     | Some user \<Rightarrow> (True, Fire (AttachTransportLocked tr userId transport s)))"

definition DetachTransportLocked :: "transports \<Rightarrow> int \<Rightarrow> server \<Rightarrow> server" where
  "DetachTransportLocked tr userId s =
    (case GetUserLocked userId s of
       None \<Rightarrow> s
     | Some user \<Rightarrow>
         let s = set_user userId (ResetQueriedFloorIds (user\<lparr>u_transport := None\<rparr>)) s
         in if \<not> s_ending s then RevokeUserFloorRequestsLocked tr userId s else s)"

definition UserDisconnected :: "transports \<Rightarrow> int \<Rightarrow> tid \<Rightarrow> server \<Rightarrow> server" where
  "UserDisconnected tr userId transport s =
    (case GetUserLocked userId s of
       None \<Rightarrow> s
     | Some user \<Rightarrow>
         if u_transport user \<noteq> Some transport then s
         else Fire (DetachTransportLocked tr userId s))"

definition TransportClosed :: "transports \<Rightarrow> tid \<Rightarrow> server \<Rightarrow> server" where
  "TransportClosed tr transport s =
    (case filter (\<lambda>(_, user). u_transport user = Some transport) (s_users s) of
       [] \<Rightarrow> s
     | (userId, _) # _ \<Rightarrow> Fire (DetachTransportLocked tr userId s))"

section \<open>Incoming primitives\<close>

text \<open>The \<open>BFCPFloorRequest\<close> that \<open>ProcessFloorRequestLocked\<close> builds.\<close>

definition new_request :: "int \<Rightarrow> BFCPMessage \<Rightarrow> BFCPMsgFloorRequest \<Rightarrow> int \<Rightarrow> BFCPFloorRequest" where
  "new_request floorRequestId msg req conferenceId =
    (let r = BFCPFloorRequest_new floorRequestId (m_userId msg) conferenceId;
         r = (case mfr_beneficiaryId req of None \<Rightarrow> r | Some b \<Rightarrow> r\<lparr>q_beneficiaryId := b\<rparr>)
     in fold AddFloorId (mfr_floorIds req) r)"

definition ProcessFloorRequestLocked ::
  "transports \<Rightarrow> BFCPMessage \<Rightarrow> BFCPMsgFloorRequest \<Rightarrow> BFCPUser \<Rightarrow> server \<Rightarrow> server" where
  "ProcessFloorRequestLocked tr msg req user s =
    (if list_ex (\<lambda>f. \<not> HasFloorLocked f s) (mfr_floorIds req) then
       ReplyErrorLocked msg (u_transport user) InvalidFloorId (str ''requested floor does not exist'') s
     else if (case mfr_beneficiaryId req of None \<Rightarrow> False | Some b \<Rightarrow> GetUserLocked b s = None) then
       ReplyErrorLocked msg (u_transport user) UserDoesNotExist (str ''beneficiary does not exist'') s
     else
       let floorRequestId = s_floorRequestCounter s;
           s = s\<lparr>s_floorRequestCounter := floorRequestId + 1\<rparr>;
           r = new_request floorRequestId msg req (s_conferenceId s);
           s = set_request floorRequestId r s;
           s = SendFloorRequestStatusLocked tr r (m_transactionId msg) (m_userId msg) [] True s
       in if u_isChair user then snd (GrantFloorRequestLocked tr floorRequestId s)
          else push_back (onFloorRequest floorRequestId (q_userId r) (q_beneficiaryId r) (q_floorIds r)) s)"

text \<open>
  \<open>None\<close> is the exception \<open>AttributeNotFound\<close>: \<open>GetFloorRequestId\<close> raises it on a message
  without the attribute.
\<close>

definition ProcessFloorReleaseLocked ::
  "transports \<Rightarrow> BFCPMessage \<Rightarrow> BFCPMsgFloorRelease \<Rightarrow> BFCPUser \<Rightarrow> server \<Rightarrow> server option" where
  "ProcessFloorReleaseLocked tr msg req user s =
    (case req of
       None \<Rightarrow> None
     | Some floorRequestId \<Rightarrow> Some
        (case GetFloorRequestLocked floorRequestId s of
           None \<Rightarrow>
             ReplyErrorLocked msg (u_transport user) FloorRequestIdDoesNotExist (str ''FloorRequest does not exist'') s
         | Some r \<Rightarrow>
             let sender = u_userId user; requester = q_userId r; beneficiary = q_beneficiaryId r in
             if sender \<noteq> requester \<and> sender \<noteq> beneficiary \<and> \<not> u_isChair user then
               ReplyErrorLocked msg (u_transport user) UnauthorizedOperation (str ''you cannot release that FloorRequest'') s
             else if \<not> IsGranted r \<and> \<not> CanBeCancelled r then
               ReplyErrorLocked msg (u_transport user) UnauthorizedOperation
                 (str ''cannot release or cancel the FloorRequest due to its current status'') s
             else
               let r' = r\<lparr>q_status := (if IsGranted r then (if sender = beneficiary then Released else Revoked)
                                       else Cancelled)\<rparr>;
                   s = set_request floorRequestId r' s;
                   s = SendFloorRequestStatusLocked tr r' (m_transactionId msg) sender [] True s;
                   s = (if sender \<noteq> requester then notify_requester tr (GetUserLocked requester s) r' [] s else s);
                   s = NotifyForFloorRequestLocked tr r' s;
                   s = erase_request floorRequestId s
               in if IsGranted r then push_back (onFloorReleased floorRequestId beneficiary (q_floorIds r)) s
                  else s))"

definition query_reply :: "transports \<Rightarrow> BFCPMessage \<Rightarrow> BFCPUser \<Rightarrow> nat \<times> int \<Rightarrow> server \<Rightarrow> server" where
  "query_reply tr msg user = (\<lambda>(i, floorId) s.
    (case (if i = 0 then (m_transactionId msg, s) else NotificationTransactionIdLocked tr (Some user) s) of
       (transactionId, s) \<Rightarrow>
         snd (SendMessage tr user
           ((BuildFloorStatusLocked floorId transactionId (m_userId msg) s)\<lparr>m_responder := (i = 0)\<rparr>) s)))"

definition ProcessFloorQueryLocked ::
  "transports \<Rightarrow> BFCPMessage \<Rightarrow> BFCPMsgFloorQuery \<Rightarrow> int \<Rightarrow> BFCPUser \<Rightarrow> server \<Rightarrow> server" where
  "ProcessFloorQueryLocked tr msg req userId user s =
    (if list_ex (\<lambda>f. \<not> HasFloorLocked f s) req then
       ReplyErrorLocked msg (u_transport user) InvalidFloorId (str ''requested floor does not exist'') s
     else
       let user = fold AddQueriedFloorId req (ResetQueriedFloorIds user);
           s = set_user userId user s
       in if u_queriedFloorIds user = [] then
            snd (SendMessage tr user
              ((BFCPMessage_new (MsgFloorStatus BFCPMsgFloorStatus_new) (m_transactionId msg)
                 (s_conferenceId s) (m_userId msg))\<lparr>m_responder := True\<rparr>) s)
          else fold (query_reply tr msg user) (zip [0..<length (u_queriedFloorIds user)] (u_queriedFloorIds user)) s)"

definition hello_ack_body :: BFCPMsgHelloAck where
  "hello_ack_body =
     fold (\<lambda>a. AddSupportedAttribute (name_code a))
       [BeneficiaryId, FloorId, FloorRequestId, Priority, RequestStatus, ErrorCode, ErrorInfo,
        ParticipantProvidedInfo, StatusInfo, SupportedAttributes, SupportedPrimitives,
        BeneficiaryInformation, FloorRequestInformation, RequestedByInformation, FloorRequestStatus,
        OverallRequestStatus]
     (fold (\<lambda>p. AddSupportedPrimitive (prim_code p))
       [P_FloorRequest, P_FloorRelease, P_FloorRequestStatus, P_FloorQuery, P_FloorStatus, P_Hello,
        P_HelloAck, P_Error, P_FloorRequestStatusAck, P_FloorStatusAck, P_Goodbye, P_GoodbyeAck]
      BFCPMsgHelloAck_new)"

definition ProcessHelloLocked :: "transports \<Rightarrow> BFCPMessage \<Rightarrow> BFCPUser \<Rightarrow> server \<Rightarrow> server" where
  "ProcessHelloLocked tr msg user s =
    (let ack = (BFCPMessage_new (MsgHelloAck hello_ack_body) (m_transactionId msg) (s_conferenceId s)
                 (m_userId msg))\<lparr>m_responder := True\<rparr>;
         s = snd (SendMessage tr user ack s);
         s = (if \<not> IsReliable tr user then
                (case NextTransactionIdLocked s of
                   (transactionId, s) \<Rightarrow>
                     snd (SendMessage tr user (BFCPMessage_new MsgHello transactionId (s_conferenceId s) (m_userId msg)) s))
              else s)
     in push_back (onUserConnected (u_userId user)) s)"

definition ProcessGoodbyeLocked :: "transports \<Rightarrow> BFCPMessage \<Rightarrow> BFCPUser \<Rightarrow> server \<Rightarrow> server" where
  "ProcessGoodbyeLocked tr msg user s =
    (let ack = (BFCPMessage_new (MsgOther (prim_code P_GoodbyeAck)) (m_transactionId msg) (s_conferenceId s)
                 (m_userId msg))\<lparr>m_responder := True\<rparr>;
         s = snd (SendMessage tr user ack s)
     in snd (RemoveUserLocked tr (u_userId user) False s))"

text \<open>The \<open>switch\<close> of \<open>MessageReceived\<close>.\<close>

definition dispatch_primitive :: "transports \<Rightarrow> BFCPMessage \<Rightarrow> tid \<Rightarrow> BFCPUser \<Rightarrow> server \<Rightarrow> server option" where
  "dispatch_primitive tr msg from user s =
    (let unknown = ReplyErrorLocked msg (Some from) UnknownPrimitive (str ''unknown or unsupported primitive'') s in
     case m_body msg of
       MsgFloorRequest req \<Rightarrow> Some (ProcessFloorRequestLocked tr msg req user s)
     | MsgFloorRelease req \<Rightarrow> ProcessFloorReleaseLocked tr msg req user s
     | MsgFloorQuery req \<Rightarrow> Some (ProcessFloorQueryLocked tr msg req (m_userId msg) user s)
     | MsgHello \<Rightarrow> Some (ProcessHelloLocked tr msg user s)
     | MsgHelloAck _ \<Rightarrow> Some s
     | MsgError _ \<Rightarrow> Some s
     | MsgOther p \<Rightarrow>
         Some (if p = prim_code P_Goodbye then ProcessGoodbyeLocked tr msg user s
               else if p = prim_code P_FloorRequestStatusAck \<or> p = prim_code P_FloorStatusAck
                 \<or> p = prim_code P_GoodbyeAck then s
               else unknown)
     | MsgFloorRequestStatus _ \<Rightarrow> Some unknown
     | MsgFloorStatus _ \<Rightarrow> Some unknown)"

text \<open>
  \<open>user\<close> is a pointer: after \<open>AttachTransportLocked\<close> its fields are read again from the map. The
  entry is still there (\<open>MessageReceived_total\<close> in \<open>BfcpFloorControl\<close>), so \<open>None\<close> is only the exception of
  \<open>ProcessFloorReleaseLocked\<close>.
\<close>

definition MessageReceived :: "transports \<Rightarrow> BFCPMessage \<Rightarrow> tid \<Rightarrow> server \<Rightarrow> server option" where
  "MessageReceived tr msg from s =
    (if s_ending s then Some s
     else if m_conferenceId msg \<noteq> s_conferenceId s then
       Some (ReplyErrorLocked msg (Some from) ConferenceDoesNotExist (str ''conference does not exist'') s)
     else case GetUserLocked (m_userId msg) s of
       None \<Rightarrow> Some (ReplyErrorLocked msg (Some from) UserDoesNotExist (str ''user does not exist'') s)
     | Some user \<Rightarrow>
         if u_transport user \<noteq> Some from \<and> IsConnected user \<and> GetPrimitive msg \<noteq> prim_code P_Hello then
           Some (ReplyErrorLocked msg (Some from) UnauthorizedOperation (str ''user is connected elsewhere'') s)
         else
           let s = (if u_transport user \<noteq> Some from then AttachTransportLocked tr (m_userId msg) from s else s)
           in case GetUserLocked (m_userId msg) s of
                None \<Rightarrow> None
              | Some user \<Rightarrow> map_option Fire (dispatch_primitive tr msg from user s))"

end
