(* ===== verification/BfcpInvariant.thy ===== *)
theory BfcpInvariant
  imports BfcpServer
begin

text \<open>
  The invariant of the floor control server and that every public operation keeps it.

  \<open>core\<close> is the state without the transaction counter and the record of what was sent: the
  lemmas of the first section say that sending and notifying change nothing else, those of the
  second what the locked operations do to the rest. \<open>consistent\<close> says that the maps are well
  formed, that a request names users and floors that exist, that its status is Pending or
  Granted, that two granted requests share no floor and that there is at most one chair.
  \<open>tracked\<close> says that the notifications queued so far, read in order by a listener that knows
  nothing else, make sense and end in the floor holders of the state. The two together, \<open>good\<close>,
  hold inside an operation as well, so the locked helpers keep them too; \<open>server_inv\<close> adds what
  holds between operations.
\<close>

named_theorems frame_simps \<open>what an operation leaves alone, and what it changes\<close>

section \<open>Frame\<close>

definition core :: "server \<Rightarrow> server" where
  "core s = s\<lparr>s_sent := [], s_transactionCounter := 0\<rparr>"

lemma core_idem [simp]: "core (core s) = core s"
  by (simp add: core_def)

lemma core_eqD:
  assumes "core s = core t"
  shows "s_conferenceId s = s_conferenceId t" "s_users s = s_users t" "s_floors s = s_floors t"
    "s_floorRequests s = s_floorRequests t" "s_floorRequestCounter s = s_floorRequestCounter t"
    "s_ending s = s_ending t" "s_pending s = s_pending t" "s_notified s = s_notified t"
  using assms by (cases s; cases t; simp add: core_def)+

lemma core_eqI:
  assumes "s_conferenceId s = s_conferenceId t" "s_users s = s_users t" "s_floors s = s_floors t"
    "s_floorRequests s = s_floorRequests t" "s_floorRequestCounter s = s_floorRequestCounter t"
    "s_ending s = s_ending t" "s_pending s = s_pending t" "s_notified s = s_notified t"
  shows "core s = core t"
  using assms by (simp add: core_def)

lemma core_emit [frame_simps]: "core (emit e s) = core s"
  by (simp add: core_def emit_def)

lemma core_Next [frame_simps]: "core (snd (NextTransactionIdLocked s)) = core s"
  by (simp add: core_def NextTransactionIdLocked_def Let_def)

lemma core_SendMessage [frame_simps]: "core (snd (SendMessage tr u msg s)) = core s"
  by (simp add: SendMessage_def core_emit split: option.split)

lemma core_Notification [frame_simps]: "core (snd (NotificationTransactionIdLocked tr u s)) = core s"
  by (simp add: NotificationTransactionIdLocked_def core_Next split: option.split)

lemma core_notify_floor [frame_simps]: "core (snd (notify_floor tr u f s)) = core s"
  using core_Notification [of tr "Some u" s] core_SendMessage
  by (simp add: notify_floor_def case_prod_beta)

lemma core_fold:
  assumes "\<And>x s. x \<in> set xs \<Longrightarrow> core (f x s) = core s"
  shows "core (fold f xs s) = core s"
  by (rule fold_inv [where P = "\<lambda>t. core t = core s"]) (simp_all add: assms)

lemma core_Notify [frame_simps]: "core (NotifyForFloorRequestLocked tr r s) = core s"
  unfolding NotifyForFloorRequestLocked_def
  by (intro core_fold) (auto intro!: core_fold simp: core_notify_floor split: prod.split)

lemma core_SendMessageLocked [frame_simps]: "core (SendMessageLocked tr msg s) = core s"
  by (simp add: SendMessageLocked_def core_SendMessage split: option.split)

lemma core_SendFloorRequestStatus [frame_simps]:
  "core (SendFloorRequestStatusLocked tr r i u info b s) = core s"
  by (simp add: SendFloorRequestStatusLocked_def core_SendMessageLocked Let_def)

lemma core_ReplyError [frame_simps]: "core (ReplyErrorLocked msg to c info s) = core s"
  by (simp add: ReplyErrorLocked_def core_emit split: option.split)

lemma core_notify_requester [frame_simps]: "core (notify_requester tr u r info s) = core s"
  using core_Notification [of tr u s] core_SendFloorRequestStatus
  by (simp add: notify_requester_def case_prod_beta)

lemmas frame_fields [simp] =
  core_eqD [OF core_emit] core_eqD [OF core_SendMessage] core_eqD [OF core_Notification]
  core_eqD [OF core_Notify] core_eqD [OF core_SendFloorRequestStatus] core_eqD [OF core_ReplyError]
  core_eqD [OF core_notify_requester] core_eqD [OF core_Next] core_eqD [OF core_SendMessageLocked]

lemma om_erase_put [omap_simps]: "om_erase k (om_put k v m) = om_erase k m"
  by (induction m) (auto simp: om_erase_def)

lemma om_put_put [omap_simps]: "om_put k v (om_put k w m) = om_put k v m"
  by (induction m) auto

section \<open>What the locked operations do to the state\<close>

lemma Deny_core [frame_simps]:
  "core (snd (DenyFloorRequestLocked tr k info s)) =
    (case om_find k (s_floorRequests s) of
       Some r \<Rightarrow> if CanBeDenied r then core (erase_request k s) else core s
     | None \<Rightarrow> core s)"
  by (auto simp: DenyFloorRequestLocked_def GetFloorRequestLocked_def Let_def erase_request_def set_request_def
      omap_simps intro!: core_eqI split: option.split)

lemma Deny_result:
  "fst (DenyFloorRequestLocked tr k info s) =
    (case om_find k (s_floorRequests s) of Some r \<Rightarrow> CanBeDenied r | None \<Rightarrow> False)"
  by (simp add: DenyFloorRequestLocked_def GetFloorRequestLocked_def Let_def split: option.split)

definition released :: "int \<Rightarrow> BFCPFloorRequest \<Rightarrow> server \<Rightarrow> server" where
  "released k r s = (if s_ending s then s else push_back (onFloorReleased k (q_beneficiaryId r) (q_floorIds r)) s)"

lemma Revoke_core [frame_simps]:
  "core (snd (RevokeFloorRequestLocked tr k info s)) =
    (case om_find k (s_floorRequests s) of
       Some r \<Rightarrow> if IsGranted r then core (released k r (erase_request k s)) else core s
     | None \<Rightarrow> core s)"
  by (auto simp: RevokeFloorRequestLocked_def GetFloorRequestLocked_def Let_def erase_request_def set_request_def
      released_def push_back_def omap_simps intro!: core_eqI split: option.split)

lemma Revoke_result:
  "fst (RevokeFloorRequestLocked tr k info s) =
    (case om_find k (s_floorRequests s) of Some r \<Rightarrow> IsGranted r | None \<Rightarrow> False)"
  by (simp add: RevokeFloorRequestLocked_def GetFloorRequestLocked_def Let_def split: option.split)

lemma Grant_core:
  assumes "om_find k (s_floorRequests s) = Some r" and "CanBeGranted r"
  shows "core (snd (GrantFloorRequestLocked tr k s)) =
    core (push_back (onFloorGranted k (q_beneficiaryId r) (q_floorIds r))
      (set_request k (r\<lparr>q_status := Granted\<rparr>)
        (fold (revoke_other tr k) (GetFloorRequestsForFloorsLocked (q_floorIds r) s) s)))"
  using assms by (auto simp: GrantFloorRequestLocked_def GetFloorRequestLocked_def Let_def set_request_def
      push_back_def omap_simps intro!: core_eqI)

lemma Grant_not:
  assumes "case om_find k (s_floorRequests s) of Some r \<Rightarrow> \<not> CanBeGranted r | None \<Rightarrow> True"
  shows "GrantFloorRequestLocked tr k s = (False, s)"
  using assms by (simp add: GrantFloorRequestLocked_def GetFloorRequestLocked_def split: option.splits)


section \<open>The invariant\<close>

definition user_ok :: "server \<Rightarrow> int \<Rightarrow> BFCPUser \<Rightarrow> bool" where
  "user_ok s k u \<longleftrightarrow> u_userId u = k \<and> 1 \<le> k \<and> k \<le> 65535 \<and> u_conferenceId u = s_conferenceId s
     \<and> set (u_queriedFloorIds u) \<subseteq> set (s_floors s) \<and> distinct (u_queriedFloorIds u)"

definition request_ok :: "server \<Rightarrow> int \<Rightarrow> BFCPFloorRequest \<Rightarrow> bool" where
  "request_ok s k r \<longleftrightarrow> q_floorRequestId r = k \<and> 1 \<le> k \<and> k < s_floorRequestCounter s
     \<and> q_conferenceId r = s_conferenceId s \<and> om_find (q_userId r) (s_users s) \<noteq> None
     \<and> om_find (q_beneficiaryId r) (s_users s) \<noteq> None \<and> set (q_floorIds r) \<subseteq> set (s_floors s)
     \<and> sorted_wrt (<) (q_floorIds r) \<and> (q_status r = Pending \<or> q_status r = Granted) \<and> q_queuePosition r = 0"

definition exclusive :: "BFCPFloorRequest omap \<Rightarrow> bool" where
  "exclusive m \<longleftrightarrow> (\<forall>j k q r. om_find j m = Some q \<longrightarrow> om_find k m = Some r \<longrightarrow> IsGranted q \<longrightarrow> IsGranted r
     \<longrightarrow> j \<noteq> k \<longrightarrow> set (q_floorIds q) \<inter> set (q_floorIds r) = {})"

definition one_chair :: "BFCPUser omap \<Rightarrow> bool" where
  "one_chair m \<longleftrightarrow> (\<forall>j k u v. om_find j m = Some u \<longrightarrow> om_find k m = Some v \<longrightarrow> u_isChair u \<longrightarrow> u_isChair v \<longrightarrow> j = k)"

definition consistent :: "server \<Rightarrow> bool" where
  "consistent s \<longleftrightarrow> om_sorted (s_users s) \<and> om_sorted (s_floorRequests s)
     \<and> sorted_wrt (<) (s_floors s) \<and> (\<forall>f \<in> set (s_floors s). 1 \<le> f \<and> f \<le> 65535)
     \<and> 1 \<le> s_floorRequestCounter s
     \<and> (\<forall>k u. om_find k (s_users s) = Some u \<longrightarrow> user_ok s k u) \<and> one_chair (s_users s)
     \<and> (\<forall>k r. om_find k (s_floorRequests s) = Some r \<longrightarrow> request_ok s k r) \<and> exclusive (s_floorRequests s)"

text \<open>
  Who holds which floor, as the state has it, and as a listener works it out from the
  notifications alone: a grant of floors that are not all free, or a release of floors the
  request does not hold, makes no sense to it (\<open>None\<close>).
\<close>

definition holders :: "server \<Rightarrow> int \<Rightarrow> int option" where
  "holders s = (\<lambda>f. map_option q_floorRequestId
     (List.find (\<lambda>r. IsGranted r \<and> HasFloorId r f) (map snd (s_floorRequests s))))"

fun hold :: "notification \<Rightarrow> (int \<Rightarrow> int option) \<Rightarrow> (int \<Rightarrow> int option) option" where
  "hold (onFloorGranted k b fs) h =
     (if list_all (\<lambda>f. h f = None) fs then Some (\<lambda>f. if List.member fs f then Some k else h f) else None)"
| "hold (onFloorReleased k b fs) h =
     (if list_all (\<lambda>f. h f = Some k) fs then Some (\<lambda>f. if List.member fs f then None else h f) else None)"
| "hold (onFloorRequest k u b fs) h = Some h"
| "hold (onUserConnected u) h = Some h"

definition heard :: "server \<Rightarrow> (int \<Rightarrow> int option) option" where
  "heard s = foldM hold (s_notified s @ s_pending s) (\<lambda>_. None)"

definition tracked :: "server \<Rightarrow> bool" where
  "tracked s \<longleftrightarrow> s_ending s \<or> heard s = Some (holders s)"

definition good :: "server \<Rightarrow> bool" where
  "good s \<longleftrightarrow> consistent s \<and> tracked s"

lemma good_core [simp]: "good (core s) = good s"
  by (simp add: good_def consistent_def user_ok_def request_ok_def tracked_def heard_def holders_def core_def)

lemma good_coreI: "good (core s) \<Longrightarrow> good s"
  by simp

lemma good_core_eq: "core s = core t \<Longrightarrow> good t \<Longrightarrow> good s"
  using good_core [of s] good_core [of t] by simp

lemma good_user: "good s \<Longrightarrow> om_find k (s_users s) = Some u \<Longrightarrow> user_ok s k u"
  by (simp add: good_def consistent_def)

lemma good_request: "good s \<Longrightarrow> om_find k (s_floorRequests s) = Some r \<Longrightarrow> request_ok s k r"
  by (simp add: good_def consistent_def)

lemma find_SomeD: "List.find P xs = Some x \<Longrightarrow> x \<in> set xs \<and> P x"
  by (induction xs) (auto split: if_splits)

lemma option_eqI: "(\<And>k. x = Some k \<longleftrightarrow> y = Some k) \<Longrightarrow> x = y"
  by (cases x; cases y) auto

lemma holders_iff:
  assumes "consistent s"
  shows "holders s f = Some k \<longleftrightarrow>
    (\<exists>r. om_find k (s_floorRequests s) = Some r \<and> IsGranted r \<and> f \<in> set (q_floorIds r))"
proof -
  let ?m = "s_floorRequests s" and ?P = "\<lambda>r. IsGranted r \<and> HasFloorId r f"
  have srt: "om_sorted ?m" and ok: "\<And>k r. om_find k ?m = Some r \<Longrightarrow> q_floorRequestId r = k"
    and ex: "exclusive ?m"
    using assms by (auto simp: consistent_def request_ok_def)
  show ?thesis
  proof
    assume "holders s f = Some k"
    then obtain r where r: "List.find ?P (map snd ?m) = Some r" "q_floorRequestId r = k"
      by (auto simp: holders_def)
    then have "r \<in> snd ` set ?m" "?P r"
      using find_SomeD [OF r(1)] by simp_all
    then show "\<exists>r. om_find k ?m = Some r \<and> IsGranted r \<and> f \<in> set (q_floorIds r)"
      using om_in_find [OF srt] ok r(2) by (force simp: HasFloorId_def)
  next
    assume "\<exists>r. om_find k ?m = Some r \<and> IsGranted r \<and> f \<in> set (q_floorIds r)"
    then obtain r where r: "om_find k ?m = Some r" "IsGranted r" "f \<in> set (q_floorIds r)" by blast
    then have "r \<in> set (map snd ?m)" "?P r"
      using om_find_in [OF r(1)] by (force simp: HasFloorId_def)+
    then have "List.find ?P (map snd ?m) \<noteq> None"
      unfolding find_None_iff by blast
    then obtain q where q: "List.find ?P (map snd ?m) = Some q" by blast
    then have "q \<in> snd ` set ?m" and P: "?P q"
      using find_SomeD [OF q] by simp_all
    then obtain j where j: "om_find j ?m = Some q"
      using om_in_find [OF srt] by force
    have "j = k"
      using ex j r P unfolding exclusive_def by (fastforce simp: HasFloorId_def)
    then show "holders s f = Some k"
      using q ok [OF j] by (simp add: holders_def)
  qed
qed

lemma holders_eqI:
  assumes "consistent s" and "\<And>f k. h f = Some k \<longleftrightarrow>
    (\<exists>r. om_find k (s_floorRequests s) = Some r \<and> IsGranted r \<and> f \<in> set (q_floorIds r))"
  shows "holders s = h"
proof
  fix f
  show "holders s f = h f"
    by (rule option_eqI) (simp add: assms(2) holders_iff [OF assms(1)])
qed

section \<open>The transitions\<close>

lemma consistent_erase: "consistent s \<Longrightarrow> consistent (erase_request k s)"
  by (auto simp: consistent_def erase_request_def user_ok_def request_ok_def exclusive_def omap_simps om_sorted_erase
      split: if_splits)

lemma erase_fields [simp]:
  "s_ending (erase_request k s) = s_ending s" "s_notified (erase_request k s) = s_notified s"
  "s_pending (erase_request k s) = s_pending s" "s_users (erase_request k s) = s_users s"
  "s_floorRequests (erase_request k s) = om_erase k (s_floorRequests s)"
  by (simp_all add: erase_request_def)

lemma consistent_push [simp]: "consistent (push_back n s) = consistent s"
  by (simp add: consistent_def push_back_def user_ok_def request_ok_def)

lemma push_fields [simp]:
  "s_ending (push_back n s) = s_ending s" "s_users (push_back n s) = s_users s"
  "s_floorRequests (push_back n s) = s_floorRequests s" "s_floors (push_back n s) = s_floors s"
  by (simp_all add: push_back_def)

lemma heard_push [simp]: "heard (push_back n s) = Option.bind (heard s) (hold n)"
  by (auto simp: heard_def push_back_def split: option.splits bind_split)

lemma heard_erase [simp]: "heard (erase_request k s) = heard s"
  by (simp add: heard_def)

lemma holders_push [simp]: "holders (push_back n s) = holders s"
  by (simp add: holders_def push_back_def)

lemma good_erase_pending:
  assumes "good s" and "om_find k (s_floorRequests s) = Some r" and "\<not> IsGranted r"
  shows "good (erase_request k s)"
proof -
  have c: "consistent s" and c': "consistent (erase_request k s)"
    using assms(1) by (simp_all add: good_def consistent_erase)
  have "holders (erase_request k s) = holders s"
    using assms(2,3) by (intro holders_eqI [OF c'])
      (auto simp: holders_iff [OF c] omap_simps)
  with assms(1) c' show ?thesis
    by (simp add: good_def tracked_def)
qed

lemma good_released:
  assumes "good s" and r: "om_find k (s_floorRequests s) = Some r" "IsGranted r"
  shows "good (released k r (erase_request k s))"
proof -
  let ?s = "erase_request k s"
  have c: "consistent s" and c': "consistent ?s"
    using assms(1) by (simp_all add: good_def consistent_erase)
  have held: "f \<in> set (q_floorIds r) \<Longrightarrow> holders s f = Some k" for f
    using r by (simp add: holders_iff [OF c])
  then have only: "f \<in> set (q_floorIds r) \<Longrightarrow> om_find j (s_floorRequests s) = Some q \<Longrightarrow> IsGranted q
      \<Longrightarrow> f \<in> set (q_floorIds q) \<Longrightarrow> j = k" for f j q
    using holders_iff [OF c, of f j] by auto
  have "holders ?s = (\<lambda>f. if List.member (q_floorIds r) f then None else holders s f)"
    using r by (intro holders_eqI [OF c']) (auto simp: holders_iff [OF c] omap_simps dest: only split: if_splits)
  moreover have "list_all (\<lambda>f. holders s f = Some k) (q_floorIds r)"
    by (simp add: list_all_iff held)
  ultimately show ?thesis
    using assms(1) c' by (auto simp: good_def tracked_def released_def)
qed


lemma good_push:
  assumes "good s" and "\<And>h. hold n h = Some h"
  shows "good (push_back n s)"
  using assms by (auto simp: good_def tracked_def)

lemma set_request_fields [simp]:
  "s_ending (set_request k r s) = s_ending s" "s_notified (set_request k r s) = s_notified s"
  "s_pending (set_request k r s) = s_pending s" "s_users (set_request k r s) = s_users s"
  "s_floorRequests (set_request k r s) = om_put k r (s_floorRequests s)"
  "s_floors (set_request k r s) = s_floors s"
  by (simp_all add: set_request_def)

lemma heard_set_request [simp]: "heard (set_request k r s) = heard s"
  by (simp add: heard_def)

text \<open>Granting a request none of whose floors is held.\<close>

lemma good_granted:
  assumes "good s" and r: "om_find k (s_floorRequests s) = Some r" "\<not> IsGranted r"
    and free: "\<And>f. f \<in> set (q_floorIds r) \<Longrightarrow> holders s f = None"
  shows "good (push_back (onFloorGranted k (q_beneficiaryId r) (q_floorIds r))
    (set_request k (r\<lparr>q_status := Granted\<rparr>) s))"
proof -
  let ?s = "set_request k (r\<lparr>q_status := Granted\<rparr>) s"
  have c: "consistent s" using assms(1) by (simp add: good_def)
  have none: "\<not> IsGranted q" if "om_find j (s_floorRequests s) = Some q" "f \<in> set (q_floorIds q)"
    "f \<in> set (q_floorIds r)" for f j q
    using free [OF that(3)] holders_iff [OF c, of f j] that(1,2) by auto
  then have ex: "exclusive (om_put k (r\<lparr>q_status := Granted\<rparr>) (s_floorRequests s))"
    using c by (auto simp: consistent_def exclusive_def omap_simps)
  moreover have "request_ok ?s k (r\<lparr>q_status := Granted\<rparr>)"
    using good_request [OF assms(1) r(1)] by (simp add: request_ok_def set_request_def)
  ultimately have c': "consistent ?s"
    using c by (auto simp: consistent_def user_ok_def request_ok_def set_request_def omap_simps om_sorted_put)
  have "holders ?s = (\<lambda>f. if List.member (q_floorIds r) f then Some k else holders s f)"
    using r none by (intro holders_eqI [OF c'])
      (auto simp: holders_iff [OF c] omap_simps IsGranted_def split: if_splits)
  moreover have "list_all (\<lambda>f. holders s f = None) (q_floorIds r)"
    by (simp add: list_all_iff free)
  ultimately show ?thesis
    using assms(1) c' by (auto simp: good_def tracked_def)
qed

lemma good_set_user:
  assumes "good s" and "om_find k (s_users s) = Some u" and "user_ok s k v" and "u_isChair v = u_isChair u"
  shows "good (set_user k v s)"
proof -
  have "one_chair (om_put k v (s_users s))"
    using assms unfolding good_def consistent_def one_chair_def by (simp add: omap_simps) metis
  with assms show ?thesis
    by (auto simp: good_def consistent_def tracked_def heard_def holders_def user_ok_def request_ok_def set_user_def
      omap_simps om_sorted_put)
qed

section \<open>Operations keep the invariant\<close>

lemma good_Deny: "good s \<Longrightarrow> good (snd (DenyFloorRequestLocked tr k info s))"
  by (rule good_coreI) (auto intro: good_erase_pending
      simp: Deny_core CanBeDenied_def CanBeGranted_def IsGranted_def split: option.split)

lemma good_Revoke: "good s \<Longrightarrow> good (snd (RevokeFloorRequestLocked tr k info s))"
  by (rule good_coreI) (auto intro: good_released simp: Revoke_core split: option.split)

lemma released_fields [simp]:
  "s_conferenceId (released k r s) = s_conferenceId s" "s_users (released k r s) = s_users s"
  "s_floors (released k r s) = s_floors s" "s_floorRequests (released k r s) = s_floorRequests s"
  "s_floorRequestCounter (released k r s) = s_floorRequestCounter s" "s_ending (released k r s) = s_ending s"
  "s_notified (released k r s) = s_notified s"
  by (simp_all add: released_def push_back_def)

lemma Deny_fields [simp]:
  defines "t \<equiv> \<lambda>tr k info s. snd (DenyFloorRequestLocked tr k info s)"
  shows "s_conferenceId (t tr k info s) = s_conferenceId s" "s_users (t tr k info s) = s_users s"
    "s_floors (t tr k info s) = s_floors s" "s_floorRequestCounter (t tr k info s) = s_floorRequestCounter s"
    "s_ending (t tr k info s) = s_ending s" "s_notified (t tr k info s) = s_notified s"
  by (simp_all add: t_def DenyFloorRequestLocked_def Let_def erase_request_def set_request_def split: option.split)

lemma Revoke_fields [simp]:
  defines "t \<equiv> \<lambda>tr k info s. snd (RevokeFloorRequestLocked tr k info s)"
  shows "s_conferenceId (t tr k info s) = s_conferenceId s" "s_users (t tr k info s) = s_users s"
    "s_floors (t tr k info s) = s_floors s" "s_floorRequestCounter (t tr k info s) = s_floorRequestCounter s"
    "s_ending (t tr k info s) = s_ending s" "s_notified (t tr k info s) = s_notified s"
  by (simp_all add: t_def RevokeFloorRequestLocked_def Let_def erase_request_def set_request_def push_back_def
      split: option.split)


lemma Deny_requests:
  "s_floorRequests (snd (DenyFloorRequestLocked tr k info s)) =
    (case om_find k (s_floorRequests s) of
       Some r \<Rightarrow> if CanBeDenied r then om_erase k (s_floorRequests s) else s_floorRequests s
     | None \<Rightarrow> s_floorRequests s)"
  using arg_cong [OF Deny_core [of tr k info s], of s_floorRequests]
  by (simp add: core_def split: option.splits if_splits)

lemma Revoke_requests:
  "s_floorRequests (snd (RevokeFloorRequestLocked tr k info s)) =
    (case om_find k (s_floorRequests s) of
       Some r \<Rightarrow> if IsGranted r then om_erase k (s_floorRequests s) else s_floorRequests s
     | None \<Rightarrow> s_floorRequests s)"
  using arg_cong [OF Revoke_core [of tr k info s], of s_floorRequests]
  by (simp add: core_def split: option.splits if_splits)

text \<open>The state apart from requests and notifications.\<close>

definition setting :: "server \<Rightarrow> int \<times> BFCPUser omap \<times> int list \<times> int \<times> bool" where
  "setting s = (s_conferenceId s, s_users s, s_floors s, s_floorRequestCounter s, s_ending s)"

lemma setting_eqD:
  assumes "setting s = setting t"
  shows "s_conferenceId s = s_conferenceId t" "s_users s = s_users t" "s_floors s = s_floors t"
    "s_floorRequestCounter s = s_floorRequestCounter t" "s_ending s = s_ending t"
  using assms by (simp_all add: setting_def)

lemma setting_fold:
  assumes "\<And>x s. setting (f x s) = setting s"
  shows "setting (fold f xs s) = setting s"
  by (rule fold_inv [where P = "\<lambda>t. setting t = setting s"]) (simp_all add: assms)

lemma setting_revoke_other: "setting (revoke_other tr k j s) = setting s"
  by (simp add: setting_def revoke_other_def split: option.split)

lemma setting_end_request: "setting (end_request tr info j s) = setting s"
  by (simp add: setting_def end_request_def split: option.split)

lemmas revoke_others_fields [simp] = setting_eqD [OF setting_fold [OF setting_revoke_other]]
lemmas end_requests_fields [simp] = setting_eqD [OF setting_fold [OF setting_end_request]]

lemma good_revoke_other: "good s \<Longrightarrow> good (revoke_other tr k j s)"
  by (simp add: revoke_other_def good_Revoke split: option.split)

lemma good_end_request: "good s \<Longrightarrow> good (end_request tr info j s)"
  by (simp add: end_request_def good_Revoke good_Deny split: option.split)

lemma revoke_other_find:
  assumes "good s"
  shows "om_find i (s_floorRequests (revoke_other tr k j s)) =
    (if i = j \<and> i \<noteq> k \<and> (case om_find i (s_floorRequests s) of Some r \<Rightarrow> IsGranted r | None \<Rightarrow> False)
     then None else om_find i (s_floorRequests s))"
  using good_request [OF assms, of j]
  by (auto simp: revoke_other_def GetFloorRequestLocked_def Revoke_requests request_ok_def omap_simps
      split: option.splits)

lemma revoke_others_find:
  assumes "good s"
  shows "om_find i (s_floorRequests (fold (revoke_other tr k) js s)) =
    (if i \<in> set js \<and> i \<noteq> k \<and> (case om_find i (s_floorRequests s) of Some r \<Rightarrow> IsGranted r | None \<Rightarrow> False)
     then None else om_find i (s_floorRequests s))"
  using assms
proof (induction js arbitrary: s)
  case (Cons j js)
  then show ?case
    by (auto simp: good_revoke_other revoke_other_find split: option.splits)
qed simp

lemma end_request_find:
  assumes "good s"
  shows "om_find i (s_floorRequests (end_request tr info j s)) =
    (if i = j then None else om_find i (s_floorRequests s))"
  using good_request [OF assms, of j]
  by (auto simp: end_request_def GetFloorRequestLocked_def Revoke_requests Deny_requests request_ok_def
      CanBeDenied_def CanBeGranted_def IsGranted_def omap_simps split: option.splits)

lemma end_requests_find:
  assumes "good s"
  shows "om_find i (s_floorRequests (fold (end_request tr info) js s)) =
    (if i \<in> set js then None else om_find i (s_floorRequests s))"
  using assms by (induction js arbitrary: s) (simp_all add: good_end_request end_request_find)

lemma good_fold:
  assumes "good s" and "\<And>x s. good s \<Longrightarrow> good (f x s)"
  shows "good (fold f xs s)"
  using fold_inv [where P = good, OF assms(1), of xs f] assms(2) by blast

text \<open>
  Once the loop of \<open>GrantFloorRequestLocked\<close> is through, no floor of the request is held, and the
  request itself is untouched.
\<close>

lemma others_revoked:
  fixes tr :: transports
  assumes g: "good s" and r: "om_find k (s_floorRequests s) = Some r" "\<not> IsGranted r"
    and f: "f \<in> set (q_floorIds r)"
  defines "t \<equiv> fold (revoke_other tr k) (GetFloorRequestsForFloorsLocked (q_floorIds r) s) s"
  shows "holders t f = None"
proof (rule ccontr)
  have "good t"
    unfolding t_def by (rule good_fold [OF g good_revoke_other])
  moreover assume "holders t f \<noteq> None"
  ultimately obtain j q where j: "om_find j (s_floorRequests t) = Some q" "IsGranted q" "f \<in> set (q_floorIds q)"
    using holders_iff [of t f] by (auto simp: good_def)
  then have "om_find j (s_floorRequests s) = Some q"
    by (auto simp: t_def revoke_others_find [OF g] split: if_splits)
  moreover from this j(3) f have "j \<in> set (GetFloorRequestsForFloorsLocked (q_floorIds r) s)"
    by (force simp: GetFloorRequestsForFloorsLocked_def list_ex_iff HasFloorId_def dest: om_find_in)
  moreover have "j \<noteq> k"
    using calculation(1) r j(2) by auto
  ultimately have "om_find j (s_floorRequests t) = None"
    using j(2) by (simp add: t_def revoke_others_find [OF g])
  with j(1) show False by simp
qed

lemma good_Grant:
  assumes g: "good s"
  shows "good (snd (GrantFloorRequestLocked tr k s))"
proof (cases "case om_find k (s_floorRequests s) of Some r \<Rightarrow> CanBeGranted r | None \<Rightarrow> False")
  case True
  then obtain r where r: "om_find k (s_floorRequests s) = Some r" "CanBeGranted r"
    by (auto split: option.splits)
  then have "\<not> IsGranted r" by (auto simp: CanBeGranted_def IsGranted_def)
  let ?t = "fold (revoke_other tr k) (GetFloorRequestsForFloorsLocked (q_floorIds r) s) s"
  have "good ?t"
    by (rule good_fold [OF g good_revoke_other])
  then show ?thesis
    using r \<open>\<not> IsGranted r\<close> by (intro good_core_eq [OF Grant_core [OF r]] good_granted)
      (simp_all add: revoke_others_find [OF g] others_revoked [OF g])
next
  case False
  then show ?thesis
    using g by (subst Grant_not) (auto split: option.splits)
qed

lemma Grant_setting: "setting (snd (GrantFloorRequestLocked tr k s)) = setting s"
  by (simp add: setting_def GrantFloorRequestLocked_def Let_def push_back_def set_request_def split: option.split)

lemmas Grant_fields [simp] = setting_eqD [OF Grant_setting]


section \<open>Users and transports\<close>

lemma good_RevokeUser: "good s \<Longrightarrow> good (RevokeUserFloorRequestsLocked tr u s)"
  by (simp add: RevokeUserFloorRequestsLocked_def good_fold good_end_request)

lemma RevokeUser_setting: "setting (RevokeUserFloorRequestsLocked tr u s) = setting s"
  by (simp add: RevokeUserFloorRequestsLocked_def setting_fold setting_end_request)

lemmas RevokeUser_fields [simp] = setting_eqD [OF RevokeUser_setting]

lemma RevokeUser_find:
  assumes "good s"
  shows "om_find k (s_floorRequests (RevokeUserFloorRequestsLocked tr u s)) =
    (case om_find k (s_floorRequests s) of
       None \<Rightarrow> None
     | Some r \<Rightarrow> if q_beneficiaryId r = u \<or> q_userId r = u then None else Some r)"
proof -
  let ?ids = "map fst (filter (\<lambda>(_, r). q_beneficiaryId r = u \<or> q_userId r = u) (s_floorRequests s))"
  have "om_sorted (s_floorRequests s)"
    using assms by (simp add: good_def consistent_def)
  then have "k \<in> set ?ids \<longleftrightarrow> (\<exists>r. om_find k (s_floorRequests s) = Some r \<and> (q_beneficiaryId r = u \<or> q_userId r = u))"
    by (force simp: om_in_iff)
  then show ?thesis
    by (auto simp: RevokeUserFloorRequestsLocked_def end_requests_find [OF assms] split: option.splits)
qed

lemma set_user_fields [simp]:
  "s_conferenceId (set_user k u s) = s_conferenceId s" "s_floors (set_user k u s) = s_floors s"
  "s_users (set_user k u s) = om_put k u (s_users s)" "s_floorRequests (set_user k u s) = s_floorRequests s"
  "s_floorRequestCounter (set_user k u s) = s_floorRequestCounter s" "s_ending (set_user k u s) = s_ending s"
  "s_pending (set_user k u s) = s_pending s" "s_notified (set_user k u s) = s_notified s"
  by (simp_all add: set_user_def)

text \<open>Changing the transport of a user, or clearing the floors it queried.\<close>

lemma good_same_user:
  assumes "good s" and "om_find k (s_users s) = Some u"
    and "u_userId v = u_userId u" "u_conferenceId v = u_conferenceId u" "u_isChair v = u_isChair u"
    and "set (u_queriedFloorIds v) \<subseteq> set (s_floors s)" "distinct (u_queriedFloorIds v)"
  shows "good (set_user k v s)"
  using good_user [OF assms(1,2)] assms by (intro good_set_user [OF assms(1,2)]) (simp_all add: user_ok_def)

lemma good_Close:
  assumes "good s" and "om_find k (s_users s) = Some u"
  shows "good (CloseTransport k u s)"
proof -
  have "core (CloseTransport k u s) = core (set_user k (u\<lparr>u_transport := None\<rparr>) s)"
    by (auto simp: CloseTransport_def Let_def intro!: core_eqI split: option.split)
  then show ?thesis
    by (rule good_core_eq) (use good_user [OF assms] in \<open>simp add: good_same_user [OF assms] user_ok_def\<close>)
qed

lemma Close_fields [simp]:
  "s_conferenceId (CloseTransport k u s) = s_conferenceId s" "s_floors (CloseTransport k u s) = s_floors s"
  "s_users (CloseTransport k u s) = om_put k (u\<lparr>u_transport := None\<rparr>) (s_users s)"
  "s_floorRequests (CloseTransport k u s) = s_floorRequests s"
  "s_floorRequestCounter (CloseTransport k u s) = s_floorRequestCounter s"
  "s_ending (CloseTransport k u s) = s_ending s" "s_pending (CloseTransport k u s) = s_pending s"
  "s_notified (CloseTransport k u s) = s_notified s"
  by (simp_all add: CloseTransport_def Let_def split: option.split)

text \<open>A user no request mentions can go.\<close>

lemma good_erase_user:
  assumes "good s" and "\<And>j r. om_find j (s_floorRequests s) = Some r \<Longrightarrow> q_userId r \<noteq> k \<and> q_beneficiaryId r \<noteq> k"
  shows "good (s\<lparr>s_users := om_erase k (s_users s)\<rparr>)"
proof -
  have "one_chair (om_erase k (s_users s))"
    using assms(1) unfolding good_def consistent_def one_chair_def by (simp add: omap_simps)
  with assms show ?thesis
    by (auto simp: good_def consistent_def tracked_def heard_def holders_def user_ok_def request_ok_def
      omap_simps om_sorted_erase split: if_splits)
qed

lemma good_RemoveUser:
  assumes g: "good s"
  shows "good (snd (RemoveUserLocked tr k b s))"
proof (cases "om_find k (s_users s)")
  case (Some u)
  let ?t = "RevokeUserFloorRequestsLocked tr k s"
  have t: "good ?t" "om_find k (s_users ?t) = Some u"
    using g Some by (simp_all add: good_RevokeUser)
  have "good (t'\<lparr>s_users := om_erase k (s_users t')\<rparr>)" if "t' = CloseTransport k u t''" "core t'' = core ?t" for t' t''
  proof -
    have "good t''" "om_find k (s_users t'') = Some u"
      using that(2) t core_eqD [OF that(2)] good_core_eq [OF that(2)] by simp_all
    from good_Close [OF this] show ?thesis
      using core_eqD [OF that(2)]
      by (intro good_erase_user) (auto simp: that(1) RevokeUser_find [OF g] split: option.splits if_splits)
  qed
  then show ?thesis
    using Some by (auto simp: RemoveUserLocked_def Let_def case_prod_beta frame_simps)
next
  case None
  then show ?thesis
    using g by (simp add: RemoveUserLocked_def)
qed

lemma good_Attach:
  assumes g: "good s"
  shows "good (AttachTransportLocked tr k t s)"
proof (cases "om_find k (s_users s)")
  case (Some u)
  note ok = good_user [OF g Some]
  show ?thesis
  proof (cases "IsConnected u")
    case True
    let ?u = "ResetQueriedFloorIds u"
    let ?s = "RevokeUserFloorRequestsLocked tr k (set_user k ?u s)"
    have "good (set_user k ?u s)"
      by (rule good_same_user [OF g Some]) (simp_all add: ResetQueriedFloorIds_def)
    then have "good ?s" by (rule good_RevokeUser)
    then have "good (CloseTransport k ?u ?s)"
      by (rule good_Close) (simp add: omap_simps)
    then have "good (set_user k (?u\<lparr>u_transport := Some t\<rparr>) (CloseTransport k ?u ?s))"
      by (rule good_same_user [where u = "?u\<lparr>u_transport := None\<rparr>"])
        (simp_all add: omap_simps ResetQueriedFloorIds_def)
    with True g Some show ?thesis
      by (simp add: AttachTransportLocked_def GetUserLocked_def Let_def)
  next
    case False
    have "good (set_user k (u\<lparr>u_transport := Some t\<rparr>) s)"
      using ok by (intro good_same_user [OF g Some]) (simp_all add: user_ok_def)
    with False g Some show ?thesis
      by (simp add: AttachTransportLocked_def GetUserLocked_def Let_def)
  qed
qed (use g in \<open>simp add: AttachTransportLocked_def GetUserLocked_def\<close>)

lemma good_Detach:
  assumes g: "good s"
  shows "good (DetachTransportLocked tr k s)"
proof (cases "om_find k (s_users s)")
  case (Some u)
  have "good (set_user k (ResetQueriedFloorIds (u\<lparr>u_transport := None\<rparr>)) s)"
    by (rule good_same_user [OF g Some]) (simp_all add: ResetQueriedFloorIds_def)
  with Some show ?thesis
    by (simp add: DetachTransportLocked_def GetUserLocked_def Let_def good_RevokeUser)
qed (use g in \<open>simp add: DetachTransportLocked_def GetUserLocked_def\<close>)


section \<open>Incoming primitives\<close>

lemma fold_AddFloorId:
  "fold AddFloorId fs r = r\<lparr>q_floorIds := fold os_insert fs (q_floorIds r)\<rparr>"
  by (induction fs arbitrary: r) (simp_all add: AddFloorId_def)

lemma fold_os_insert:
  "set (fold os_insert fs s) = set fs \<union> set s"
  "sorted_wrt (<) s \<Longrightarrow> sorted_wrt (<) (fold os_insert fs s)"
  by (induction fs arbitrary: s) (auto simp: set_os_insert sorted_os_insert)

lemma new_request_fields:
  defines "r \<equiv> \<lambda>k msg req c. new_request k msg req c"
  shows "q_floorRequestId (r k msg req c) = k" "q_userId (r k msg req c) = m_userId msg"
    "q_conferenceId (r k msg req c) = c"
    "q_beneficiaryId (r k msg req c) = (case mfr_beneficiaryId req of None \<Rightarrow> m_userId msg | Some b \<Rightarrow> b)"
    "set (q_floorIds (r k msg req c)) = set (mfr_floorIds req)" "sorted_wrt (<) (q_floorIds (r k msg req c))"
    "q_status (r k msg req c) = Pending" "q_queuePosition (r k msg req c) = 0"
  by (simp_all add: r_def new_request_def Let_def fold_AddFloorId fold_os_insert BFCPFloorRequest_new_def
      split: option.split)

lemma good_new_request:
  assumes "good s" and k: "k = s_floorRequestCounter s" and "q_floorRequestId r = k"
    and "q_conferenceId r = s_conferenceId s" and "om_find (q_userId r) (s_users s) \<noteq> None"
    and "om_find (q_beneficiaryId r) (s_users s) \<noteq> None" and "set (q_floorIds r) \<subseteq> set (s_floors s)"
    and "sorted_wrt (<) (q_floorIds r)" and "q_status r = Pending" and "q_queuePosition r = 0"
  shows "good (set_request k r (s\<lparr>s_floorRequestCounter := k + 1\<rparr>))"
proof -
  let ?s = "set_request k r (s\<lparr>s_floorRequestCounter := k + 1\<rparr>)"
  have c: "consistent s" using assms(1) by (simp add: good_def)
  have fresh: "om_find k (s_floorRequests s) = None"
  proof (rule ccontr)
    assume "om_find k (s_floorRequests s) \<noteq> None"
    then obtain q where "om_find k (s_floorRequests s) = Some q" by blast
    from good_request [OF assms(1) this] show False by (simp add: request_ok_def k)
  qed
  have "exclusive (om_put k r (s_floorRequests s))"
    using c assms(9) by (auto simp: consistent_def exclusive_def omap_simps IsGranted_def)
  moreover have "request_ok ?s k r"
    using assms c by (simp add: request_ok_def set_request_def consistent_def)
  moreover have "request_ok s j q \<Longrightarrow> request_ok ?s j q" "user_ok s j u \<Longrightarrow> user_ok ?s j u" for j q u
    by (simp_all add: request_ok_def user_ok_def set_request_def k)
  ultimately have c': "consistent ?s"
    using c by (simp add: consistent_def omap_simps om_sorted_put k) (simp add: set_request_def)
  have "holders ?s = holders s"
    using fresh assms(9) by (intro holders_eqI [OF c'])
      (auto simp: holders_iff [OF c] omap_simps IsGranted_def split: if_splits)
  with assms(1) c' show ?thesis
    by (simp add: good_def tracked_def) (simp add: heard_def)
qed

lemma good_FloorRequest:
  assumes g: "good s" and u: "om_find (m_userId msg) (s_users s) = Some user"
  shows "good (ProcessFloorRequestLocked tr msg req user s)"
proof (cases "list_ex (\<lambda>f. \<not> HasFloorLocked f s) (mfr_floorIds req)
    \<or> (case mfr_beneficiaryId req of None \<Rightarrow> False | Some b \<Rightarrow> GetUserLocked b s = None)")
  case True
  then show ?thesis
    using g good_core_eq [OF core_ReplyError g] by (auto simp: ProcessFloorRequestLocked_def)
next
  case False
  let ?k = "s_floorRequestCounter s"
  let ?r = "new_request ?k msg req (s_conferenceId s)"
  let ?s = "set_request ?k ?r (s\<lparr>s_floorRequestCounter := ?k + 1\<rparr>)"
  let ?t = "SendFloorRequestStatusLocked tr ?r (m_transactionId msg) (m_userId msg) [] True ?s"
  have "set (mfr_floorIds req) \<subseteq> set (s_floors s)"
    using False by (auto simp: list_ex_iff HasFloorLocked_def)
  then have "good ?s"
    using False u by (intro good_new_request [OF g refl])
      (auto simp: new_request_fields GetUserLocked_def split: option.splits)
  then have "good ?t"
    by (rule good_core_eq [OF core_SendFloorRequestStatus])
  then show ?thesis
    using False by (simp add: ProcessFloorRequestLocked_def Let_def good_Grant good_push)
qed

lemma good_FloorRelease:
  assumes g: "good s" and "\<not> s_ending s" and p: "ProcessFloorReleaseLocked tr msg req user s = Some t"
  shows "good t"
proof -
  have E: "good (ReplyErrorLocked msg to c info s)" for to c info
    by (rule good_core_eq [OF core_ReplyError g])
  from p obtain k where k: "req = Some k"
    by (auto simp: ProcessFloorReleaseLocked_def split: option.splits)
  show ?thesis
  proof (cases "\<exists>to c info. t = ReplyErrorLocked msg to c info s")
    case False
    then obtain r where r: "om_find k (s_floorRequests s) = Some r"
      using p by (auto simp: ProcessFloorReleaseLocked_def GetFloorRequestLocked_def k split: option.splits)
    have "core t = core (if IsGranted r then released k r (erase_request k s) else erase_request k s)"
      using p False assms(2) by (auto simp: ProcessFloorReleaseLocked_def GetFloorRequestLocked_def k r Let_def
        released_def push_back_def set_request_def erase_request_def omap_simps intro!: core_eqI split: if_splits)
    then show ?thesis
      by (rule good_core_eq) (use good_released [OF g r] good_erase_pending [OF g r] in simp)
  qed (use E in blast)
qed

lemma fold_AddQueried:
  "fold AddQueriedFloorId fs u = u\<lparr>u_queriedFloorIds := fold (\<lambda>f l. if f \<in> set l then l else l @ [f]) fs (u_queriedFloorIds u)\<rparr>"
  by (induction fs arbitrary: u) (simp_all add: AddQueriedFloorId_def HasQueriedFloorId_def)

lemma fold_queried:
  "set (fold (\<lambda>f l. if f \<in> set l then l else l @ [f]) fs l) = set fs \<union> set l"
  "distinct l \<Longrightarrow> distinct (fold (\<lambda>f l. if f \<in> set l then l else l @ [f]) fs l)"
  by (induction fs arbitrary: l) auto

lemma core_query_reply [frame_simps]: "core (query_reply tr msg u x s) = core s"
  by (simp add: query_reply_def case_prod_beta frame_simps)

lemma good_FloorQuery:
  assumes g: "good s" and u: "om_find k (s_users s) = Some user"
  shows "good (ProcessFloorQueryLocked tr msg req k user s)"
proof (cases "list_ex (\<lambda>f. \<not> HasFloorLocked f s) req")
  case True
  then show ?thesis
    using good_core_eq [OF core_ReplyError g] by (simp add: ProcessFloorQueryLocked_def)
next
  case False
  let ?u = "fold AddQueriedFloorId req (ResetQueriedFloorIds user)"
  have "set req \<subseteq> set (s_floors s)"
    using False by (auto simp: list_ex_iff HasFloorLocked_def)
  then have "good (set_user k ?u s)"
    by (intro good_same_user [OF g u]) (simp_all add: fold_AddQueried fold_queried ResetQueriedFloorIds_def)
  moreover have "core (ProcessFloorQueryLocked tr msg req k user s) = core (set_user k ?u s)"
    using False by (simp add: ProcessFloorQueryLocked_def Let_def frame_simps core_fold)
  ultimately show ?thesis
    by (auto intro: good_core_eq)
qed

lemma good_Hello: "good s \<Longrightarrow> good (ProcessHelloLocked tr msg user s)"
  unfolding ProcessHelloLocked_def Let_def case_prod_beta
  by (intro good_push) (auto intro: good_core_eq simp: frame_simps)

lemma good_Goodbye: "good s \<Longrightarrow> good (ProcessGoodbyeLocked tr msg user s)"
  unfolding ProcessGoodbyeLocked_def Let_def
  by (intro good_RemoveUser) (rule good_core_eq [OF core_SendMessage])

lemma good_dispatch:
  assumes "good s" and "\<not> s_ending s" and "om_find (m_userId msg) (s_users s) = Some user"
    and "dispatch_primitive tr msg t user s = Some s'"
  shows "good s'"
  using assms good_core_eq [OF core_ReplyError assms(1)]
  by (auto simp: dispatch_primitive_def Let_def good_FloorRequest good_FloorQuery good_Hello good_Goodbye
      good_FloorRelease split: BFCPBody.splits if_splits)

lemma good_Fire [simp]: "good (Fire s) = good s"
  by (simp add: good_def consistent_def user_ok_def request_ok_def tracked_def heard_def holders_def Fire_def)

lemma Attach_user:
  assumes "om_find k (s_users s) = Some u"
  shows "om_find j (s_users (AttachTransportLocked tr k t s)) =
    (if j = k then Some (if u_transport u = Some t then u
       else (if IsConnected u then ResetQueriedFloorIds u else u)\<lparr>u_transport := Some t\<rparr>)
     else om_find j (s_users s))"
  using assms by (auto simp: AttachTransportLocked_def GetUserLocked_def Let_def omap_simps)

lemma Attach_ending [simp]: "s_ending (AttachTransportLocked tr k t s) = s_ending s"
  by (simp add: AttachTransportLocked_def Let_def split: option.split)

lemma good_MessageReceived:
  assumes "good s" and "MessageReceived tr msg t s = Some s'"
  shows "good s'"
  using assms good_core_eq [OF core_ReplyError assms(1)]
  by (auto simp: MessageReceived_def GetUserLocked_def Let_def Attach_user split: if_splits option.splits
      elim!: good_dispatch [rotated 3] intro: good_Attach)


section \<open>Steps\<close>

text \<open>Every call but \<open>MessageReceived\<close>.\<close>

inductive call_step :: "transports \<Rightarrow> server \<Rightarrow> server \<Rightarrow> bool" for tr where
  step_AddUser: "AddUser userId s = (ok, s') \<Longrightarrow> call_step tr s s'"
| step_RemoveUser: "RemoveUser tr userId s = (ok, s') \<Longrightarrow> call_step tr s s'"
| step_SetChair: "SetChair userId s = (ok, s') \<Longrightarrow> call_step tr s s'"
| step_AddFloor: "AddFloor floorId s = (ok, s') \<Longrightarrow> call_step tr s s'"
| step_Grant: "GrantFloorRequest tr floorRequestId s = (ok, s') \<Longrightarrow> call_step tr s s'"
| step_Deny: "DenyFloorRequest tr floorRequestId info s = (ok, s') \<Longrightarrow> call_step tr s s'"
| step_Revoke: "RevokeFloorRequest tr floorRequestId info s = (ok, s') \<Longrightarrow> call_step tr s s'"
| step_NotifyFloorStatus: "NotifyFloorStatus tr userId floorId s = (ok, s') \<Longrightarrow> call_step tr s s'"
| step_End: "call_step tr s (End tr s)"
| step_UserConnected: "UserConnected tr userId t s = (ok, s') \<Longrightarrow> call_step tr s s'"
| step_UserDisconnected: "call_step tr s (UserDisconnected tr userId t s)"
| step_TransportClosed: "call_step tr s (TransportClosed tr t s)"

inductive_cases call_stepE: "call_step tr s s'"

inductive server_step :: "transports \<Rightarrow> server \<Rightarrow> server \<Rightarrow> bool" for tr where
  step_call: "call_step tr s s' \<Longrightarrow> server_step tr s s'"
| step_MessageReceived: "MessageReceived tr msg t s = Some s' \<Longrightarrow> server_step tr s s'"

inductive_cases server_stepE: "server_step tr s s'"

definition server_inv :: "server \<Rightarrow> bool" where
  "server_inv s \<longleftrightarrow> good s \<and> s_pending s = [] \<and> (s_ending s \<longrightarrow> s_users s = [] \<and> s_floorRequests s = [])"

lemma inv_core [simp]: "server_inv (core s) = server_inv s"
  by (simp add: server_inv_def) (simp add: core_def)

lemma inv_core_eq: "core s = core t \<Longrightarrow> server_inv t \<Longrightarrow> server_inv s"
  using inv_core [of s] inv_core [of t] by simp

lemma inv_Fire: "good s \<Longrightarrow> \<not> s_ending s \<Longrightarrow> server_inv (Fire s)"
  by (simp add: server_inv_def) (simp add: Fire_def)

lemma ending_frame [simp]:
  "s_ending (snd (RemoveUserLocked tr k b s)) = s_ending s"
  "s_ending (DetachTransportLocked tr k s) = s_ending s"
  by (simp_all add: RemoveUserLocked_def DetachTransportLocked_def Let_def case_prod_beta split: option.split)

lemma ending_dispatch:
  "dispatch_primitive tr msg t u s = Some s' \<Longrightarrow> s_ending s' = s_ending s"
proof -
  have q: "s_ending (fold (query_reply tr msg u) xs s) = s_ending s" for u xs s
    by (rule core_eqD(6)) (simp add: core_fold core_query_reply)
  show "dispatch_primitive tr msg t u s = Some s' \<Longrightarrow> s_ending s' = s_ending s"
    by (auto simp: dispatch_primitive_def Let_def ProcessFloorRequestLocked_def ProcessFloorReleaseLocked_def
      ProcessFloorQueryLocked_def ProcessHelloLocked_def ProcessGoodbyeLocked_def case_prod_beta q
      split: BFCPBody.splits if_splits option.splits)
qed

lemma inv_AddUser:
  assumes "server_inv s"
  shows "server_inv (snd (AddUser k s))"
proof (cases "\<not> s_ending s \<and> 1 \<le> k \<and> k \<le> 65535 \<and> om_find k (s_users s) = None")
  case True
  let ?u = "BFCPUser_new k (s_conferenceId s)"
  from assms have g: "good s" by (simp add: server_inv_def)
  have "one_chair (om_put k ?u (s_users s))"
    using g by (auto simp: good_def consistent_def one_chair_def omap_simps BFCPUser_new_def split: if_splits)
  moreover have "user_ok s k ?u"
    using True by (simp add: user_ok_def BFCPUser_new_def)
  ultimately have "good (set_user k ?u s)"
    using g by (auto simp: good_def consistent_def tracked_def heard_def holders_def user_ok_def request_ok_def
      omap_simps om_sorted_put)
  then show ?thesis
    using True assms by (auto simp: AddUser_def server_inv_def)
qed (use assms in \<open>auto simp: AddUser_def\<close>)

lemma inv_SetChair:
  assumes "server_inv s"
  shows "server_inv (snd (SetChair k s))"
proof (cases "s_ending s \<or> om_find k (s_users s) = None")
  case False
  then obtain u where u: "om_find k (s_users s) = Some u" by auto
  let ?m = "om_put k (u\<lparr>u_isChair := True\<rparr>) (om_map (\<lambda>u. u\<lparr>u_isChair := False\<rparr>) (s_users s))"
  from assms have g: "good s" by (simp add: server_inv_def)
  have "one_chair ?m"
    by (auto simp: one_chair_def omap_simps split: if_splits)
  moreover have "user_ok (s\<lparr>s_users := ?m\<rparr>) j v" if "om_find j ?m = Some v" for j v
    using that good_user [OF g, of j] u by (auto simp: user_ok_def omap_simps split: if_splits)
  moreover have "om_find j ?m = None \<longleftrightarrow> om_find j (s_users s) = None" for j
    using u by (simp add: omap_simps)
  ultimately have "good (s\<lparr>s_users := ?m\<rparr>)"
    using g by (simp add: good_def consistent_def tracked_def heard_def holders_def request_ok_def
      om_sorted_put om_sorted_map)
  then show ?thesis
    using False u assms by (simp add: SetChair_def GetUserLocked_def Let_def server_inv_def set_user_def)
qed (use assms in \<open>auto simp: SetChair_def GetUserLocked_def\<close>)

lemma inv_AddFloor:
  assumes "server_inv s"
  shows "server_inv (snd (AddFloor f s))"
proof (cases "\<not> s_ending s \<and> 1 \<le> f \<and> f \<le> 65535 \<and> \<not> HasFloorLocked f s")
  case True
  let ?s = "s\<lparr>s_floors := os_insert f (s_floors s)\<rparr>"
  have "user_ok s k u \<Longrightarrow> user_ok ?s k u" "request_ok s k r \<Longrightarrow> request_ok ?s k r" for k u r
    by (auto simp: user_ok_def request_ok_def set_os_insert)
  moreover have "heard ?s = heard s" "holders ?s = holders s"
    by (simp_all add: heard_def holders_def)
  ultimately have "good ?s"
    using assms True
    by (auto simp: server_inv_def good_def consistent_def tracked_def set_os_insert sorted_os_insert)
  then show ?thesis
    using assms True by (simp add: AddFloor_def server_inv_def)
qed (use assms in \<open>auto simp: AddFloor_def\<close>)

lemma inv_End:
  assumes "server_inv s"
  shows "server_inv (End tr s)"
proof (cases "s_ending s")
  case False
  let ?s0 = "s\<lparr>s_ending := True\<rparr>"
  let ?s1 = "fold (end_request tr (str ''conference ended'')) (om_keys (s_floorRequests s)) ?s0"
  let ?s2 = "fold (end_user tr) (s_users ?s1) (?s1\<lparr>s_floorRequests := []\<rparr>)"
  have u: "setting (end_user tr x t) = setting (t\<lparr>s_users := s_users (end_user tr x t)\<rparr>)
      \<and> s_floorRequests (end_user tr x t) = s_floorRequests t" for x t
    by (cases x) (simp add: end_user_def Let_def case_prod_beta setting_def)
  let ?P = "\<lambda>t. s_ending t \<and> s_floorRequests t = [] \<and> s_floors t = s_floors s
      \<and> s_floorRequestCounter t = s_floorRequestCounter s \<and> s_conferenceId t = s_conferenceId s"
  have "?P ?s2"
    by (rule fold_inv [where P = ?P]) (use u in \<open>auto simp: setting_def\<close>)
  then show ?thesis
    using assms False
    by (simp add: End_def Let_def server_inv_def good_def consistent_def tracked_def exclusive_def one_chair_def Fire_def)
qed (use assms in \<open>simp add: End_def\<close>)


lemma inv_MessageReceived:
  assumes "server_inv s" and "MessageReceived tr msg t s = Some s'"
  shows "server_inv s'"
proof (cases "\<exists>to c info. s' = ReplyErrorLocked msg to c info s \<or> s' = s")
  case True
  then show ?thesis
    using assms(1) inv_core_eq [OF core_ReplyError] by auto
next
  case False
  have "good s'"
    using assms by (auto simp: server_inv_def intro: good_MessageReceived)
  moreover from False assms(2) obtain t' where "s' = Fire t'" "\<not> s_ending t'"
    by (auto simp: MessageReceived_def Let_def split: if_splits option.splits dest!: ending_dispatch)
  ultimately show ?thesis
    by (simp add: inv_Fire)
qed

lemma inv_Revoke:
  assumes "server_inv s"
  shows "server_inv (snd (RevokeFloorRequest tr k info s))" "server_inv (snd (DenyFloorRequest tr k info s))"
proof -
  have g: "good s" using assms by (simp add: server_inv_def)
  have "s_ending s \<Longrightarrow> GetFloorRequestLocked k s = None" and f: "Fire s = s"
    using assms by (simp_all add: server_inv_def GetFloorRequestLocked_def Fire_def)
  then show "server_inv (snd (RevokeFloorRequest tr k info s))" "server_inv (snd (DenyFloorRequest tr k info s))"
    using assms inv_Fire [OF good_Revoke [OF g]] inv_Fire [OF good_Deny [OF g]]
    by (cases "s_ending s"; simp add: RevokeFloorRequest_def DenyFloorRequest_def case_prod_beta;
        simp add: RevokeFloorRequestLocked_def DenyFloorRequestLocked_def f)+
qed

lemma inv_disconnected:
  assumes "server_inv s"
  shows "server_inv (UserDisconnected tr k t s)" "server_inv (TransportClosed tr t s)"
proof -
  have g: "good s" using assms by (simp add: server_inv_def)
  have "s_ending s \<Longrightarrow> s_users s = []"
    using assms by (simp add: server_inv_def)
  then show "server_inv (UserDisconnected tr k t s)" "server_inv (TransportClosed tr t s)"
    using assms inv_Fire [OF good_Detach [OF g]]
    by (cases "s_ending s"; simp add: UserDisconnected_def TransportClosed_def GetUserLocked_def
      split: option.split list.split prod.split)+
qed

lemma inv_snd: "p = (ok, s') \<Longrightarrow> server_inv (snd p) \<Longrightarrow> server_inv s'"
  by simp

lemma inv_call:
  assumes "call_step tr s s'" and i: "server_inv s"
  shows "server_inv s'"
proof -
  have g: "good s" using i by (simp add: server_inv_def)
  from assms(1) show ?thesis
  proof cases
    case (step_RemoveUser k ok)
    then show ?thesis
      using i inv_Fire [OF good_RemoveUser [OF g]]
      by (auto simp: RemoveUser_def case_prod_beta split: if_splits)
  next
    case (step_Grant k ok)
    then show ?thesis
      using i inv_Fire [OF good_Grant [OF g]]
      by (auto simp: GrantFloorRequest_def case_prod_beta split: if_splits)
  next
    case (step_NotifyFloorStatus k f ok)
    then have "core s' = core s"
      using core_SendMessage core_Notification
      by (auto simp: NotifyFloorStatus_def case_prod_beta split: if_splits option.splits dest!: arg_cong [of _ _ snd])
    then show ?thesis
      using i by (rule inv_core_eq)
  next
    case (step_UserConnected k t ok)
    then show ?thesis
      using i inv_Fire [OF good_Attach [OF g]]
      by (auto simp: UserConnected_def split: if_splits option.splits)
  qed (use i in \<open>auto simp: inv_End inv_disconnected intro: inv_snd [OF _ inv_AddUser [OF i]]
    inv_snd [OF _ inv_SetChair [OF i]] inv_snd [OF _ inv_AddFloor [OF i]] inv_snd [OF _ inv_Revoke(1) [OF i]]
    inv_snd [OF _ inv_Revoke(2) [OF i]]\<close>)
qed

lemma inv_step: "server_inv s \<Longrightarrow> server_step tr s s' \<Longrightarrow> server_inv s'"
  by (auto elim!: server_stepE intro: inv_call inv_MessageReceived)

interpretation srv: invariant_system "\<lambda>s. \<exists>c. s = BFCPFloorControlServer_new c" "server_step tr" server_inv for tr
proof
  fix s assume "\<exists>c. s = BFCPFloorControlServer_new c"
  then show "server_inv s"
    by (auto simp: BFCPFloorControlServer_new_def server_inv_def good_def consistent_def tracked_def heard_def holders_def
      exclusive_def one_chair_def)
qed (rule inv_step)

end
