(* ===== verification/BfcpFloorControl.thy ===== *)
theory BfcpFloorControl
  imports BfcpInvariant
begin

text \<open>
  What the floor control server promises, proved from the invariant of \<open>BfcpInvariant\<close> for every
  state a sequence of public operations can reach (\<open>reachable\<close>). The small conference of the first
  section is where the theorems are tried on concrete operations.
\<close>

section \<open>A conference to try things on\<close>

definition tcp :: transports where
  "tcp = \<lparr>tr_IsReliable = (\<lambda>_. True), tr_Send = (\<lambda>_ _. True)\<rparr>"

definition ask :: "int \<Rightarrow> int list \<Rightarrow> BFCPMessage" where
  "ask userId floors = BFCPMessage_new
     (MsgFloorRequest \<lparr>mfr_floorIds = floors, mfr_beneficiaryId = None, mfr_participantProvidedInfo = None\<rparr>) 5 7 userId"

definition give_back :: "int \<Rightarrow> int \<Rightarrow> BFCPMessage" where
  "give_back userId k = BFCPMessage_new (MsgFloorRelease (Some k)) 6 7 userId"

definition greet :: "int \<Rightarrow> BFCPMessage" where
  "greet userId = BFCPMessage_new MsgHello 1 7 userId"

definition room :: server where
  "room = snd (AddFloor 2 (snd (AddFloor 1 (snd (AddUser 12 (snd (AddUser 11 (BFCPFloorControlServer_new 7))))))))"

definition asked :: server where
  "asked = the (MessageReceived tcp (ask 12 [2]) 200 (the (MessageReceived tcp (ask 11 [1]) 100 room)))"

definition granted :: server where
  "granted = snd (GrantFloorRequest tcp 2 (snd (GrantFloorRequest tcp 1 asked)))"

definition reachable :: "transports \<Rightarrow> server \<Rightarrow> bool" where
  "reachable tr s \<longleftrightarrow> (\<exists>c. (server_step tr)\<^sup>*\<^sup>* (BFCPFloorControlServer_new c) s)"

lemma reachable_server_inv: "reachable tr s \<Longrightarrow> server_inv s"
  unfolding reachable_def by (auto intro: srv.reachable_inv)

lemma reachable_good: "reachable tr s \<Longrightarrow> good s"
  using reachable_server_inv by (auto simp: server_inv_def)

lemma reachable_step: "reachable tr s \<Longrightarrow> server_step tr s s' \<Longrightarrow> reachable tr s'"
  unfolding reachable_def by (meson rtranclp.rtrancl_into_rtrancl)

lemma reachable_new: "reachable tr (BFCPFloorControlServer_new c)"
  by (auto simp: reachable_def)

lemma reachable_ops:
  assumes "reachable tr s"
  shows "reachable tr (snd (AddUser u s))" "reachable tr (snd (AddFloor f s))" "reachable tr (snd (SetChair u s))"
    "reachable tr (snd (GrantFloorRequest tr k s))"
  using reachable_step [OF assms step_call] call_step.intros prod.collapse by metis+

lemma dispatch_total:
  "IsValid (m_body msg) \<Longrightarrow> dispatch_primitive tr msg t user s \<noteq> None"
  by (auto simp: dispatch_primitive_def ProcessFloorReleaseLocked_def BFCPMsgFloorRelease_IsValid_def Let_def
      split: BFCPBody.splits)

lemma MessageReceived_valid:
  assumes "IsValid (m_body msg)"
  shows "MessageReceived tr msg t s \<noteq> None"
  using dispatch_total [OF assms]
  by (auto simp: MessageReceived_def GetUserLocked_def Let_def Attach_user split: option.splits)

lemma reachable_message:
  assumes "reachable tr s" and "IsValid (m_body msg)"
  shows "reachable tr (the (MessageReceived tr msg t s))"
  using reachable_step [OF assms(1) step_MessageReceived] MessageReceived_valid [OF assms(2)] by fastforce

lemma ask_valid: "fs \<noteq> [] \<Longrightarrow> IsValid (m_body (ask u fs))" "IsValid (m_body (give_back u k))" "IsValid (m_body (greet u))"
  by (simp_all add: ask_def give_back_def greet_def BFCPMessage_new_def BFCPMsgFloorRequest_IsValid_def
      BFCPMsgFloorRelease_IsValid_def)

lemma reachable_room: "reachable tcp room"
  unfolding room_def by (intro reachable_ops reachable_new)

lemma reachable_granted: "reachable tcp asked" "reachable tcp granted"
  unfolding granted_def asked_def by (intro reachable_ops reachable_message reachable_room ask_valid; simp)+

section \<open>Properties\<close>

text \<open>
  C1. Floor control: in every state the server can reach, two different granted requests have no
  floor in common.
\<close>

theorem floor_exclusive:
  assumes "reachable tr s" and "om_find j (s_floorRequests s) = Some q" and "om_find k (s_floorRequests s) = Some r"
    and "IsGranted q" and "IsGranted r" and "j \<noteq> k"
  shows "set (q_floorIds q) \<inter> set (q_floorIds r) = {}"
proof -
  have "exclusive (s_floorRequests s)"
    using reachable_good [OF assms(1)] by (simp add: good_def consistent_def)
  with assms show ?thesis
    unfolding exclusive_def by blast
qed

definition request_of :: "int \<Rightarrow> server \<Rightarrow> BFCPFloorRequest" where
  "request_of k s = the (om_find k (s_floorRequests s))"

theorem floor_exclusive_witness:
  "set (q_floorIds (request_of 1 granted)) \<inter> set (q_floorIds (request_of 2 granted)) = {}"
proof (rule floor_exclusive [OF reachable_granted(2)])
  show "om_find 1 (s_floorRequests granted) = Some (request_of 1 granted)" by code_simp
  show "om_find 2 (s_floorRequests granted) = Some (request_of 2 granted)" by code_simp
  show "IsGranted (request_of 1 granted)" by code_simp
  show "IsGranted (request_of 2 granted)" by code_simp
qed simp

lemma GetGranted_holders:
  assumes "\<not> s_ending s" and "HasFloorLocked f s"
  shows "GetGrantedFloorRequestId f s = (case holders s f of None \<Rightarrow> 0 | Some k \<Rightarrow> k)"
proof -
  have "(case filter IsGranted (filter (\<lambda>r. HasFloorId r f) xs) of [] \<Rightarrow> 0 | r # _ \<Rightarrow> q_floorRequestId r)
    = (case map_option q_floorRequestId (List.find (\<lambda>r. IsGranted r \<and> HasFloorId r f) xs) of None \<Rightarrow> 0 | Some k \<Rightarrow> k)" for xs
    by (induction xs) auto
  then show ?thesis
    using assms by (simp add: GetGrantedFloorRequestId_def GetFloorRequestsForFloorLocked_def holders_def)
qed



text \<open>
  C19. No request outlives what it refers to: in every reachable state each request stands under
  its own id, below the counter, with an existing requester, an existing beneficiary and existing
  floors, and is Pending or Granted; the other statuses only ever appear in messages.
\<close>

theorem requests_refer:
  assumes "reachable tr s" and "om_find k (s_floorRequests s) = Some r"
  shows "q_floorRequestId r = k \<and> 1 \<le> k \<and> k < s_floorRequestCounter s
    \<and> GetUserLocked (q_userId r) s \<noteq> None \<and> GetUserLocked (q_beneficiaryId r) s \<noteq> None
    \<and> (\<forall>f. HasFloorId r f \<longrightarrow> HasFloorLocked f s) \<and> (q_status r = Pending \<or> q_status r = Granted)"
  using good_request [OF reachable_good [OF assms(1)] assms(2)]
  by (auto simp: request_ok_def GetUserLocked_def HasFloorId_def HasFloorLocked_def)

theorem requests_refer_witness: "GetUserLocked (q_userId (request_of 2 granted)) granted \<noteq> None"
proof -
  have "om_find 2 (s_floorRequests granted) = Some (request_of 2 granted)" by code_simp
  from requests_refer [OF reachable_granted(2) this] show ?thesis by blast
qed


text \<open>
  The pointers of \<open>others\<close> in \<open>GrantFloorRequestLocked\<close> when the loop comes to them.
\<close>

lemma others_distinct: "good s \<Longrightarrow> distinct (GetFloorRequestsForFloorsLocked fs s)"
  by (auto simp: GetFloorRequestsForFloorsLocked_def good_def consistent_def om_sorted_def om_keys_def
      strict_sorted_iff distinct_map inj_on_def)

lemma others_iff:
  assumes "good s"
  shows "j \<in> set (GetFloorRequestsForFloorsLocked fs s) \<longleftrightarrow>
    (\<exists>q. om_find j (s_floorRequests s) = Some q \<and> (\<exists>f \<in> set fs. HasFloorId q f))"
proof -
  have "om_sorted (s_floorRequests s)"
    using assms by (simp add: good_def consistent_def)
  then show ?thesis
    unfolding GetFloorRequestsForFloorsLocked_def by (auto simp: list_ex_iff om_in_iff image_iff split_beta)
qed

lemma others_found: "good s \<Longrightarrow> j \<in> set (GetFloorRequestsForFloorsLocked fs s) \<Longrightarrow> om_find j (s_floorRequests s) \<noteq> None"
  by (auto simp: GetFloorRequestsForFloorsLocked_def good_def consistent_def dest: om_in_find)

text \<open>
  No dangling pointer in the loop of \<open>GrantFloorRequestLocked\<close>: the vector \<open>others\<close> is computed
  before the loop and the loop deletes requests, but the request a turn looks at is still in the
  map, unchanged, when its turn comes, and so is the request being granted.
\<close>

theorem others_valid:
  assumes "reachable tr s" and "om_find k (s_floorRequests s) = Some r"
    and "GetFloorRequestsForFloorsLocked (q_floorIds r) s = js @ j # rest"
  shows "om_find j (s_floorRequests (fold (revoke_other tr k) js s)) = om_find j (s_floorRequests s)
    \<and> om_find j (s_floorRequests s) \<noteq> None
    \<and> om_find k (s_floorRequests (fold (revoke_other tr k) js s)) = Some r"
proof -
  have g: "good s" by (rule reachable_good [OF assms(1)])
  then show ?thesis
    using others_distinct [OF g, of "q_floorIds r"] others_found [OF g, of j "q_floorIds r"] assms(2)
    by (simp add: revoke_others_find assms(3))
qed

definition rival :: server where
  "rival = the (MessageReceived tcp (ask 12 [1, 2]) 200 granted)"

lemma reachable_rival: "reachable tcp rival"
  unfolding rival_def by (intro reachable_message reachable_granted ask_valid) simp

theorem others_valid_witness:
  "om_find 2 (s_floorRequests (fold (revoke_other tcp 3) [1] rival)) = om_find 2 (s_floorRequests rival)"
proof -
  have "om_find 3 (s_floorRequests rival) = Some (request_of 3 rival)"
    and "GetFloorRequestsForFloorsLocked (q_floorIds (request_of 3 rival)) rival = [1] @ 2 # [3]"
    by code_simp+
  from others_valid [OF reachable_rival this] show ?thesis by blast
qed

text \<open>
  C20. Granting: a pending request is granted whoever holds its floors. Afterwards it holds all of
  them, every granted request that shared one of them is gone, and every other request is what
  it was.
\<close>

theorem GrantFloorRequest_grants:
  assumes "reachable tr s" and "\<not> s_ending s" and r: "om_find k (s_floorRequests s) = Some r"
    and "q_status r = Pending" and "GrantFloorRequest tr k s = (ok, s')"
  shows "ok \<and> (\<forall>f. HasFloorId r f \<longrightarrow> holders s' f = Some k)
    \<and> (\<forall>j. om_find j (s_floorRequests s') =
        (if j = k then Some (r\<lparr>q_status := Granted\<rparr>)
         else case om_find j (s_floorRequests s) of
           None \<Rightarrow> None
         | Some q \<Rightarrow> if IsGranted q \<and> (\<exists>f. HasFloorId q f \<and> HasFloorId r f) then None else Some q))"
proof -
  have g: "good s" by (rule reachable_good [OF assms(1)])
  have can: "CanBeGranted r" using assms(4) by (simp add: CanBeGranted_def)
  let ?js = "GetFloorRequestsForFloorsLocked (q_floorIds r) s"
  let ?t = "snd (GrantFloorRequestLocked tr k s)"
  have s': "s' = Fire ?t" and "ok = fst (GrantFloorRequestLocked tr k s)"
    using assms(2,5) by (auto simp: GrantFloorRequest_def case_prod_beta)
  then have ok: "ok"
    using r can by (simp add: GrantFloorRequestLocked_def GetFloorRequestLocked_def Let_def)
  have mem: "j \<in> set ?js \<longleftrightarrow> (\<exists>q. om_find j (s_floorRequests s) = Some q \<and> (\<exists>f. HasFloorId q f \<and> HasFloorId r f))" for j
    using others_iff [OF g] by (auto simp: HasFloorId_def)
  have reqs: "s_floorRequests s' = om_put k (r\<lparr>q_status := Granted\<rparr>) (s_floorRequests (fold (revoke_other tr k) ?js s))"
    using core_eqD(4) [OF Grant_core [OF r can]] by (simp add: s' Fire_def)
  have find: "om_find j (s_floorRequests s') =
      (if j = k then Some (r\<lparr>q_status := Granted\<rparr>)
       else case om_find j (s_floorRequests s) of
         None \<Rightarrow> None
       | Some q \<Rightarrow> if IsGranted q \<and> (\<exists>f. HasFloorId q f \<and> HasFloorId r f) then None else Some q)" for j
    by (auto simp: reqs omap_simps revoke_others_find [OF g] mem split: option.splits)
  have "consistent s'"
    using good_Grant [OF g, of tr k] by (simp add: s' good_def consistent_def user_ok_def request_ok_def Fire_def)
  then have "HasFloorId r f \<Longrightarrow> holders s' f = Some k" for f
    using find [of k] by (simp add: holders_iff HasFloorId_def IsGranted_def)
  with ok find show ?thesis by blast
qed

theorem GrantFloorRequest_grants_witness:
  "holders (snd (GrantFloorRequest tcp 3 rival)) 1 = Some 3
    \<and> om_find 1 (s_floorRequests (snd (GrantFloorRequest tcp 3 rival))) = None"
proof -
  have 1: "\<not> s_ending rival" "om_find 3 (s_floorRequests rival) = Some (request_of 3 rival)"
    "q_status (request_of 3 rival) = Pending"
    by code_simp+
  have 2: "HasFloorId (request_of 3 rival) 1" "HasFloorId (request_of 1 rival) 1" "IsGranted (request_of 1 rival)"
    "om_find 1 (s_floorRequests rival) = Some (request_of 1 rival)"
    by code_simp+
  from GrantFloorRequest_grants [OF reachable_rival 1, of "fst (GrantFloorRequest tcp 3 rival)"
    "snd (GrantFloorRequest tcp 3 rival)"] 2
  show ?thesis by auto
qed


text \<open>A message from a user on the transport it is attached to goes to the \<open>switch\<close>.\<close>

lemma MessageReceived_own:
  assumes "\<not> s_ending s" and "m_conferenceId msg = s_conferenceId s"
    and "GetUserLocked (m_userId msg) s = Some user" and "u_transport user = Some t"
  shows "MessageReceived tr msg t s = map_option Fire (dispatch_primitive tr msg t user s)"
  using assms by (simp add: MessageReceived_def)

lemma Fire_idle: "server_inv s \<Longrightarrow> Fire s = s"
  by (simp add: Fire_def server_inv_def)

lemma Fire_emit: "Fire (emit e s) = emit e (Fire s)"
  by (simp add: Fire_def emit_def)

definition answers :: "tid \<Rightarrow> BFCPMessage \<Rightarrow> ErrorCodes \<Rightarrow> string \<Rightarrow> effect" where
  "answers t msg code info = SentTo t ((BFCPMsgError_reply msg (error_code code) (str info))\<lparr>m_responder := True\<rparr>)"

lemma ReplyError_emit: "ReplyErrorLocked msg (Some t) code (str info) s = emit (answers t msg code info) s"
  by (simp add: ReplyErrorLocked_def answers_def)

text \<open>
  Who may release: a FloorRelease from a user that is neither the requester, nor the
  beneficiary, nor a chair gets the error UnauthorizedOperation on its own transport, and nothing
  else happens.
\<close>

theorem FloorRelease_refused:
  assumes "reachable tr s" and "\<not> s_ending s" and "m_conferenceId msg = s_conferenceId s"
    and "GetUserLocked (m_userId msg) s = Some user" and "u_transport user = Some t"
    and "m_body msg = MsgFloorRelease (Some k)" and "om_find k (s_floorRequests s) = Some r"
    and "m_userId msg \<noteq> q_userId r" and "m_userId msg \<noteq> q_beneficiaryId r" and "\<not> u_isChair user"
  shows "MessageReceived tr msg t s =
    Some (emit (answers t msg UnauthorizedOperation ''you cannot release that FloorRequest'') s)"
proof -
  have "u_userId user = m_userId msg"
    using good_user [OF reachable_good [OF assms(1)]] assms(4) by (simp add: GetUserLocked_def user_ok_def)
  then show ?thesis
    using assms Fire_idle [OF reachable_server_inv [OF assms(1)]]
    by (simp add: MessageReceived_own dispatch_primitive_def ProcessFloorReleaseLocked_def GetFloorRequestLocked_def
      ReplyError_emit Fire_emit)
qed

theorem FloorRelease_refused_witness:
  "MessageReceived tcp (give_back 12 1) 200 granted =
    Some (emit (answers 200 (give_back 12 1) UnauthorizedOperation ''you cannot release that FloorRequest'') granted)"
proof (rule FloorRelease_refused [OF reachable_granted(2)])
  let ?u = "the (GetUserLocked 12 granted)"
  show "GetUserLocked (m_userId (give_back 12 1)) granted = Some ?u" by code_simp
  show "om_find 1 (s_floorRequests granted) = Some (request_of 1 granted)" by code_simp
  show "u_transport ?u = Some 200" by code_simp
  show "\<not> u_isChair ?u" by code_simp
  show "m_userId (give_back 12 1) \<noteq> q_userId (request_of 1 granted)" by code_simp
  show "m_userId (give_back 12 1) \<noteq> q_beneficiaryId (request_of 1 granted)" by code_simp
  show "\<not> s_ending granted" by code_simp
  show "m_conferenceId (give_back 12 1) = s_conferenceId granted" by code_simp
  show "m_body (give_back 12 1) = MsgFloorRelease (Some 1)" by code_simp
qed

lemma Release_core:
  assumes "\<not> s_ending s" and r: "om_find k (s_floorRequests s) = Some r" and "CanBeCancelled r \<or> IsGranted r"
    and "u_userId user = q_userId r \<or> u_userId user = q_beneficiaryId r \<or> u_isChair user"
  obtains t where "ProcessFloorReleaseLocked tr msg (Some k) user s = Some t"
    and "core t = core (if IsGranted r then released k r (erase_request k s) else erase_request k s)"
proof -
  have "\<exists>t. ProcessFloorReleaseLocked tr msg (Some k) user s = Some t
    \<and> core t = core (if IsGranted r then released k r (erase_request k s) else erase_request k s)"
    using assms by (auto simp: ProcessFloorReleaseLocked_def GetFloorRequestLocked_def Let_def
      released_def push_back_def set_request_def erase_request_def omap_simps intro!: core_eqI)
  with that show ?thesis by blast
qed

text \<open>
  Releasing: a FloorRelease from the requester, the beneficiary or a chair ends the request,
  whether it was pending or granted, and no other. If it was granted the listener hears exactly
  one \<open>onFloorReleased\<close>, with its beneficiary and its floors; if not, it hears nothing.
\<close>

theorem FloorRelease_releases:
  assumes "reachable tr s" and "\<not> s_ending s" and "m_conferenceId msg = s_conferenceId s"
    and "GetUserLocked (m_userId msg) s = Some user" and "u_transport user = Some t"
    and "m_body msg = MsgFloorRelease (Some k)" and r: "om_find k (s_floorRequests s) = Some r"
    and "m_userId msg = q_userId r \<or> m_userId msg = q_beneficiaryId r \<or> u_isChair user"
  shows "\<exists>s'. MessageReceived tr msg t s = Some s'
    \<and> (\<forall>j. om_find j (s_floorRequests s') = (if j = k then None else om_find j (s_floorRequests s)))
    \<and> s_notified s' = s_notified s
        @ (if IsGranted r then [onFloorReleased k (q_beneficiaryId r) (q_floorIds r)] else [])
    \<and> s_users s' = s_users s \<and> s_floors s' = s_floors s"
proof -
  have g: "good s" and i: "server_inv s"
    using reachable_good [OF assms(1)] reachable_server_inv [OF assms(1)] by simp_all
  have u: "u_userId user = m_userId msg"
    using good_user [OF g] assms(4) by (simp add: GetUserLocked_def user_ok_def)
  have "CanBeCancelled r \<or> IsGranted r"
    using good_request [OF g r] by (auto simp: request_ok_def CanBeCancelled_def CanBeGranted_def IsGranted_def)
  moreover have "u_userId user = q_userId r \<or> u_userId user = q_beneficiaryId r \<or> u_isChair user"
    using assms(8) u by simp
  ultimately obtain s0 where p: "ProcessFloorReleaseLocked tr msg (Some k) user s = Some s0"
    and c: "core s0 = core (if IsGranted r then released k r (erase_request k s) else erase_request k s)"
    by (rule Release_core [OF assms(2) r])
  have "MessageReceived tr msg t s = Some (Fire s0)"
    using assms p by (simp add: MessageReceived_own dispatch_primitive_def)
  moreover have "s_pending s = []"
    using i by (simp add: server_inv_def)
  ultimately show ?thesis
    using core_eqD [OF c] assms(2)
    by (intro exI [of _ "Fire s0"])
      (simp add: Fire_def omap_simps, simp add: released_def push_back_def erase_request_def)
qed

theorem FloorRelease_releases_witness:
  "\<exists>s'. MessageReceived tcp (give_back 11 1) 100 granted = Some s' \<and> om_find 1 (s_floorRequests s') = None"
proof -
  let ?u = "the (GetUserLocked 11 granted)"
  have "\<not> s_ending granted" "m_conferenceId (give_back 11 1) = s_conferenceId granted"
    "GetUserLocked (m_userId (give_back 11 1)) granted = Some ?u" "u_transport ?u = Some 100"
    "m_body (give_back 11 1) = MsgFloorRelease (Some 1)"
    "om_find 1 (s_floorRequests granted) = Some (request_of 1 granted)"
    "m_userId (give_back 11 1) = q_userId (request_of 1 granted)"
    by code_simp+
  from FloorRelease_releases [OF reachable_granted(2) this(1-6)] this(7) show ?thesis by auto
qed

text \<open>
  Removing a user: the user is gone and no request is left that it made or benefits from;
  the requests of the others stay as they were.
\<close>

theorem RemoveUser_cleans:
  assumes "reachable tr s" and "RemoveUser tr userId s = (True, s')"
  shows "GetUserLocked userId s' = None
    \<and> (\<forall>k. om_find k (s_floorRequests s') =
        (case om_find k (s_floorRequests s) of
           None \<Rightarrow> None
         | Some r \<Rightarrow> if q_beneficiaryId r = userId \<or> q_userId r = userId then None else Some r))"
proof -
  have g: "good s" by (rule reachable_good [OF assms(1)])
  have s': "s' = Fire (snd (RemoveUserLocked tr userId True s))" and ok: "fst (RemoveUserLocked tr userId True s)"
    using assms(2) by (auto simp: RemoveUser_def case_prod_beta split: if_splits)
  from ok obtain user where "om_find userId (s_users s) = Some user"
    by (auto simp: RemoveUserLocked_def split: option.splits)
  then show ?thesis
    by (simp add: s' Fire_def RemoveUserLocked_def GetUserLocked_def Let_def case_prod_beta omap_simps
      RevokeUser_find [OF g])
qed

theorem RemoveUser_cleans_witness:
  "om_find 1 (s_floorRequests (snd (RemoveUser tcp 11 granted))) = None"
proof -
  have "fst (RemoveUser tcp 11 granted)"
    by (simp add: RemoveUser_def RemoveUserLocked_def case_prod_beta) code_simp
  then have "RemoveUser tcp 11 granted = (True, snd (RemoveUser tcp 11 granted))"
    by (metis prod.collapse)
  from RemoveUser_cleans [OF reachable_granted(2) this]
  have "om_find 1 (s_floorRequests (snd (RemoveUser tcp 11 granted))) =
    (case om_find 1 (s_floorRequests granted) of None \<Rightarrow> None
     | Some r \<Rightarrow> if q_beneficiaryId r = 11 \<or> q_userId r = 11 then None else Some r)" by blast
  also have "\<dots> = None" by code_simp
  finally show ?thesis .
qed




text \<open>
  C22. \<open>MessageReceived\<close> never lets the exception \<open>AttributeNotFound\<close> out for a message that \<open>Parse\<close>
  returned: whatever the state and the transport, it comes to an end with a state.
\<close>

theorem MessageReceived_total:
  assumes "BFCPMessage_Parse io data = Some msg"
  shows "\<exists>s'. MessageReceived tr msg t s = Some s'"
proof -
  from assms have "IsValid (m_body msg)" by (rule Parse_Some) simp
  then show ?thesis using MessageReceived_valid by blast
qed

theorem MessageReceived_total_witness:
  "\<exists>s'. MessageReceived tcp (sample_request\<lparr>m_version := 2\<rparr>) 100 room = Some s'"
  by (rule MessageReceived_total [OF sample_Parse [of "[]"]])

section \<open>The end of a conference\<close>

lemma CloseTransport_sent:
  "s_sent (CloseTransport k u s) = s_sent s @ (case u_transport u of None \<Rightarrow> [] | Some t \<Rightarrow> [Closed t])"
  by (simp add: CloseTransport_def Let_def set_user_def emit_def split: option.split)

lemma SendMessage_sent:
  "s_sent (snd (SendMessage tr u msg s)) = s_sent s @ (case u_transport u of None \<Rightarrow> [] | Some t \<Rightarrow> [SentTo t msg])"
  by (simp add: SendMessage_def emit_def split: option.split)

lemma Notification_sent [simp]: "s_sent (snd (NotificationTransactionIdLocked tr u s)) = s_sent s"
  by (simp add: NotificationTransactionIdLocked_def NextTransactionIdLocked_def Let_def split: option.split)

lemma end_user_sent:
  "\<exists>i. s_sent (end_user tr (k, u) s) = s_sent s @ (case u_transport u of None \<Rightarrow> []
     | Some t \<Rightarrow> [SentTo t (BFCPMessage_new (MsgOther (prim_code P_Goodbye)) i (s_conferenceId s) (u_userId u)), Closed t])"
  by (cases "u_transport u")
    (auto simp: end_user_def Let_def case_prod_beta IsConnected_def CloseTransport_sent SendMessage_sent)

lemma end_user_conference [simp]: "s_conferenceId (end_user tr x s) = s_conferenceId s"
  by (cases x) (simp add: end_user_def Let_def case_prod_beta)

lemma end_users_sent:
  assumes "(k, u) \<in> set us" and "u_transport u = Some t"
  shows "Closed t \<in> set (s_sent (fold (end_user tr) us s))
    \<and> (\<exists>i. SentTo t (BFCPMessage_new (MsgOther (prim_code P_Goodbye)) i (s_conferenceId s) (u_userId u))
        \<in> set (s_sent (fold (end_user tr) us s)))"
proof -
  have mono: "e \<in> set (s_sent s) \<Longrightarrow> e \<in> set (s_sent (fold (end_user tr) us s))" for e us s
  proof (induction us arbitrary: s)
    case (Cons x us)
    then show ?case
      using end_user_sent [of tr "fst x" "snd x" s] by (auto split: option.splits)
  qed simp
  from assms(1) show ?thesis
  proof (induction us arbitrary: s)
    case (Cons x us)
    show ?case
    proof (cases "x = (k, u)")
      case True
      from end_user_sent [of tr k u s] assms(2) obtain i where "s_sent (end_user tr x s) = s_sent s
          @ [SentTo t (BFCPMessage_new (MsgOther (prim_code P_Goodbye)) i (s_conferenceId s) (u_userId u)), Closed t]"
        by (auto simp: True)
      then show ?thesis
        using mono [of _ "end_user tr x s" us] by (auto intro!: exI [of _ i])
    next
      case False
      with Cons.prems have "(k, u) \<in> set us" by auto
      from Cons.IH [OF this, of "end_user tr x s"] show ?thesis by simp
    qed
  qed simp
qed

text \<open>
  Ending a conference: no user and no request is left, every user that was connected is sent
  a Goodbye and its transport is closed.
\<close>

theorem End_ends:
  assumes "\<not> s_ending s" and "GetUserLocked userId s = Some user" and "u_transport user = Some t"
  shows "s_ending (End tr s) \<and> s_users (End tr s) = [] \<and> s_floorRequests (End tr s) = []
    \<and> Closed t \<in> set (s_sent (End tr s))
    \<and> (\<exists>i. SentTo t (BFCPMessage_new (MsgOther (prim_code P_Goodbye)) i (s_conferenceId s) (u_userId user))
        \<in> set (s_sent (End tr s)))"
proof -
  let ?s0 = "s\<lparr>s_ending := True\<rparr>"
  let ?s1 = "fold (end_request tr (str ''conference ended'')) (om_keys (s_floorRequests s)) ?s0"
  let ?s2 = "?s1\<lparr>s_floorRequests := []\<rparr>"
  have "(userId, user) \<in> set (s_users ?s1)"
    using assms(2) by (simp add: GetUserLocked_def om_find_in)
  from end_users_sent [OF this assms(3), of tr ?s2]
  have "Closed t \<in> set (s_sent (fold (end_user tr) (s_users ?s1) ?s2))
    \<and> (\<exists>i. SentTo t (BFCPMessage_new (MsgOther (prim_code P_Goodbye)) i (s_conferenceId s) (u_userId user))
        \<in> set (s_sent (fold (end_user tr) (s_users ?s1) ?s2)))"
    by simp
  moreover have "s_ending (fold (end_user tr) us x) = s_ending x" "s_floorRequests (fold (end_user tr) us x) = s_floorRequests x" for us x
    by (induction us arbitrary: x) (auto simp: end_user_def Let_def case_prod_beta)
  ultimately show ?thesis
    using assms(1) by (simp add: End_def Let_def Fire_def)
qed

theorem End_ends_witness: "Closed 100 \<in> set (s_sent (End tcp granted))"
proof -
  let ?u = "the (GetUserLocked 11 granted)"
  have "\<not> s_ending granted" "GetUserLocked 11 granted = Some ?u" "u_transport ?u = Some 100"
    by code_simp+
  from End_ends [OF this] show ?thesis by blast
qed

text \<open>
  After the end nothing happens any more: whatever is called, by the chair or by a transport,
  the state stays exactly what it is, so nothing is sent and no notification is queued.
\<close>

theorem ended_inert:
  assumes "reachable tr s" and "s_ending s" and "server_step tr s s'"
  shows "s' = s"
proof -
  have i: "server_inv s" by (rule reachable_server_inv [OF assms(1)])
  then have "s_users s = []" "s_floorRequests s = []"
    using assms(2) by (simp_all add: server_inv_def)
  with assms(2,3) Fire_idle [OF i] show ?thesis
    by (auto elim!: server_stepE call_stepE simp: AddUser_def RemoveUser_def SetChair_def AddFloor_def GrantFloorRequest_def DenyFloorRequest_def
        DenyFloorRequestLocked_def RevokeFloorRequest_def RevokeFloorRequestLocked_def GetFloorRequestLocked_def
        NotifyFloorStatus_def End_def UserConnected_def UserDisconnected_def TransportClosed_def GetUserLocked_def
        MessageReceived_def)
qed

theorem ended_inert_witness: "snd (AddUser 30 (End tcp room)) = End tcp room"
proof (rule ended_inert)
  show "reachable tcp (End tcp room)"
    using reachable_step [OF reachable_room step_call [OF step_End]] .
  show "s_ending (End tcp room)" by code_simp
  show "server_step tcp (End tcp room) (snd (AddUser 30 (End tcp room)))"
    using step_call [OF step_AddUser] prod.collapse by metis
qed

section \<open>Transaction ids\<close>

text \<open>The ids of \<open>n\<close> calls in a row.\<close>

fun transaction_ids :: "nat \<Rightarrow> server \<Rightarrow> int list" where
  "transaction_ids 0 s = []"
| "transaction_ids (Suc n) s = (case NextTransactionIdLocked s of (i, s') \<Rightarrow> i # transaction_ids n s')"

lemma transaction_ids_nth:
  assumes "0 \<le> s_transactionCounter s" and "j < n"
  shows "transaction_ids n s ! j = (s_transactionCounter s + int j) mod 65535 + 1"
  using assms
proof (induction n arbitrary: s j)
  case (Suc n)
  show ?case
  proof (cases j)
    case (Suc i)
    let ?s = "snd (NextTransactionIdLocked s)"
    have "s_transactionCounter ?s = s_transactionCounter s mod 65535 + 1"
      by (simp add: NextTransactionIdLocked_def Let_def)
    moreover have "transaction_ids n ?s ! i = (s_transactionCounter ?s + int i) mod 65535 + 1"
      using Suc.IH [of ?s i] Suc.prems Suc calculation by simp
    ultimately have "transaction_ids n ?s ! i = (s_transactionCounter s mod 65535 + (1 + int i)) mod 65535 + 1"
      by (simp add: add.assoc)
    also have "\<dots> = (s_transactionCounter s + (1 + int i)) mod 65535 + 1"
      by (simp only: mod_add_left_eq)
    finally show ?thesis
      using Suc by (simp add: case_prod_beta)
  qed (simp add: NextTransactionIdLocked_def Let_def)
qed simp

lemma transaction_ids_length [simp]: "length (transaction_ids n s) = n"
  by (induction n arbitrary: s) (simp_all add: case_prod_beta)

text \<open>
  The ids the server gives its own transactions are 16-bit, never 0 (which marks a
  notification over a reliable transport), and 65535 of them in a row are all different.
\<close>

theorem transaction_ids_fresh:
  assumes "0 \<le> s_transactionCounter s" and "n \<le> 65535"
  shows "distinct (transaction_ids n s) \<and> (\<forall>i \<in> set (transaction_ids n s). 1 \<le> i \<and> i \<le> 65535)"
proof
  have "transaction_ids n s ! i \<noteq> transaction_ids n s ! j" if "i < j" "j < n" for i j
  proof
    let ?c = "s_transactionCounter s"
    assume "transaction_ids n s ! i = transaction_ids n s ! j"
    then have "(?c + int j) mod 65535 = (?c + int i) mod 65535"
      using that assms(1) by (simp add: transaction_ids_nth)
    then have "65535 dvd int j - int i"
      by (simp add: mod_eq_dvd_iff)
    then have "65535 \<le> int j - int i"
      using that(1) by (intro zdvd_imp_le) simp_all
    with that assms(2) show False by simp
  qed
  then show "distinct (transaction_ids n s)"
    unfolding distinct_conv_nth transaction_ids_length by (metis linorder_neqE_nat)
  have "1 \<le> x mod 65535 + 1 \<and> x mod 65535 + 1 \<le> 65535" for x :: int
    using pos_mod_bound [of 65535 x] pos_mod_sign [of 65535 x] by simp
  then show "\<forall>i \<in> set (transaction_ids n s). 1 \<le> i \<and> i \<le> 65535"
    using assms(1) by (auto simp: in_set_conv_nth transaction_ids_nth)
qed

theorem transaction_ids_fresh_witness: "distinct (transaction_ids 65535 room)"
proof -
  have "0 \<le> s_transactionCounter room" by code_simp
  from transaction_ids_fresh [OF this] show ?thesis by blast
qed


section \<open>Users and their transports\<close>

text \<open>
  Taking a user over: a Hello from a new transport closes the old one, ends every request the
  user made or benefits from and drops its floor queries; afterwards the user is attached to the
  new transport.
\<close>

theorem Hello_takes_over:
  assumes "reachable tr s" and "\<not> s_ending s" and "m_conferenceId msg = s_conferenceId s"
    and "m_body msg = MsgHello" and u: "GetUserLocked (m_userId msg) s = Some user"
    and "u_transport user = Some old" and "old \<noteq> t"
  shows "\<exists>s'. MessageReceived tr msg t s = Some s' \<and> Closed old \<in> set (s_sent s')
    \<and> GetUserLocked (m_userId msg) s' = Some (user\<lparr>u_transport := Some t, u_queriedFloorIds := []\<rparr>)
    \<and> (\<forall>k r. om_find k (s_floorRequests s') = Some r \<longrightarrow> q_userId r \<noteq> m_userId msg \<and> q_beneficiaryId r \<noteq> m_userId msg)"
proof -
  let ?k = "m_userId msg" and ?u = "ResetQueriedFloorIds user"
  let ?v = "user\<lparr>u_queriedFloorIds := [], u_transport := Some t\<rparr>"
  let ?a = "AttachTransportLocked tr ?k t s"
  have g: "good s" by (rule reachable_good [OF assms(1)])
  have uk: "om_find ?k (s_users s) = Some user" using u by (simp add: GetUserLocked_def)
  have c: "IsConnected user" using assms(6) by (simp add: IsConnected_def)
  have a: "?a = set_user ?k ?v (CloseTransport ?k ?u (RevokeUserFloorRequestsLocked tr ?k (set_user ?k ?u s)))"
    using uk assms(6,7) c by (simp add: AttachTransportLocked_def GetUserLocked_def Let_def ResetQueriedFloorIds_def)
  have "good (set_user ?k ?u s)"
    by (rule good_same_user [OF g uk]) (simp_all add: ResetQueriedFloorIds_def)
  note gone = RevokeUser_find [OF this]
  have closed: "Closed old \<in> set (s_sent ?a)"
    by (simp add: a set_user_def CloseTransport_sent ResetQueriedFloorIds_def assms(6))
  have att: "om_find ?k (s_users ?a) = Some ?v"
    by (simp add: a omap_simps)
  have reqs: "s_floorRequests ?a = s_floorRequests (RevokeUserFloorRequestsLocked tr ?k (set_user ?k ?u s))"
    by (simp add: a)
  have "MessageReceived tr msg t s = Some (Fire (ProcessHelloLocked tr msg ?v ?a))"
    using assms c att by (simp add: MessageReceived_def dispatch_primitive_def GetUserLocked_def GetPrimitive_def)
  moreover have "s_users (ProcessHelloLocked tr msg ?v ?a) = s_users ?a"
    "s_floorRequests (ProcessHelloLocked tr msg ?v ?a) = s_floorRequests ?a"
    by (simp_all add: ProcessHelloLocked_def Let_def case_prod_beta)
  moreover have "Closed old \<in> set (s_sent (ProcessHelloLocked tr msg ?v ?a))"
    using closed by (auto simp: ProcessHelloLocked_def Let_def case_prod_beta push_back_def SendMessage_sent
      NextTransactionIdLocked_def)
  ultimately show ?thesis
    using att by (auto simp: Fire_def GetUserLocked_def reqs gone split: option.splits if_splits)
qed

theorem Hello_takes_over_witness:
  "\<exists>s'. MessageReceived tcp (greet 11) 300 granted = Some s' \<and> Closed 100 \<in> set (s_sent s')"
proof -
  let ?u = "the (GetUserLocked 11 granted)"
  have "\<not> s_ending granted" "m_conferenceId (greet 11) = s_conferenceId granted" "m_body (greet 11) = MsgHello"
    "GetUserLocked (m_userId (greet 11)) granted = Some ?u" "u_transport ?u = Some 100" "100 \<noteq> (300 :: tid)"
    by code_simp+
  from Hello_takes_over [OF reachable_granted(2) this] show ?thesis by blast
qed

text \<open>
  A transport that closes and carried exactly one user leaves no user attached to it, and no
  request of that user.
\<close>

theorem TransportClosed_detaches:
  assumes "reachable tr s" and u: "GetUserLocked userId s = Some user" "u_transport user = Some t"
    and only: "\<forall>k v. GetUserLocked k s = Some v \<and> u_transport v = Some t \<longrightarrow> k = userId"
  shows "(\<forall>k v. GetUserLocked k (TransportClosed tr t s) = Some v \<longrightarrow> u_transport v \<noteq> Some t)
    \<and> (\<forall>k r. om_find k (s_floorRequests (TransportClosed tr t s)) = Some r
        \<longrightarrow> q_userId r \<noteq> userId \<and> q_beneficiaryId r \<noteq> userId)"
proof -
  have g: "good s" and i: "server_inv s"
    using reachable_good [OF assms(1)] reachable_server_inv [OF assms(1)] by simp_all
  have uk: "om_find userId (s_users s) = Some user" using u by (simp add: GetUserLocked_def)
  have e: "\<not> s_ending s" using i uk by (auto simp: server_inv_def)
  let ?P = "\<lambda>(_ :: int, v). u_transport v = Some t"
  have "(userId, user) \<in> set (filter ?P (s_users s))"
    using om_find_in [OF uk] u(2) by simp
  moreover have "k = userId" if "(k, v) \<in> set (filter ?P (s_users s))" for k v
    using that only g by (auto simp: GetUserLocked_def good_def consistent_def om_in_iff)
  moreover obtain x rest where x: "filter ?P (s_users s) = x # rest"
    using calculation(1) by (cases "filter ?P (s_users s)") auto
  ultimately have "fst x = userId"
    by (metis list.set_intros(1) prod.collapse)
  with x obtain v where f: "filter ?P (s_users s) = (userId, v) # rest"
    by (cases x) simp
  let ?w = "ResetQueriedFloorIds (user\<lparr>u_transport := None\<rparr>)"
  have tc: "TransportClosed tr t s = Fire (RevokeUserFloorRequestsLocked tr userId (set_user userId ?w s))"
    using e uk by (simp add: TransportClosed_def f DetachTransportLocked_def GetUserLocked_def Let_def)
  have "good (set_user userId ?w s)"
    by (rule good_same_user [OF g uk]) (simp_all add: ResetQueriedFloorIds_def)
  then show ?thesis
    using only by (auto simp: tc Fire_def GetUserLocked_def omap_simps RevokeUser_find ResetQueriedFloorIds_def
      split: option.splits if_splits)
qed

theorem TransportClosed_detaches_witness:
  "reachable tcp granted \<and> map_option u_transport (GetUserLocked 11 granted) = Some (Some 100)
    \<and> (\<nexists>k v. GetUserLocked k (TransportClosed tcp 100 granted) = Some v \<and> u_transport v = Some 100)"
proof -
  have u: "GetUserLocked 11 granted = Some (the (GetUserLocked 11 granted))"
    "u_transport (the (GetUserLocked 11 granted)) = Some 100" by code_simp+
  have "list_all (\<lambda>(k, v). u_transport v = Some 100 \<longrightarrow> k = 11) (s_users granted)" by code_simp
  then have "\<forall>k v. GetUserLocked k granted = Some v \<and> u_transport v = Some 100 \<longrightarrow> k = 11"
    by (auto simp: GetUserLocked_def list_all_iff dest: om_find_in)
  from TransportClosed_detaches [OF reachable_granted(2) u this] show ?thesis
    using reachable_granted(2) u(2) by (subst u(1)) auto
qed

definition shared :: server where
  "shared = the (MessageReceived tcp (greet 12) 100 (the (MessageReceived tcp (greet 11) 100 room)))"


end
