(* ===== verification/BfcpWire.thy ===== *)
theory BfcpWire
  imports BfcpFloorControl
begin

text \<open>
  What the floor control server sends is fit for the wire: the ranges of the values it holds are an
  invariant of every operation on octets that arrive, so every message it sends can be serialized and
  is decoded to itself; and how many floors a request may have before its status no longer fits.
\<close>

section \<open>Values that fit\<close>

definition req_wf :: "BFCPFloorRequest \<Rightarrow> bool" where
  "req_wf r \<longleftrightarrow> wf16 (q_floorRequestId r) \<and> wf16 (q_userId r) \<and> wf16 (q_beneficiaryId r)
     \<and> (\<forall>f \<in> set (q_floorIds r). wf16 f) \<and> 0 \<le> q_conferenceId r \<and> q_conferenceId r < 2 ^ 31
     \<and> q_queuePosition r = 0"

definition user_wf :: "int \<times> BFCPUser \<Rightarrow> bool" where
  "user_wf e \<longleftrightarrow> wf16 (fst e) \<and> wf16 (u_userId (snd e)) \<and> (\<forall>f \<in> set (u_queriedFloorIds (snd e)). wf16 f)"

definition ranged :: "server \<Rightarrow> bool" where
  "ranged s \<longleftrightarrow> 0 \<le> s_conferenceId s \<and> s_conferenceId s < 2 ^ 31
     \<and> 0 \<le> s_transactionCounter s \<and> s_transactionCounter s \<le> 65535
     \<and> (\<forall>e \<in> set (s_users s). user_wf e) \<and> (\<forall>e \<in> set (s_floorRequests s). req_wf (snd e)) \<and> (\<forall>f \<in> set (s_floors s). wf16 f)"

text \<open>
  A message that can be written and read back, if its conference id can: the reply to a message
  for another conference repeats the id that message had.
\<close>

fun effect_ok :: "effect \<Rightarrow> bool" where
  "effect_ok (SentTo t m) = (0 \<le> m_conferenceId m \<and> m_conferenceId m < 2 ^ 31 \<longrightarrow> msg_wf m \<and> IsValid (m_body m))"
| "effect_ok (Closed t) = True"

declare effect_ok.simps [simp del]

text \<open>What one operation, or a part of one, does to the record of what was sent.\<close>

definition wire :: "server \<Rightarrow> server \<Rightarrow> bool" where
  "wire s t \<longleftrightarrow> (ranged s \<longrightarrow> ranged t \<and> (\<exists>es. s_sent t = s_sent s @ es \<and> list_all effect_ok es))"

lemma wire_refl [simp]: "wire s s"
  by (simp add: wire_def)

lemma wire_trans: "wire s t \<Longrightarrow> wire t u \<Longrightarrow> wire s u"
  by (auto simp: wire_def)

lemma wireI: "(ranged s \<Longrightarrow> wire s t) \<Longrightarrow> wire s t"
  by (auto simp: wire_def)

lemma wire_fold:
  assumes "\<And>x s. x \<in> set xs \<Longrightarrow> wire s (f x s)"
  shows "wire s (fold f xs s)"
  by (rule fold_inv [where P = "wire s"]) (auto intro: wire_trans assms)

lemma wire_emit: "effect_ok e \<Longrightarrow> wire s (emit e s)"
  by (simp add: wire_def ranged_def emit_def)

lemma wire_Next: "wire s (snd (NextTransactionIdLocked s))"
  by (auto simp: wire_def ranged_def NextTransactionIdLocked_def Let_def)

lemma wire_Notification: "wire s (snd (NotificationTransactionIdLocked tr u s))"
  by (simp add: NotificationTransactionIdLocked_def wire_Next split: option.split)

lemma Notification_range: "wf16 (fst (NotificationTransactionIdLocked tr u s))"
  using pos_mod_bound [of 65535 "s_transactionCounter s"] pos_mod_sign [of 65535 "s_transactionCounter s"]
  by (simp add: NotificationTransactionIdLocked_def NextTransactionIdLocked_def Let_def split: option.split)

lemma wire_Send:
  assumes "\<And>t. effect_ok (SentTo t msg)"
  shows "wire s (snd (SendMessage tr u msg s))"
  using assms by (simp add: SendMessage_def wire_emit split: option.split)

lemma set_om_put: "set (om_put k v m) \<subseteq> insert (k, v) (set m)"
  by (induction m) (auto split: if_splits)

lemma om_put_all: "\<forall>e \<in> set m. P e \<Longrightarrow> P (k, v) \<Longrightarrow> \<forall>e \<in> set (om_put k v m). P e"
  using set_om_put [of k v m] by blast

lemma wire_set_user:
  assumes "ranged s \<Longrightarrow> user_wf (k, u)"
  shows "wire s (set_user k u s)"
proof (rule wireI)
  assume r: "ranged s"
  have "\<forall>e \<in> set (om_put k u (s_users s)). user_wf e"
    using r assms by (intro om_put_all) (simp_all add: ranged_def)
  with r show "wire s (set_user k u s)"
    by (simp add: wire_def ranged_def set_user_def)
qed

lemma wire_set_request:
  assumes "ranged s \<Longrightarrow> req_wf r"
  shows "wire s (set_request k r s)"
proof (rule wireI)
  assume s: "ranged s"
  have "\<forall>e \<in> set (om_put k r (s_floorRequests s)). req_wf (snd e)"
    using s assms by (intro om_put_all) (simp_all add: ranged_def)
  with s show "wire s (set_request k r s)"
    by (simp add: wire_def ranged_def set_request_def)
qed

lemma wire_erase: "wire s (erase_request k s)"
  by (simp add: wire_def ranged_def erase_request_def om_erase_def)

lemma wire_push: "wire s (push_back n s)"
  by (simp add: wire_def ranged_def push_back_def)

lemma wire_Fire: "wire s (Fire s)"
  by (simp add: wire_def ranged_def Fire_def)

lemma ranged_user: "ranged s \<Longrightarrow> om_find k (s_users s) = Some u \<Longrightarrow> user_wf (k, u)"
  by (auto simp: ranged_def dest!: om_find_in)

lemma ranged_request: "ranged s \<Longrightarrow> om_find k (s_floorRequests s) = Some r \<Longrightarrow> req_wf r"
  by (auto simp: ranged_def dest!: om_find_in)

section \<open>The messages\<close>

lemma fold_AddStatus:
  "fold (\<lambda>f. AddFloorRequestStatus (g f)) fs info =
    info\<lparr>fri_floorRequestStatuses := fri_floorRequestStatuses info @ map g fs\<rparr>"
  by (induction fs arbitrary: info) (simp_all add: AddFloorRequestStatus_def)

lemma CreateInformation_fields:
  defines "st \<equiv> \<lambda>r. \<lparr>rs_status = q_status r, rs_queuePosition = q_queuePosition r\<rparr>"
  shows "CreateFloorRequestInformation r = \<lparr>fri_floorRequestId = q_floorRequestId r,
    fri_floorRequestStatuses = map (\<lambda>f. \<lparr>frs_floorId = f, frs_requestStatus = Some (st r)\<rparr>) (q_floorIds r),
    fri_overallRequestStatus = Some \<lparr>ors_floorRequestId = q_floorRequestId r, ors_requestStatus = Some (st r),
      ors_statusInfo = None\<rparr>,
    fri_beneficiaryInformation = Some (q_beneficiaryId r), fri_requestedByInformation = Some (q_userId r)\<rparr>"
  by (simp add: CreateFloorRequestInformation_def Let_def st_def BFCPAttrFloorRequestInformation_new_def
      BFCPAttrFloorRequestStatus_new_def BFCPAttrOverallRequestStatus_new_def fold_AddStatus)

lemma CreateInformation_wf: "req_wf r \<Longrightarrow> fri_wf (CreateFloorRequestInformation r)"
  by (simp add: CreateInformation_fields req_wf_def fri_wf_def frs_wf_def ors_wf_def rs_wf_def list_all_iff)

lemma SetDescription_wf: "fri_wf i \<Longrightarrow> fri_wf (SetDescription info i)"
  by (auto simp: SetDescription_def fri_wf_def ors_wf_def split: option.splits)

lemma Build_ok:
  assumes "ranged s" and "wf16 f" and "wf16 i" and "wf16 k"
  shows "effect_ok (SentTo t (BuildFloorStatusLocked f i k s))"
proof -
  have *: "fold (\<lambda>r. AddFloorRequestInformation (h r)) rs b =
      b\<lparr>mfs_floorRequestInformations := mfs_floorRequestInformations b @ map h rs\<rparr>" for h rs b
    by (induction rs arbitrary: b) (simp_all add: AddFloorRequestInformation_def)
  have "\<forall>r \<in> set (GetFloorRequestsForFloorLocked f s). fri_wf (CreateFloorRequestInformation r)"
    using assms(1) by (auto simp: GetFloorRequestsForFloorLocked_def ranged_def intro!: CreateInformation_wf)
  then show ?thesis
    using assms by (simp add: BuildFloorStatusLocked_def Let_def * effect_ok.simps msg_wf_def BFCPMessage_new_def
      BFCPMsgFloorStatus_new_def list_all_iff)
qed

lemma wire_notify_floor:
  assumes "wf16 f" and "wf16 (u_userId u)"
  shows "wire s (snd (notify_floor tr u f s))"
proof (rule wireI)
  assume r: "ranged s"
  let ?n = "NotificationTransactionIdLocked tr (Some u) s"
  have "ranged (snd ?n)"
    using r wire_Notification [of s tr "Some u"] by (simp add: wire_def)
  then have "wire (snd ?n) (snd (notify_floor tr u f s))"
    using assms Notification_range [of tr "Some u" s]
    by (simp add: notify_floor_def case_prod_beta wire_Send Build_ok)
  with wire_Notification show "wire s (snd (notify_floor tr u f s))"
    by (rule wire_trans)
qed

lemma wire_Notify:
  assumes "req_wf r"
  shows "wire s (NotifyForFloorRequestLocked tr r s)"
proof (rule wireI)
  assume s: "ranged s"
  show "wire s (NotifyForFloorRequestLocked tr r s)"
    unfolding NotifyForFloorRequestLocked_def
  proof (intro wire_fold, clarify)
    fix k u t
    assume "(k, u) \<in> set (s_users s)"
    with s have "wf16 (u_userId u)" by (fastforce simp: ranged_def user_wf_def)
    with assms show "wire t (fold (\<lambda>f s. if \<not> HasQueriedFloorId u f then s else snd (notify_floor tr u f s)) (q_floorIds r) t)"
      by (intro wire_fold) (auto simp: req_wf_def intro!: wire_notify_floor)
  qed
qed

lemma wire_SendFloorRequestStatus:
  assumes "req_wf r" and "wf16 i" and "wf16 k"
  shows "wire s (SendFloorRequestStatusLocked tr r i k info b s)"
proof -
  have "effect_ok (SentTo t m)" if "m = (CreateFloorRequestStatus r i)\<lparr>m_userId := k, m_responder := b\<rparr>
    \<or> m = (CreateFloorRequestStatus r i)\<lparr>m_userId := k, m_responder := b,
        m_body := MsgFloorRequestStatus (Some (SetDescription info (CreateFloorRequestInformation r)))\<rparr>" for t m
    using that assms CreateInformation_wf [OF assms(1)] SetDescription_wf [OF CreateInformation_wf [OF assms(1)]]
    by (auto simp: effect_ok.simps CreateFloorRequestStatus_def BFCPMessage_new_def msg_wf_def req_wf_def
      BFCPMsgFloorRequestStatus_IsValid_def)
  then show ?thesis
    by (auto simp: SendFloorRequestStatusLocked_def SendMessageLocked_def Let_def intro!: wire_Send split: option.split)
qed

lemma wire_notify_requester:
  assumes "req_wf r"
  shows "wire s (notify_requester tr u r info s)"
  unfolding notify_requester_def case_prod_beta
  using assms Notification_range
  by (auto simp: req_wf_def intro!: wire_trans [OF wire_Notification wire_SendFloorRequestStatus])

lemma wire_ReplyError:
  assumes "wf16 (m_transactionId msg)" and "wf16 (m_userId msg)"
  shows "wire s (ReplyErrorLocked msg to c info s)"
proof -
  have "0 \<le> error_code c \<and> error_code c < 256" by (cases c) simp_all
  then show ?thesis
    using assms by (auto simp: effect_ok.simps ReplyErrorLocked_def BFCPMsgError_reply_def BFCPMessage_new_def msg_wf_def
      BFCPMsgError_IsValid_def intro!: wire_emit split: option.split)
qed


section \<open>The operations\<close>

text \<open>The lemmas above, for a step at the end of a sequence of steps.\<close>

lemma wire_post:
  assumes "wire s t"
  shows "wire s (erase_request k t)" "wire s (push_back n t)" "wire s (Fire t)"
    "effect_ok e \<Longrightarrow> wire s (emit e t)"
    "req_wf r \<Longrightarrow> wire s (set_request k r t)"
    "user_wf (k, u) \<Longrightarrow> wire s (set_user k u t)"
    "req_wf r \<Longrightarrow> wire s (NotifyForFloorRequestLocked tr r t)"
    "req_wf r \<Longrightarrow> wire s (notify_requester tr v r info t)"
    "req_wf r \<Longrightarrow> wf16 i \<Longrightarrow> wf16 j \<Longrightarrow> wire s (SendFloorRequestStatusLocked tr r i j info b t)"
    "wire s (snd (NotificationTransactionIdLocked tr v t))"
    "(\<And>t. effect_ok (SentTo t msg)) \<Longrightarrow> wire s (snd (SendMessage tr u msg t))"
  by (rule wire_trans [OF assms]; simp add: wire_erase wire_push wire_Fire wire_emit wire_set_request
      wire_set_user wire_Notify wire_notify_requester wire_SendFloorRequestStatus wire_Notification wire_Send)+

lemma req_wf_status [simp]: "req_wf (r\<lparr>q_status := st\<rparr>) = req_wf r"
  by (simp add: req_wf_def)

lemma wire_if: "wire s t \<Longrightarrow> wire s u \<Longrightarrow> wire s (if c then t else u)"
  by simp

lemma wire_Deny: "wire s (snd (DenyFloorRequestLocked tr k info s))"
  by (rule wireI) (auto simp: DenyFloorRequestLocked_def GetFloorRequestLocked_def Let_def
      intro!: wire_post wire_refl dest: ranged_request split: option.split)

lemma wire_Revoke: "wire s (snd (RevokeFloorRequestLocked tr k info s))"
  by (rule wireI) (auto simp: RevokeFloorRequestLocked_def GetFloorRequestLocked_def Let_def
      intro!: wire_post wire_refl dest: ranged_request split: option.split)

lemma wire_revoke_other: "wire s (revoke_other tr k j s)"
  by (simp add: revoke_other_def wire_Revoke split: option.split)

lemma wire_end_request: "wire s (end_request tr info j s)"
  by (simp add: end_request_def wire_Revoke wire_Deny split: option.split)

lemma wire_Grant: "wire s (snd (GrantFloorRequestLocked tr k s))"
  by (rule wireI) (auto simp: GrantFloorRequestLocked_def GetFloorRequestLocked_def Let_def
      intro!: wire_post wire_fold wire_revoke_other dest: ranged_request split: option.split)

lemma wire_RevokeUser: "wire s (RevokeUserFloorRequestsLocked tr u s)"
  by (simp add: RevokeUserFloorRequestsLocked_def wire_fold wire_end_request)

lemma wire_Close:
  assumes "wire s t" and "user_wf (k, u)"
  shows "wire s (CloseTransport k u t)"
  using assms by (auto simp: CloseTransport_def Let_def effect_ok.simps user_wf_def intro!: wire_post split: option.split)

lemma goodbye_ok:
  assumes "wf16 i" and "wf16 u"
  shows "effect_ok (SentTo t (BFCPMessage_new (MsgOther (prim_code P_Goodbye)) i c u))"
    "effect_ok (SentTo t ((BFCPMessage_new (MsgOther (prim_code P_GoodbyeAck)) i c u)\<lparr>m_responder := b\<rparr>))"
  using assms by (simp_all add: effect_ok.simps msg_wf_def BFCPMessage_new_def new_body_def)

lemma wire_Goodbye_to:
  assumes "wire s t" and "wf16 u"
  shows "wire s (case NotificationTransactionIdLocked tr v t of (i, t) \<Rightarrow>
    snd (SendMessage tr w (BFCPMessage_new (MsgOther (prim_code P_Goodbye)) i (s_conferenceId t) u) t))"
  unfolding case_prod_beta using assms Notification_range
  by (intro wire_post goodbye_ok) auto

lemma wire_erase_user:
  assumes "wire s t"
  shows "wire s (t\<lparr>s_users := om_erase k (s_users t)\<rparr>)"
  by (rule wire_trans [OF assms]) (simp add: wire_def ranged_def om_erase_def)

lemma wire_RemoveUser: "wire s (snd (RemoveUserLocked tr k b s))"
proof (rule wireI)
  assume r: "ranged s"
  show "wire s (snd (RemoveUserLocked tr k b s))"
  proof (cases "om_find k (s_users s)")
    case (Some u)
    with r have "user_wf (k, u)" by (rule ranged_user)
    moreover from this have "wf16 k" by (simp add: user_wf_def)
    ultimately show ?thesis
      unfolding RemoveUserLocked_def Let_def Some option.case snd_conv
      by (intro wire_erase_user wire_Close wire_if wire_Goodbye_to wire_RevokeUser)
  qed (simp add: RemoveUserLocked_def)
qed

lemma user_wf_changes:
  "user_wf (k, u) \<Longrightarrow> user_wf (k, ResetQueriedFloorIds u)"
  "user_wf (k, u) \<Longrightarrow> user_wf (k, u\<lparr>u_transport := t\<rparr>)"
  by (simp_all add: user_wf_def ResetQueriedFloorIds_def)

lemma wire_Attach: "wire s (AttachTransportLocked tr k t s)"
proof (rule wireI)
  assume r: "ranged s"
  show "wire s (AttachTransportLocked tr k t s)"
  proof (cases "om_find k (s_users s)")
    case (Some u)
    with r have u: "user_wf (k, u)" by (rule ranged_user)
    then have "wire s (RevokeUserFloorRequestsLocked tr k (set_user k (ResetQueriedFloorIds u) s))"
      by (intro wire_trans [OF _ wire_RevokeUser] wire_post wire_refl user_wf_changes)
    then show ?thesis
      using Some u by (auto simp: AttachTransportLocked_def GetUserLocked_def Let_def user_wf_changes
        intro!: wire_post(6) wire_Close)
  qed (simp add: AttachTransportLocked_def GetUserLocked_def)
qed

lemma wire_Detach: "wire s (DetachTransportLocked tr k s)"
proof (rule wireI)
  assume r: "ranged s"
  show "wire s (DetachTransportLocked tr k s)"
  proof (cases "om_find k (s_users s)")
    case (Some u)
    with r have "user_wf (k, u)" by (rule ranged_user)
    then have "wire s (set_user k (ResetQueriedFloorIds (u\<lparr>u_transport := None\<rparr>)) s)"
      by (intro wire_post wire_refl user_wf_changes)
    from this wire_trans [OF this wire_RevokeUser] Some show ?thesis
      by (simp add: DetachTransportLocked_def GetUserLocked_def Let_def)
  qed (simp add: DetachTransportLocked_def GetUserLocked_def)
qed


section \<open>Incoming primitives\<close>

lemma wire_FloorRequest:
  assumes "wf16 (m_transactionId msg)" and "wf16 (m_userId msg)"
    and "s_floorRequestCounter (ProcessFloorRequestLocked tr msg req user s) \<le> 65536"
    and "0 \<le> s_floorRequestCounter s"
  shows "wire s (ProcessFloorRequestLocked tr msg req user s)"
proof (rule wireI)
  assume r: "ranged s"
  let ?k = "s_floorRequestCounter s"
  let ?s = "s\<lparr>s_floorRequestCounter := ?k + 1\<rparr>"
  let ?r = "new_request ?k msg req (s_conferenceId s)"
  show "wire s (ProcessFloorRequestLocked tr msg req user s)"
  proof (cases "list_ex (\<lambda>f. \<not> HasFloorLocked f s) (mfr_floorIds req)
      \<or> (case mfr_beneficiaryId req of None \<Rightarrow> False | Some b \<Rightarrow> GetUserLocked b s = None)")
    case True
    then show ?thesis
      using wire_ReplyError [OF assms(1,2)] by (auto simp: ProcessFloorRequestLocked_def)
  next
    case False
    then have "\<forall>f \<in> set (mfr_floorIds req). wf16 f"
      using r by (auto simp: list_ex_iff HasFloorLocked_def ranged_def)
    moreover have "wf16 (case mfr_beneficiaryId req of None \<Rightarrow> m_userId msg | Some b \<Rightarrow> b)"
      using False assms(2) ranged_user [OF r]
      by (auto simp: GetUserLocked_def user_wf_def split: option.splits)
    moreover have "?k < 65536"
      using assms(3) False by (simp add: ProcessFloorRequestLocked_def Let_def set_request_def push_back_def split: if_splits)
    ultimately have q: "req_wf ?r"
      using assms r by (simp add: req_wf_def new_request_fields ranged_def)
    have "wire s ?s" by (simp add: wire_def ranged_def)
    then have "wire s (SendFloorRequestStatusLocked tr ?r (m_transactionId msg) (m_userId msg) [] True (set_request ?k ?r ?s))"
      using q assms(1,2) by (intro wire_post) simp_all
    then show ?thesis
      using False wire_trans [OF _ wire_Grant] by (simp add: ProcessFloorRequestLocked_def Let_def wire_post)
  qed
qed

lemma wire_FloorRelease:
  assumes "wf16 (m_transactionId msg)" and "wf16 (m_userId msg)" and "wf16 (u_userId user)"
    and p: "ProcessFloorReleaseLocked tr msg req user s = Some t"
  shows "wire s t"
proof (rule wireI)
  assume r: "ranged s"
  note E = wire_ReplyError [OF assms(1,2)]
  from p obtain k where k: "req = Some k"
    by (auto simp: ProcessFloorReleaseLocked_def split: option.splits)
  show "wire s t"
  proof (cases "om_find k (s_floorRequests s)")
    case (Some q)
    with r have "req_wf q" by (rule ranged_request)
    then show ?thesis
      using p assms E Some by (auto simp: ProcessFloorReleaseLocked_def GetFloorRequestLocked_def k Let_def
        intro!: wire_post wire_refl split: if_splits)
  qed (use p E in \<open>auto simp: ProcessFloorReleaseLocked_def GetFloorRequestLocked_def k\<close>)
qed

lemma wire_FloorQuery:
  assumes "wf16 (m_transactionId msg)" and "wf16 (m_userId msg)" and u: "om_find k (s_users s) = Some user"
  shows "wire s (ProcessFloorQueryLocked tr msg req k user s)"
proof (rule wireI)
  assume r: "ranged s"
  show "wire s (ProcessFloorQueryLocked tr msg req k user s)"
  proof (cases "list_ex (\<lambda>f. \<not> HasFloorLocked f s) req")
    case True
    then show ?thesis
      using wire_ReplyError [OF assms(1,2)] by (simp add: ProcessFloorQueryLocked_def)
  next
    case False
    let ?u = "fold AddQueriedFloorId req (ResetQueriedFloorIds user)"
    have "\<forall>f \<in> set req. wf16 f"
      using False r by (auto simp: list_ex_iff HasFloorLocked_def ranged_def)
    then have w: "user_wf (k, ?u)"
      using ranged_user [OF r u] by (auto simp: user_wf_def fold_AddQueried fold_queried ResetQueriedFloorIds_def)
    have s: "wire s (set_user k ?u s)"
      by (rule wire_post(6) [OF wire_refl w])
    have empty: "effect_ok (SentTo t ((BFCPMessage_new (MsgFloorStatus BFCPMsgFloorStatus_new) (m_transactionId msg)
        c (m_userId msg))\<lparr>m_responder := True\<rparr>))" for t c
      using assms by (simp add: effect_ok.simps msg_wf_def BFCPMessage_new_def BFCPMsgFloorStatus_new_def)
    have one: "wire t (query_reply tr msg ?u (i, f) t)" if "wf16 f" for i f t
    proof (rule wireI)
      assume rt: "ranged t"
      let ?n = "if i = 0 then (m_transactionId msg, t) else NotificationTransactionIdLocked tr (Some ?u) t"
      have n: "wire t (snd ?n)" "wf16 (fst ?n)"
        using Notification_range [of tr "Some ?u" t] assms(1) by (auto simp: wire_Notification)
      then have "ranged (snd ?n)" using rt by (simp add: wire_def)
      then have "effect_ok (SentTo x ((BuildFloorStatusLocked f (fst ?n) (m_userId msg) (snd ?n))\<lparr>m_responder := b\<rparr>))" for x b
        using Build_ok [OF _ that n(2) assms(2), of "snd ?n" x] by (simp add: effect_ok.simps msg_wf_def)
      then show "wire t (query_reply tr msg ?u (i, f) t)"
        unfolding query_reply_def case_prod_conv case_prod_beta [of _ ?n] by (intro wire_post n(1))
    qed
    have "wire (set_user k ?u s) (fold (query_reply tr msg ?u) (zip [0..<length (u_queriedFloorIds ?u)] (u_queriedFloorIds ?u)) (set_user k ?u s))"
      using w by (intro wire_fold) (auto simp: user_wf_def dest!: set_zip_rightD intro!: one)
    then show ?thesis
      using False w empty wire_trans [OF s] by (auto simp: ProcessFloorQueryLocked_def Let_def intro!: wire_post)
  qed
qed

lemma hello_ack_wf: "body_wf (MsgHelloAck hello_ack_body)"
  by code_simp

lemma wire_Hello:
  assumes "wf16 (m_transactionId msg)" and "wf16 (m_userId msg)"
  shows "wire s (ProcessHelloLocked tr msg user s)"
proof -
  have a: "effect_ok (SentTo t ((BFCPMessage_new (MsgHelloAck hello_ack_body) (m_transactionId msg) c (m_userId msg))
      \<lparr>m_responder := True\<rparr>))" for t c
    using assms hello_ack_wf by (simp add: effect_ok.simps msg_wf_def BFCPMessage_new_def)
  have h: "wf16 i \<Longrightarrow> effect_ok (SentTo t (BFCPMessage_new MsgHello i c (m_userId msg)))" for t i c
    using assms by (simp add: effect_ok.simps msg_wf_def BFCPMessage_new_def)
  have n: "wf16 (fst (NextTransactionIdLocked s))" for s
    using pos_mod_bound [of 65535 "s_transactionCounter s"] pos_mod_sign [of 65535 "s_transactionCounter s"]
    by (simp add: NextTransactionIdLocked_def Let_def)
  show ?thesis
    unfolding ProcessHelloLocked_def Let_def case_prod_beta
    by (intro wire_post(2) wire_if wire_post(11) wire_trans [OF _ wire_Next] wire_refl a h n)
qed

lemma wire_Goodbye:
  assumes "wf16 (m_transactionId msg)" and "wf16 (m_userId msg)"
  shows "wire s (ProcessGoodbyeLocked tr msg user s)"
  unfolding ProcessGoodbyeLocked_def Let_def
  by (intro wire_trans [OF _ wire_RemoveUser] wire_post(11) wire_refl goodbye_ok(2) assms)


section \<open>Steps\<close>

text \<open>The steps of a server whose messages come from \<open>BFCPMessage::Parse\<close>.\<close>

inductive octet_step :: "medkit \<Rightarrow> transports \<Rightarrow> server \<Rightarrow> server \<Rightarrow> bool" for io tr where
  octet_call: "call_step tr s s' \<Longrightarrow> octet_step io tr s s'"
| octet_message: "BFCPMessage_Parse io data = Some msg \<Longrightarrow> MessageReceived tr msg t s = Some s' \<Longrightarrow> octet_step io tr s s'"

inductive_cases octet_stepE: "octet_step io tr s s'"

lemma octet_server: "octet_step io tr s s' \<Longrightarrow> server_step tr s s'"
  by (auto elim!: octet_stepE intro: server_step.intros)

lemma wire_dispatch:
  assumes "wf16 (m_transactionId msg)" and "wf16 (m_userId msg)" and "good s"
    and u: "om_find (m_userId msg) (s_users s) = Some user"
    and d: "dispatch_primitive tr msg t user s = Some s'" and "s_floorRequestCounter s' \<le> 65536"
  shows "wire s s'"
proof -
  have "wf16 (u_userId user)" "0 \<le> s_floorRequestCounter s"
    using good_user [OF assms(3) u] assms(2,3) by (simp_all add: user_ok_def good_def consistent_def)
  with assms wire_ReplyError [OF assms(1,2)] show ?thesis
    by (auto simp: dispatch_primitive_def Let_def wire_FloorQuery wire_Hello wire_Goodbye
      intro: wire_FloorRelease wire_FloorRequest split: BFCPBody.splits if_splits)
qed

lemma MessageReceived_split:
  assumes "MessageReceived tr msg t s = Some s'"
  shows "s' = s \<or> (\<exists>code info. s' = ReplyErrorLocked msg (Some t) code info s)
    \<or> (\<exists>user v s0 s1. om_find (m_userId msg) (s_users s) = Some user
        \<and> s0 = (if u_transport user \<noteq> Some t then AttachTransportLocked tr (m_userId msg) t s else s)
        \<and> om_find (m_userId msg) (s_users s0) = Some v
        \<and> dispatch_primitive tr msg t v s0 = Some s1 \<and> s' = Fire s1)"
proof (cases "om_find (m_userId msg) (s_users s)")
  case (Some user)
  then show ?thesis
    using assms by (cases "u_transport user = Some t"; cases "IsConnected user"; cases "GetPrimitive msg = prim_code P_Hello")
      (simp_all add: MessageReceived_def GetUserLocked_def Let_def split: if_splits option.splits; blast)+
qed (use assms in \<open>auto simp: MessageReceived_def GetUserLocked_def split: if_splits\<close>)

lemma wire_MessageReceived:
  assumes "wf16 (m_transactionId msg)" and "wf16 (m_userId msg)" and g: "good s"
    and m: "MessageReceived tr msg t s = Some s'" and c: "s_floorRequestCounter s' \<le> 65536"
  shows "wire s s'"
  using MessageReceived_split [OF m]
proof (elim disjE exE conjE)
  fix user v s0 s1
  assume s0: "s0 = (if u_transport user \<noteq> Some t then AttachTransportLocked tr (m_userId msg) t s else s)"
    and v: "om_find (m_userId msg) (s_users s0) = Some v"
    and d: "dispatch_primitive tr msg t v s0 = Some s1" and s': "s' = Fire s1"
  have "good s0" "wire s s0"
    by (simp_all add: s0 g good_Attach wire_Attach)
  moreover have "s_floorRequestCounter s1 \<le> 65536"
    using c by (simp add: s' Fire_def)
  ultimately show ?thesis
    unfolding s' using wire_dispatch [OF assms(1,2) _ v d] by (intro wire_post(3)) (auto intro: wire_trans)
qed (use wire_ReplyError [OF assms(1,2)] in auto)

lemma wire_End: "wire s (End tr s)"
proof (rule wireI)
  assume r: "ranged s"
  let ?s1 = "fold (end_request tr (str ''conference ended'')) (om_keys (s_floorRequests s)) (s\<lparr>s_ending := True\<rparr>)"
  have "wire s (s\<lparr>s_ending := True\<rparr>)" by (simp add: wire_def ranged_def)
  then have "wire s ?s1" by (rule wire_trans) (simp add: wire_fold wire_end_request)
  then have "wire s (?s1\<lparr>s_floorRequests := []\<rparr>)" by (rule wire_trans) (simp add: wire_def ranged_def)
  moreover have "wire t (end_user tr x t)" if "x \<in> set (s_users s)" for x t
  proof -
    have u: "user_wf x" using r that by (simp add: ranged_def)
    then have "wf16 (u_userId (snd x))" by (simp add: user_wf_def)
    with u show ?thesis
      unfolding end_user_def case_prod_beta [of _ x] Let_def
      by (intro wire_Close wire_if wire_Goodbye_to wire_refl) simp_all
  qed
  ultimately have "wire s (fold (end_user tr) (s_users ?s1) (?s1\<lparr>s_floorRequests := []\<rparr>))"
    by (intro wire_trans [OF _ wire_fold]) simp_all
  then have "wire s (fold (end_user tr) (s_users ?s1) (?s1\<lparr>s_floorRequests := []\<rparr>)\<lparr>s_users := []\<rparr>)"
    by (rule wire_trans) (simp add: wire_def ranged_def)
  then show "wire s (End tr s)"
    by (simp add: End_def Let_def wire_post)
qed

lemma wire_AddUser: "wire s (snd (AddUser k s))"
  by (auto simp: AddUser_def BFCPUser_new_def user_wf_def intro!: wire_set_user)

lemma wire_SetChair: "wire s (snd (SetChair k s))"
proof (rule wireI)
  assume r: "ranged s"
  let ?s = "s\<lparr>s_users := om_map (\<lambda>u. u\<lparr>u_isChair := False\<rparr>) (s_users s)\<rparr>"
  have "wire s ?s" by (auto simp: wire_def ranged_def om_map_def user_wf_def)
  moreover have "om_find k (s_users s) = Some u \<Longrightarrow> user_wf (k, u\<lparr>u_isChair := True\<rparr>)" for u
    using ranged_user [OF r, of k u] by (simp add: user_wf_def)
  ultimately show "wire s (snd (SetChair k s))"
    by (auto simp: SetChair_def GetUserLocked_def Let_def intro!: wire_post split: option.split)
qed

lemma wire_AddFloor: "wire s (snd (AddFloor f s))"
  by (auto simp: AddFloor_def wire_def ranged_def set_os_insert)

lemma wire_NotifyFloorStatus: "wire s (snd (NotifyFloorStatus tr k f s))"
proof (rule wireI)
  assume r: "ranged s"
  show "wire s (snd (NotifyFloorStatus tr k f s))"
  proof (cases "s_ending s \<or> om_find k (s_users s) = None \<or> \<not> HasFloorLocked f s")
    case False
    then obtain u where u: "om_find k (s_users s) = Some u" by auto
    let ?n = "NotificationTransactionIdLocked tr (Some u) s"
    have "wf16 f" using False r by (auto simp: HasFloorLocked_def ranged_def)
    moreover have "wf16 k" using ranged_user [OF r u] by (simp add: user_wf_def)
    moreover have "ranged (snd ?n)" using r wire_Notification by (auto simp: wire_def)
    ultimately have "wire s (snd (SendMessage tr u (BuildFloorStatusLocked f (fst ?n) k (snd ?n)) (snd ?n)))"
      using Notification_range by (intro wire_post wire_refl Build_ok) simp_all
    with False u show ?thesis
      by (simp add: NotifyFloorStatus_def GetUserLocked_def case_prod_beta)
  qed (auto simp: NotifyFloorStatus_def GetUserLocked_def split: option.split)
qed

lemma wire_call:
  assumes "call_step tr s s'"
  shows "wire s s'"
proof -
  have S: "p = (ok, s') \<Longrightarrow> wire s (snd p) \<Longrightarrow> wire s s'" for p and ok :: bool by simp
  show ?thesis
    using assms
    by cases (auto simp: wire_End RemoveUser_def GrantFloorRequest_def DenyFloorRequest_def RevokeFloorRequest_def
      UserConnected_def UserDisconnected_def TransportClosed_def case_prod_beta
      wire_RemoveUser wire_Grant wire_Deny wire_Revoke wire_Attach wire_Detach
      intro!: wire_post(3) intro: S [OF _ wire_AddUser] S [OF _ wire_SetChair] S [OF _ wire_AddFloor]
        S [OF _ wire_NotifyFloorStatus] split: if_splits option.splits list.splits)
qed

lemma counter_frame [simp]:
  "s_floorRequestCounter (snd (RemoveUserLocked tr k b s)) = s_floorRequestCounter s"
  "s_floorRequestCounter (AttachTransportLocked tr k t s) = s_floorRequestCounter s"
  "s_floorRequestCounter (DetachTransportLocked tr k s) = s_floorRequestCounter s"
  "s_floorRequestCounter (Fire s) = s_floorRequestCounter s"
  by (simp_all add: RemoveUserLocked_def AttachTransportLocked_def DetachTransportLocked_def Let_def case_prod_beta
      Fire_def split: option.split)

lemma counter_End [simp]: "s_floorRequestCounter (End tr s) = s_floorRequestCounter s"
proof -
  have "s_floorRequestCounter (fold (end_user tr) us t) = s_floorRequestCounter t" for us t
    by (induction us arbitrary: t) (simp_all add: end_user_def Let_def case_prod_beta)
  then show ?thesis by (simp add: End_def Let_def)
qed

lemma counter_query [simp]: "s_floorRequestCounter (fold (query_reply tr msg u) xs s) = s_floorRequestCounter s"
  by (rule core_eqD(5)) (simp add: core_fold core_query_reply)

lemma counter_dispatch:
  "dispatch_primitive tr msg t u s = Some s' \<Longrightarrow> s_floorRequestCounter s \<le> s_floorRequestCounter s'"
  by (auto simp: dispatch_primitive_def Let_def ProcessFloorRequestLocked_def ProcessFloorReleaseLocked_def
      ProcessFloorQueryLocked_def ProcessHelloLocked_def ProcessGoodbyeLocked_def case_prod_beta push_back_def
      set_request_def erase_request_def split: BFCPBody.splits if_splits option.splits)

lemma counter_call:
  assumes "call_step tr s s'"
  shows "s_floorRequestCounter s' = s_floorRequestCounter s"
  using assms
  by cases (auto simp: AddUser_def RemoveUser_def SetChair_def AddFloor_def GrantFloorRequest_def DenyFloorRequest_def
      RevokeFloorRequest_def NotifyFloorStatus_def UserConnected_def UserDisconnected_def TransportClosed_def Let_def
      case_prod_beta split: if_splits option.splits list.splits dest!: arg_cong [of _ _ snd])

lemma counter_mono:
  assumes "server_step tr s s'"
  shows "s_floorRequestCounter s \<le> s_floorRequestCounter s'"
  using assms
proof cases
  case (step_MessageReceived msg t)
  from MessageReceived_split [OF this] show ?thesis
    by (auto dest!: counter_dispatch split: if_splits)
qed (simp add: counter_call)

definition wire_inv :: "server \<Rightarrow> bool" where
  "wire_inv s \<longleftrightarrow> server_inv s \<and> (s_floorRequestCounter s \<le> 65536 \<longrightarrow> ranged s \<and> list_all effect_ok (s_sent s))"

lemma wire_inv_step:
  assumes "wire_inv s" and "server_step tr s s'" and "s_floorRequestCounter s' \<le> 65536 \<Longrightarrow> wire s s'"
  shows "wire_inv s'"
  using assms inv_step [OF _ assms(2)] counter_mono [OF assms(2)]
  by (auto simp: wire_inv_def wire_def)

sublocale medkit_octets \<subseteq> wired: invariant_system
  "\<lambda>s. \<exists>c. 0 \<le> c \<and> c < 2 ^ 31 \<and> s = BFCPFloorControlServer_new c" "octet_step io tr" wire_inv for tr
proof
  fix s assume "\<exists>c. 0 \<le> c \<and> c < 2 ^ 31 \<and> s = BFCPFloorControlServer_new c"
  then show "wire_inv s"
    using srv.init_inv by (auto simp: wire_inv_def) (simp_all add: ranged_def BFCPFloorControlServer_new_def)
next
  fix s s' assume i: "wire_inv s" and st: "octet_step io tr s s'"
  have "wire s s'" if "s_floorRequestCounter s' \<le> 65536"
    using st
  proof cases
    case (octet_message d msg t)
    from octet_message(1) have "wf16 (m_transactionId msg)" "wf16 (m_userId msg)"
      using get2_bounds by (auto elim!: Parse_Some)
    with octet_message(2) i that show ?thesis
      by (intro wire_MessageReceived) (auto simp: wire_inv_def server_inv_def)
  qed (rule wire_call)
  with i octet_server [OF st] show "wire_inv s'"
    by (rule wire_inv_step)
qed


context medkit_octets
begin

lemma octets_wired:
  assumes "0 \<le> c" and "c < 2 ^ 31" and "(octet_step io tr)\<^sup>*\<^sup>* (BFCPFloorControlServer_new c) s"
  shows "wire_inv s"
  using wired.reachable_inv [OF _ assms(3)] assms(1,2) by blast

end

section \<open>Properties\<close>

definition decoded_conference :: server where
  "decoded_conference = snd (AddFloor 700 (snd (AddFloor 3 (snd (AddUser 12 (BFCPFloorControlServer_new 77))))))"

definition decoded_request :: server where
  "decoded_request = the (MessageReceived tcp (sample_request\<lparr>m_version := 2\<rparr>) 100 decoded_conference)"


definition decoded_reply :: BFCPMessage where
  "decoded_reply = (CreateFloorRequestStatus (new_request 1 sample_request
     \<lparr>mfr_floorIds = [3, 700], mfr_beneficiaryId = Some 12, mfr_participantProvidedInfo = None\<rparr> 77) 258)
     \<lparr>m_responder := True\<rparr>"

lemma octet_ops:
  assumes "(octet_step io tr)\<^sup>*\<^sup>* a s"
  shows "(octet_step io tr)\<^sup>*\<^sup>* a (snd (AddUser u s))" "(octet_step io tr)\<^sup>*\<^sup>* a (snd (AddFloor f s))"
  using rtranclp.rtrancl_into_rtrancl [OF assms octet_call] call_step.intros(1,4) prod.collapse by metis+

lemma decoded_steps: "(octet_step network_order tcp)\<^sup>*\<^sup>* (BFCPFloorControlServer_new 77) decoded_request"
proof -
  have "(octet_step network_order tcp)\<^sup>*\<^sup>* (BFCPFloorControlServer_new 77) decoded_conference"
    unfolding decoded_conference_def by (intro octet_ops rtranclp.rtrancl_refl)
  moreover have "MessageReceived tcp (sample_request\<lparr>m_version := 2\<rparr>) 100 decoded_conference = Some decoded_request"
    using MessageReceived_valid [of "sample_request\<lparr>m_version := 2\<rparr>" tcp 100 decoded_conference] sample_wf(2)
    by (auto simp: decoded_request_def)
  then have "octet_step network_order tcp decoded_conference decoded_request"
    by (rule octet_message [OF sample_Parse [of "[]"]])
  ultimately show ?thesis
    by (rule rtranclp.rtrancl_into_rtrancl)
qed

definition reply_octets :: "byte list" where
  "reply_octets = [48, 4, 0, 9, 0, 0, 0, 77, 1, 2, 0, 12, 31, 36, 0, 1, 36, 8, 0, 1, 10, 4, 1, 0,
     35, 8, 0, 3, 10, 4, 1, 0, 35, 8, 2, 188, 10, 4, 1, 0, 28, 4, 0, 12, 32, 4, 0, 12]"

lemma decoded_reply_fields:
  "decoded_reply = \<lparr>m_transactionId = 258, m_conferenceId = 77, m_userId = 12, m_version = 1, m_responder = True,
     m_body = MsgFloorRequestStatus (Some \<lparr>fri_floorRequestId = 1,
       fri_floorRequestStatuses = [
         \<lparr>frs_floorId = 3, frs_requestStatus = Some \<lparr>rs_status = Pending, rs_queuePosition = 0\<rparr>\<rparr>,
         \<lparr>frs_floorId = 700, frs_requestStatus = Some \<lparr>rs_status = Pending, rs_queuePosition = 0\<rparr>\<rparr>],
       fri_overallRequestStatus = Some \<lparr>ors_floorRequestId = 1,
         ors_requestStatus = Some \<lparr>rs_status = Pending, rs_queuePosition = 0\<rparr>, ors_statusInfo = None\<rparr>,
       fri_beneficiaryInformation = Some 12, fri_requestedByInformation = Some 12\<rparr>)\<rparr>"
  by code_simp

lemma overall_octets:
  "BFCPAttrOverallRequestStatus_Serialize network_order \<lparr>ors_floorRequestId = 1,
     ors_requestStatus = Some \<lparr>rs_status = Pending, rs_queuePosition = 0\<rparr>, ors_statusInfo = None\<rparr> k False
   = (if k < 8 then None else Some [36, 8, 0, 1, 10, 4, 1, 0])"
  by (simp add: BFCPAttrOverallRequestStatus_Serialize_def BFCPAttrOverallRequestStatus_contents_def
      BFCPAttrRequestStatus_Serialize_def BFCPAttrRequestStatus_contents_def serialize_eval)

lemma floor_octets:
  "BFCPAttrFloorRequestStatus_Serialize network_order
     \<lparr>frs_floorId = f, frs_requestStatus = Some \<lparr>rs_status = Pending, rs_queuePosition = 0\<rparr>\<rparr> k True
   = (if k < 8 then None else Some ([35, 8] @ set2 network_order f @ [10, 4, 1, 0]))"
  by (simp add: BFCPAttrFloorRequestStatus_Serialize_def BFCPAttrFloorRequestStatus_contents_def
      BFCPAttrRequestStatus_Serialize_def BFCPAttrRequestStatus_contents_def serialize_eval)

lemma reply_Serialize: "BFCPMessage_Serialize network_order decoded_reply 100 1 = Some reply_octets"
  by (simp add: decoded_reply_fields BFCPMsgFloorRequestStatus_SerializeAttributes_def
      BFCPAttrFloorRequestInformation_Serialize_def BFCPAttrFloorRequestInformation_contents_def
      overall_octets floor_octets BFCPAttrBeneficiaryInformation_Serialize_def
      BFCPAttrRequestedByInformation_Serialize_def reply_octets_def serialize_eval)



section \<open>How many floors fit\<close>

text \<open>\<open>sized c ser\<close>: the serializer writes \<open>c\<close> octets, or fails when fewer are left.\<close>

definition sized :: "nat \<Rightarrow> (nat \<Rightarrow> byte list option) \<Rightarrow> bool" where
  "sized c ser \<longleftrightarrow> (\<forall>k. if c \<le> k then \<exists>w. ser k = Some w \<and> length w = c else ser k = None)"

lemma sized_Write:
  assumes "length contents \<le> 253"
  shows "sized (Padded (length contents + 2)) (\<lambda>k. BFCPAttribute_Write k type m contents)"
proof -
  have "Padded (length contents + 2) \<le> k \<Longrightarrow> \<exists>w. BFCPAttribute_Write k type m contents = Some w" for k
    using Write_None_iff [of k type m contents] assms by (cases "BFCPAttribute_Write k type m contents") auto
  then show ?thesis
    using Write_None_iff [of _ type m contents] assms Write_length by (fastforce simp: sized_def)
qed

text \<open>\<open>adds c f\<close>: the same for a step that appends to the contents of an attribute.\<close>

definition adds :: "nat \<Rightarrow> (byte list \<Rightarrow> byte list option) \<Rightarrow> bool" where
  "adds c f \<longleftrightarrow> (\<forall>out. length out \<le> MaxLength \<longrightarrow>
     (if length out + c \<le> MaxLength then \<exists>w. f out = Some (out @ w) \<and> length w = c else f out = None))"

lemma addsD:
  assumes "adds c f" and "length out \<le> MaxLength"
  shows "length out + c \<le> MaxLength \<Longrightarrow> \<exists>w. f out = Some (out @ w) \<and> length w = c"
    and "\<not> length out + c \<le> MaxLength \<Longrightarrow> f out = None"
  using assms by (auto simp: adds_def)

lemma adds_attr: "sized c ser \<Longrightarrow> adds c (append_attr ser MaxLength)"
  unfolding adds_def
proof (intro allI impI)
  fix out :: "byte list" assume s: "sized c ser" and l: "length out \<le> MaxLength"
  have "c \<le> MaxLength - length out \<longleftrightarrow> length out + c \<le> MaxLength" using l by arith
  then show "if length out + c \<le> MaxLength then \<exists>w. append_attr ser MaxLength out = Some (out @ w) \<and> length w = c
      else append_attr ser MaxLength out = None"
    using s [unfolded sized_def, rule_format, of "MaxLength - length out"]
    by (auto simp: append_attr_def split: if_splits)
qed

lemma adds_bind:
  assumes f: "adds c f" and g: "adds d g"
  shows "adds (c + d) (\<lambda>out. Option.bind (f out) g)"
  unfolding adds_def
proof (intro allI impI)
  fix out :: "byte list" assume l: "length out \<le> MaxLength"
  show "if length out + (c + d) \<le> MaxLength then \<exists>w. Option.bind (f out) g = Some (out @ w) \<and> length w = c + d
    else Option.bind (f out) g = None"
  proof (cases "length out + c \<le> MaxLength")
    case True
    then obtain w where w: "f out = Some (out @ w)" "length w = c" using addsD(1) [OF f l] by auto
    with True addsD [OF g, of "out @ w"] show ?thesis by (auto simp: add.assoc)
  next
    case False
    with addsD(2) [OF f l] show ?thesis by auto
  qed
qed

lemma adds_all:
  assumes "\<And>x. x \<in> set xs \<Longrightarrow> sized c (ser x)"
  shows "adds (length xs * c) (append_all ser MaxLength xs)"
  using assms
proof (induction xs)
  case (Cons x xs)
  have "append_all ser MaxLength (x # xs) = (\<lambda>out. Option.bind (append_attr (ser x) MaxLength out) (append_all ser MaxLength xs))"
    by (rule ext) simp
  with adds_bind [OF adds_attr [OF Cons.prems [of x]] Cons.IH] Cons.prems show ?case by simp
qed (simp add: adds_def)

lemma sized_status: "sized 4 (\<lambda>k. BFCPAttrRequestStatus_Serialize rs k m)"
  using sized_Write [of "BFCPAttrRequestStatus_contents rs" RequestStatus m]
  by (simp add: BFCPAttrRequestStatus_Serialize_def BFCPAttrRequestStatus_contents_def Padded_div)

lemma sized_bind:
  assumes "a = Some c" and "length c \<le> 253"
  shows "sized (Padded (length c + 2)) (\<lambda>k. Option.bind a (BFCPAttribute_Write k type m))"
  using sized_Write [OF assms(2)] by (simp add: assms(1))

lemma sized_floor:
  "sized 8 (\<lambda>k. BFCPAttrFloorRequestStatus_Serialize io \<lparr>frs_floorId = f, frs_requestStatus = Some rs\<rparr> k m)"
proof -
  obtain w where "BFCPAttrFloorRequestStatus_contents io \<lparr>frs_floorId = f, frs_requestStatus = Some rs\<rparr> = Some (set2 io f @ w)"
    and "length w = 4"
    using addsD(1) [OF adds_attr [OF sized_status], of "set2 io f" rs False]
    by (auto simp: BFCPAttrFloorRequestStatus_contents_def append_opt_def MaxLength_def)
  from sized_bind [OF this(1), of FloorRequestStatus m] this(2) show ?thesis
    by (simp add: BFCPAttrFloorRequestStatus_Serialize_def Padded_div)
qed

lemma sized_overall:
  "sized 8 (\<lambda>k. BFCPAttrOverallRequestStatus_Serialize io
     \<lparr>ors_floorRequestId = i, ors_requestStatus = Some rs, ors_statusInfo = None\<rparr> k m)"
proof -
  obtain w where "BFCPAttrOverallRequestStatus_contents io
      \<lparr>ors_floorRequestId = i, ors_requestStatus = Some rs, ors_statusInfo = None\<rparr> = Some (set2 io i @ w)"
    and "length w = 4"
    using addsD(1) [OF adds_attr [OF sized_status], of "set2 io i" rs False]
    by (auto simp: BFCPAttrOverallRequestStatus_contents_def append_opt_def MaxLength_def)
  from sized_bind [OF this(1), of OverallRequestStatus m] this(2) show ?thesis
    by (simp add: BFCPAttrOverallRequestStatus_Serialize_def Padded_div)
qed

lemma sized_by:
  "sized 4 (\<lambda>k. BFCPAttrBeneficiaryInformation_Serialize io b k m)"
  "sized 4 (\<lambda>k. BFCPAttrRequestedByInformation_Serialize io b k m)"
  using sized_Write [of "set2 io b"]
  by (simp_all add: BFCPAttrBeneficiaryInformation_Serialize_def BFCPAttrRequestedByInformation_Serialize_def Padded_div)


lemma sized_information:
  fixes r
  defines "c \<equiv> 18 + 8 * length (q_floorIds r)"
  shows "length (q_floorIds r) \<le> 29 \<Longrightarrow>
      sized (2 + c) (\<lambda>k. BFCPAttrFloorRequestInformation_Serialize io (CreateFloorRequestInformation r) k m)"
    and "\<not> length (q_floorIds r) \<le> 29 \<Longrightarrow>
      BFCPAttrFloorRequestInformation_Serialize io (CreateFloorRequestInformation r) k m = None"
proof -
  let ?contents = "BFCPAttrFloorRequestInformation_contents io (CreateFloorRequestInformation r)"
  let ?st = "\<lparr>rs_status = q_status r, rs_queuePosition = q_queuePosition r\<rparr>"
  let ?fs = "map (\<lambda>f. \<lparr>frs_floorId = f, frs_requestStatus = Some ?st\<rparr>) (q_floorIds r)"
  let ?out = "set2 io (q_floorRequestId r)"
  have statuses: "adds (length ?fs * 8) (append_all (\<lambda>st k. BFCPAttrFloorRequestStatus_Serialize io st k True) MaxLength ?fs)"
    by (rule adds_all) (auto intro: sized_floor)
  note adds_bind [OF adds_attr [OF sized_overall [of io "q_floorRequestId r" ?st False]] adds_bind [OF statuses
    adds_bind [OF adds_attr [OF sized_by(1) [of io "q_beneficiaryId r" False]] adds_attr [OF sized_by(2) [of io "q_userId r" False]]]]]
  note whole = addsD [OF this, of ?out]
  have fits: "\<exists>w. ?contents = Some (?out @ w) \<and> length w + 2 = c" if "length (q_floorIds r) \<le> 29"
    using whole(1) that
    by (simp add: CreateInformation_fields BFCPAttrFloorRequestInformation_contents_def append_opt_def c_def MaxLength_def mult.commute)
  have fails: "?contents = None" if "\<not> length (q_floorIds r) \<le> 29"
    using whole(2) that
    by (simp add: CreateInformation_fields BFCPAttrFloorRequestInformation_contents_def append_opt_def MaxLength_def)
  show "sized (2 + c) (\<lambda>k. BFCPAttrFloorRequestInformation_Serialize io (CreateFloorRequestInformation r) k m)"
    if n: "length (q_floorIds r) \<le> 29"
  proof -
    obtain w where w: "?contents = Some (set2 io (q_floorRequestId r) @ w)" "length w + 2 = c" using fits [OF n] by auto
    have "Padded (c + 2) = 2 + c" unfolding c_def by (subst Padded_id) simp_all
    with sized_bind [OF w(1), of FloorRequestInformation m] w(2) n show ?thesis
      by (simp add: BFCPAttrFloorRequestInformation_Serialize_def c_def)
  qed
  show "BFCPAttrFloorRequestInformation_Serialize io (CreateFloorRequestInformation r) k m = None"
    if "\<not> length (q_floorIds r) \<le> 29"
    using fails [OF that] by (simp add: BFCPAttrFloorRequestInformation_Serialize_def)
qed



end
