(* ===== verification/BfcpTcp.thy ===== *)
theory BfcpTcp
  imports BfcpWire "HOL-Library.Sublist"
begin

text \<open>
  One TCP connection of the floor control (\<open>BFCPTcpConnection\<close> in \<open>BFCPTcpTransport.cpp\<close>): the queue of
  octets to send, the buffer of octets received, the frames cut from it.

  The kernel side of the socket is part of the state: \<open>c_sock\<close> is what the next calls of \<open>send\<close> answer,
  the end of the list being \<open>EAGAIN\<close>, and \<open>c_wire\<close> what the socket has taken so far. \<open>Room n\<close> is room
  for \<open>n\<close> octets: \<open>send\<close> takes that many of what it is given, or all of it; a result of 0 is one of the
  failures of the code. \<open>c_wakes\<close> counts the calls of \<open>RtpSessionSet::Default().Wake()\<close>. The address of
  the peer is only used for logging.

  The calls of the floor control server (\<open>OnReadable\<close>, \<open>OnPollError\<close>) are in \<open>BfcpConference\<close>; this
  theory has what they do to the connection.
\<close>

section \<open>State\<close>

datatype io_result = Room nat | Again | Interrupted | Broken

datatype recv_result = Data "byte list" | RecvAgain | RecvInterrupted | RecvBroken

record BFCPTcpConnection =
  c_fd :: int
  c_in :: "byte list"
  c_out :: "byte list"
  c_finished :: bool
  c_wakes :: nat
  c_wire :: "byte list"
  c_sock :: "io_result list"

record pollfd =
  pf_fd :: int
  pf_in :: bool
  pf_out :: bool

definition FD_INVALID :: int where
  "FD_INVALID = -1"

definition MaxMessageLen :: nat where
  "MaxMessageLen = 65536"

definition BFCPTcpConnection_new :: "int \<Rightarrow> io_result list \<Rightarrow> BFCPTcpConnection" where
  "BFCPTcpConnection_new fd sock = \<lparr>c_fd = fd, c_in = [], c_out = [], c_finished = False, c_wakes = 0,
     c_wire = [], c_sock = sock\<rparr>"

definition Wake :: "BFCPTcpConnection \<Rightarrow> BFCPTcpConnection" where
  "Wake c = c\<lparr>c_wakes := c_wakes c + 1\<rparr>"

definition Finish :: "BFCPTcpConnection \<Rightarrow> BFCPTcpConnection" where
  "Finish c = Wake (c\<lparr>c_finished := True\<rparr>)"

section \<open>Sending\<close>

text \<open>
  The loop of \<open>SendLocked\<close>: whether the connection survived, the octets the socket did not take, and
  the connection.
\<close>

fun send_loop :: "io_result list \<Rightarrow> byte list \<Rightarrow> BFCPTcpConnection \<Rightarrow> bool \<times> byte list \<times> BFCPTcpConnection" where
  "send_loop [] data c = (True, data, c\<lparr>c_sock := []\<rparr>)"
| "send_loop (r # rs) data c =
    (if data = [] then (True, [], c\<lparr>c_sock := r # rs\<rparr>)
     else case r of
       Room n \<Rightarrow>
         if n = 0 then (False, data, Finish (c\<lparr>c_sock := rs\<rparr>))
         else send_loop rs (drop n data) (c\<lparr>c_wire := c_wire c @ take n data\<rparr>)
     | Again \<Rightarrow> (True, data, c\<lparr>c_sock := rs\<rparr>)
     | Interrupted \<Rightarrow> send_loop rs data c
     | Broken \<Rightarrow> (False, data, Finish (c\<lparr>c_sock := rs\<rparr>)))"

definition queue_rest :: "byte list \<Rightarrow> BFCPTcpConnection \<Rightarrow> BFCPTcpConnection" where
  "queue_rest rest c = (if rest = [] then c else Wake (c\<lparr>c_out := c_out c @ rest\<rparr>))"

definition SendLocked :: "byte list \<Rightarrow> BFCPTcpConnection \<Rightarrow> BFCPTcpConnection" where
  "SendLocked data c =
    (if c_out c = [] then
       (case send_loop (c_sock c) data c of (ok, rest, c) \<Rightarrow> if ok then queue_rest rest c else c)
     else queue_rest data c)"

definition Tcp_Send :: "medkit \<Rightarrow> BFCPMessage \<Rightarrow> BFCPTcpConnection \<Rightarrow> bool \<times> BFCPTcpConnection" where
  "Tcp_Send io msg c =
    (case BFCPMessage_Serialize io msg (MsgHeaderLen + 4096) (m_version msg) of
       None \<Rightarrow> (False, c)
     | Some buffer \<Rightarrow> if c_finished c then (False, c) else (True, SendLocked buffer c))"

definition Tcp_Close :: "BFCPTcpConnection \<Rightarrow> BFCPTcpConnection" where
  "Tcp_Close c = (if c_finished c then c else Finish c)"

fun write_loop :: "io_result list \<Rightarrow> BFCPTcpConnection \<Rightarrow> BFCPTcpConnection" where
  "write_loop [] c = c\<lparr>c_sock := []\<rparr>"
| "write_loop (r # rs) c =
    (if c_out c = [] \<or> c_finished c then c\<lparr>c_sock := r # rs\<rparr>
     else case r of
       Room n \<Rightarrow>
         if n = 0 then Finish (c\<lparr>c_sock := rs\<rparr>)
         else write_loop rs (c\<lparr>c_wire := c_wire c @ take n (c_out c), c_out := drop n (c_out c)\<rparr>)
     | Again \<Rightarrow> c\<lparr>c_sock := rs\<rparr>
     | Interrupted \<Rightarrow> write_loop rs c
     | Broken \<Rightarrow> Finish (c\<lparr>c_sock := rs\<rparr>))"

definition OnWritable :: "BFCPTcpConnection \<Rightarrow> BFCPTcpConnection" where
  "OnWritable c = write_loop (c_sock c) c"

definition Tcp_GetPollFds :: "int \<Rightarrow> BFCPTcpConnection \<Rightarrow> pollfd list" where
  "Tcp_GetPollFds mx c =
    (if mx < 1 \<or> c_finished c \<or> c_fd c = FD_INVALID then []
     else [\<lparr>pf_fd = c_fd c, pf_in = True, pf_out = (c_out c \<noteq> [])\<rparr>])"

section \<open>Receiving\<close>

text \<open>
  The first loop of \<open>OnReadable\<close>: whether it came to \<open>EAGAIN\<close>; otherwise the connection is finished and
  the server is told.
\<close>

fun drain :: "recv_result list \<Rightarrow> BFCPTcpConnection \<Rightarrow> bool \<times> BFCPTcpConnection" where
  "drain [] c = (True, c)"
| "drain (Data chunk # rs) c =
    (if chunk = [] then (False, Finish c) else drain rs (c\<lparr>c_in := c_in c @ chunk\<rparr>))"
| "drain (RecvAgain # rs) c = (True, c)"
| "drain (RecvInterrupted # rs) c = drain rs c"
| "drain (RecvBroken # rs) c = (False, Finish c)"

text \<open>The locked block of the second loop: what it finds at the front of the buffer.\<close>

datatype frame = NoFrame | TooLong | Frame "byte list"

definition next_frame :: "medkit \<Rightarrow> BFCPTcpConnection \<Rightarrow> frame \<times> BFCPTcpConnection" where
  "next_frame io c =
    (if c_finished c \<or> length (c_in c) < MsgHeaderLen then (NoFrame, c)
     else let total = MsgHeaderLen + nat (get2 io (c_in c) 2) * 4 in
       if total > MaxMessageLen then (TooLong, Finish c)
       else if length (c_in c) < total then (NoFrame, c)
       else (Frame (take total (c_in c)), c\<lparr>c_in := drop total (c_in c)\<rparr>))"

section \<open>What reaches the socket\<close>

datatype tcp_op = OpSend BFCPMessage | OpWritable | OpClose | OpDrain "recv_result list" | OpFrame

fun do_op :: "medkit \<Rightarrow> tcp_op \<Rightarrow> BFCPTcpConnection \<Rightarrow> BFCPTcpConnection" where
  "do_op io (OpSend msg) c = snd (Tcp_Send io msg c)"
| "do_op io OpWritable c = OnWritable c"
| "do_op io OpClose c = Tcp_Close c"
| "do_op io (OpDrain rs) c = snd (drain rs c)"
| "do_op io OpFrame c = snd (next_frame io c)"

text \<open>The octets of the messages \<open>Send\<close> took, in the order of the calls.\<close>

fun accepted :: "medkit \<Rightarrow> tcp_op list \<Rightarrow> BFCPTcpConnection \<Rightarrow> byte list" where
  "accepted io [] c = []"
| "accepted io (op # ops) c =
    (case op of
       OpSend msg \<Rightarrow> if fst (Tcp_Send io msg c) then the (BFCPMessage_Serialize io msg (MsgHeaderLen + 4096) (m_version msg)) else []
     | _ \<Rightarrow> []) @ accepted io ops (do_op io op c)"

text \<open>
  The octets handed over so far: what the socket took and what waits. Nothing is lost or swapped as
  long as the connection is up; afterwards what the socket took is a part of it.
\<close>

definition flows :: "byte list \<Rightarrow> BFCPTcpConnection \<Rightarrow> bool" where
  "flows stream c \<longleftrightarrow> prefix (c_wire c) stream \<and> (\<not> c_finished c \<longrightarrow> c_wire c @ c_out c = stream)"

lemma Wake_simps [simp]:
  "c_out (Wake c) = c_out c" "c_in (Wake c) = c_in c" "c_finished (Wake c) = c_finished c" "c_wire (Wake c) = c_wire c"
  "c_wakes (Wake c) = Suc (c_wakes c)" "c_fd (Wake c) = c_fd c" "c_sock (Wake c) = c_sock c"
  by (simp_all add: Wake_def)

lemma Finish_simps [simp]:
  "c_out (Finish c) = c_out c" "c_in (Finish c) = c_in c" "c_finished (Finish c)" "c_wire (Finish c) = c_wire c"
  "c_wakes (Finish c) = Suc (c_wakes c)" "c_fd (Finish c) = c_fd c" "c_sock (Finish c) = c_sock c"
  by (simp_all add: Finish_def)

lemma flows_Finish: "flows stream c \<Longrightarrow> flows stream (Finish c)"
  by (simp add: flows_def)

lemma send_loop_spec:
  assumes "send_loop rs data c = (ok, rest, c')"
  shows "\<exists>taken. data = taken @ rest \<and> c_wire c' = c_wire c @ taken \<and> c_out c' = c_out c \<and> c_in c' = c_in c
    \<and> c_finished c' = (c_finished c \<or> \<not> ok) \<and> c_wakes c \<le> c_wakes c' \<and> c_fd c' = c_fd c"
  using assms
proof (induction rs arbitrary: data c)
  case (Cons r rs)
  show ?case
  proof (cases "\<exists>n. r = Room n \<and> n \<noteq> 0 \<and> data \<noteq> []")
    case True
    then obtain n where n: "r = Room n" "n \<noteq> 0" "data \<noteq> []" by blast
    with Cons.prems have "send_loop rs (drop n data) (c\<lparr>c_wire := c_wire c @ take n data\<rparr>) = (ok, rest, c')" by simp
    from Cons.IH [OF this] obtain taken where "drop n data = taken @ rest" "c_wire c' = c_wire c @ take n data @ taken"
      "c_out c' = c_out c" "c_in c' = c_in c" "c_finished c' = (c_finished c \<or> \<not> ok)" "c_wakes c \<le> c_wakes c'" "c_fd c' = c_fd c"
      by auto
    then show ?thesis by (intro exI [of _ "take n data @ taken"]) (simp, metis append_take_drop_id)
  qed (use Cons in \<open>auto split: io_result.splits if_splits\<close>)
qed auto

lemma flows_SendLocked:
  assumes "flows stream c" and "\<not> c_finished c"
  shows "flows (stream @ data) (SendLocked data c)"
proof (cases "c_out c = []")
  case True
  obtain ok rest c' where s: "send_loop (c_sock c) data c = (ok, rest, c')" by (cases "send_loop (c_sock c) data c") auto
  from send_loop_spec [OF this] True assms show ?thesis
    by (auto simp: SendLocked_def s queue_rest_def flows_def)
next
  case False
  with assms show ?thesis by (auto simp: SendLocked_def queue_rest_def flows_def)
qed

lemma flows_write_loop: "flows stream c \<Longrightarrow> flows stream (write_loop rs c)"
proof (induction rs arbitrary: c)
  case (Cons r rs)
  show ?case
  proof (cases "c_out c = [] \<or> c_finished c")
    case False
    then have "flows stream (c\<lparr>c_wire := c_wire c @ take n (c_out c), c_out := drop n (c_out c)\<rparr>)" for n
      using Cons.prems by (auto simp: flows_def) (metis append_assoc append_take_drop_id prefixI)
    with Cons False show ?thesis
      by (cases r) (auto simp: flows_def)
  qed (use Cons.prems in \<open>auto simp: flows_def\<close>)
qed (simp add: flows_def)

lemma drain_keeps:
  "drain rs c = (ok, c') \<Longrightarrow> c_wire c' = c_wire c \<and> c_out c' = c_out c \<and> c_finished c' = (c_finished c \<or> \<not> ok)"
  by (induction rs c rule: drain.induct) (auto split: if_splits)

lemma next_frame_keeps:
  "next_frame io c = (f, c') \<Longrightarrow> c_wire c' = c_wire c \<and> c_out c' = c_out c \<and> c_finished c' = (c_finished c \<or> f = TooLong)"
  by (auto simp: next_frame_def Let_def split: if_splits)

text \<open>
  C16. Nothing is lost, swapped or sent twice on a TCP connection. Take any sequence of calls, with
  any answers of the socket (short writes, signals, a full buffer): as long as the connection is
  up, what the socket took followed by what waits for it is exactly the serialized messages in
  the order they were accepted; after an error or \<open>Close\<close>, what the socket took is the beginning
  of that stream.
\<close>

theorem tcp_stream:
  fixes io ops fd sock
  defines "c' \<equiv> fold (do_op io) ops (BFCPTcpConnection_new fd sock)"
    and "stream \<equiv> accepted io ops (BFCPTcpConnection_new fd sock)"
  shows "prefix (c_wire c') stream \<and> (\<not> c_finished c' \<longrightarrow> c_wire c' @ c_out c' = stream)"
proof -
  have step: "flows (s @ accepted io [op] c) (do_op io op c)" if f: "flows s c" for s op c
  proof (cases op)
    case (OpSend msg)
    with f show ?thesis
      by (auto simp: Tcp_Send_def flows_SendLocked split: option.splits)
  next
    case OpWritable
    with f show ?thesis by (simp add: OnWritable_def flows_write_loop)
  next
    case OpClose
    with f show ?thesis by (simp add: Tcp_Close_def flows_Finish)
  next
    case (OpDrain rs)
    with f drain_keeps [of rs c "fst (drain rs c)" "snd (drain rs c)"] show ?thesis by (auto simp: flows_def)
  next
    case OpFrame
    with f next_frame_keeps [of io c "fst (next_frame io c)" "snd (next_frame io c)"] show ?thesis by (auto simp: flows_def)
  qed
  have "flows (s @ accepted io ops c) (fold (do_op io) ops c)" if "flows s c" for s c
    using that
  proof (induction ops arbitrary: s c)
    case (Cons op ops)
    from Cons.IH [OF step [OF Cons.prems, of op]] show ?case by simp
  qed simp
  from this [of "[]" "BFCPTcpConnection_new fd sock"] show ?thesis
    by (simp add: flows_def BFCPTcpConnection_new_def c'_def stream_def)
qed

definition farewell :: BFCPMessage where
  "farewell = BFCPMessage_new (MsgOther (prim_code P_Goodbye)) 1 77 2"

definition farewell_octets :: "byte list" where
  "farewell_octets = [32, 16, 0, 0, 0, 0, 0, 77, 0, 1, 0, 2]"

lemma farewell_Serialize: "12 \<le> mx \<Longrightarrow> BFCPMessage_Serialize network_order farewell mx 1 = Some farewell_octets"
  by (simp add: farewell_def farewell_octets_def serialize_eval)

lemma farewell_version: "m_version farewell = 1"
  by (simp add: farewell_def BFCPMessage_new_def VersionReliable_def)

theorem tcp_stream_witness:
  "let c = fold (do_op network_order) [OpSend farewell, OpWritable] (BFCPTcpConnection_new 7 [Interrupted, Room 5, Again, Room 3])
   in c_wire c = take 8 farewell_octets \<and> c_out c = drop 8 farewell_octets"
  using tcp_stream [of network_order "[OpSend farewell, OpWritable]" 7 "[Interrupted, Room 5, Again, Room 3]"]
  by (simp add: BFCPTcpConnection_new_def Tcp_Send_def farewell_version farewell_Serialize MsgHeaderLen_def
      SendLocked_def OnWritable_def queue_rest_def Wake_def farewell_octets_def Let_def)

end
