(* ===== verification/IpAddress.thy ===== *)
theory IpAddress
  imports Prelude
begin

text \<open>
  IP addresses and endpoints (\<open>ipaddress.h\<close>, \<open>ipaddress.cpp\<close>).

  The union of an \<open>in_addr\<close> and an \<open>in6_addr\<close> is the list of its octets in network order: four for
  \<open>AF_INET\<close>, sixteen for \<open>AF_INET6\<close>, none for \<open>AF_UNSPEC\<close> (\<open>ip_wf\<close>). A \<open>sockaddr\<close> is a datatype with one
  constructor per family the code distinguishes; a \<open>sockaddr_storage\<close> with its length is an option, a
  length of 0 being \<open>None\<close>. The macros \<open>IN6_IS_ADDR_*\<close> are the tests on octets that RFC 3542 defines.

  What the code asks the C library and the machine (\<open>inet_pton\<close>, \<open>inet_ntop\<close>, the names of the
  interfaces, the resolver) is the record \<open>posix\<close>, a parameter.
\<close>

section \<open>Addresses\<close>

datatype family = AF_UNSPEC | AF_INET | AF_INET6

text \<open>The values of the constants, which \<open>operator<\<close> compares.\<close>

fun family_code :: "family \<Rightarrow> int" where
  "family_code AF_UNSPEC = 0"
| "family_code AF_INET = 2"
| "family_code AF_INET6 = 10"

record IPAddress =
  ip_family :: family
  ip_addr :: "byte list"
  ip_scope :: "32 word"

datatype sockaddr =
    SockaddrIn "byte list" "16 word"
  | SockaddrIn6 "byte list" "16 word" "32 word"
  | SockaddrOther

type_synonym IPEndpoint = "sockaddr option"

definition IPAddress_new :: IPAddress where
  "IPAddress_new = \<lparr>ip_family = AF_UNSPEC, ip_addr = [], ip_scope = 0\<rparr>"

definition IsSet :: "IPAddress \<Rightarrow> bool" where
  "IsSet a \<longleftrightarrow> ip_family a \<noteq> AF_UNSPEC"

definition IsV4 :: "IPAddress \<Rightarrow> bool" where
  "IsV4 a \<longleftrightarrow> ip_family a = AF_INET"

definition IsV6 :: "IPAddress \<Rightarrow> bool" where
  "IsV6 a \<longleftrightarrow> ip_family a = AF_INET6"

definition SetScope :: "32 word \<Rightarrow> IPAddress \<Rightarrow> IPAddress" where
  "SetScope index a = a\<lparr>ip_scope := index\<rparr>"

fun addr_len :: "family \<Rightarrow> nat" where
  "addr_len AF_UNSPEC = 0"
| "addr_len AF_INET = 4"
| "addr_len AF_INET6 = 16"

text \<open>The first invariant of the header: an address is never half built.\<close>

definition ip_wf :: "IPAddress \<Rightarrow> bool" where
  "ip_wf a \<longleftrightarrow> length (ip_addr a) = addr_len (ip_family a)"

text \<open>\<open>ntohl\<close> of the four octets.\<close>

definition ntohl :: "byte list \<Rightarrow> 32 word" where
  "ntohl b = push_bit 24 (ucast (b ! 0)) OR push_bit 16 (ucast (b ! 1)) OR push_bit 8 (ucast (b ! 2)) OR ucast (b ! 3)"

section \<open>The macros of the C library\<close>

definition IN6_IS_ADDR_V4MAPPED :: "byte list \<Rightarrow> bool" where
  "IN6_IS_ADDR_V4MAPPED b \<longleftrightarrow> take 10 b = replicate 10 0 \<and> b ! 10 = 0xFF \<and> b ! 11 = 0xFF"

definition IN6_IS_ADDR_UNSPECIFIED :: "byte list \<Rightarrow> bool" where
  "IN6_IS_ADDR_UNSPECIFIED b \<longleftrightarrow> b = replicate 16 0"

definition IN6_IS_ADDR_LOOPBACK :: "byte list \<Rightarrow> bool" where
  "IN6_IS_ADDR_LOOPBACK b \<longleftrightarrow> b = replicate 15 0 @ [1]"

definition IN6_IS_ADDR_MULTICAST :: "byte list \<Rightarrow> bool" where
  "IN6_IS_ADDR_MULTICAST b \<longleftrightarrow> b ! 0 = 0xFF"

definition IN6_IS_ADDR_LINKLOCAL :: "byte list \<Rightarrow> bool" where
  "IN6_IS_ADDR_LINKLOCAL b \<longleftrightarrow> b ! 0 = 0xFE \<and> b ! 1 AND 0xC0 = 0x80"

definition IN6_IS_ADDR_SITELOCAL :: "byte list \<Rightarrow> bool" where
  "IN6_IS_ADDR_SITELOCAL b \<longleftrightarrow> b ! 0 = 0xFE \<and> b ! 1 AND 0xC0 = 0xC0"

section \<open>Mapping between the families\<close>

definition IsV4Mapped :: "IPAddress \<Rightarrow> bool" where
  "IsV4Mapped a \<longleftrightarrow> ip_family a = AF_INET6 \<and> IN6_IS_ADDR_V4MAPPED (ip_addr a)"

definition Unmapped :: "IPAddress \<Rightarrow> IPAddress" where
  "Unmapped a =
    (if \<not> IsV4Mapped a then a
     else IPAddress_new\<lparr>ip_family := AF_INET, ip_addr := drop 12 (ip_addr a)\<rparr>)"

definition MappedToV6 :: "IPAddress \<Rightarrow> IPAddress" where
  "MappedToV6 a =
    (if ip_family a \<noteq> AF_INET then a
     else IPAddress_new\<lparr>ip_family := AF_INET6, ip_addr := replicate 10 0 @ [0xFF, 0xFF] @ ip_addr a\<rparr>)"

definition FromSockaddr :: "sockaddr option \<Rightarrow> IPAddress" where
  "FromSockaddr sa =
    (case sa of
       None \<Rightarrow> IPAddress_new
     | Some (SockaddrIn b port) \<Rightarrow> IPAddress_new\<lparr>ip_family := AF_INET, ip_addr := b\<rparr>
     | Some (SockaddrIn6 b port scope) \<Rightarrow>
         if IN6_IS_ADDR_V4MAPPED b then IPAddress_new\<lparr>ip_family := AF_INET, ip_addr := drop 12 b\<rparr>
         else IPAddress_new\<lparr>ip_family := AF_INET6, ip_addr := b, ip_scope := scope\<rparr>
     | Some SockaddrOther \<Rightarrow> IPAddress_new)"

definition Any :: "family \<Rightarrow> IPAddress" where
  "Any f =
    (case f of
       AF_INET \<Rightarrow> IPAddress_new\<lparr>ip_family := AF_INET, ip_addr := replicate 4 0\<rparr>
     | AF_INET6 \<Rightarrow> IPAddress_new\<lparr>ip_family := AF_INET6, ip_addr := replicate 16 0\<rparr>
     | AF_UNSPEC \<Rightarrow> IPAddress_new)"

section \<open>Classification\<close>

definition IsUnspecified :: "IPAddress \<Rightarrow> bool" where
  "IsUnspecified self =
    (let a = Unmapped self in
     case ip_family a of
       AF_INET \<Rightarrow> ntohl (ip_addr a) = 0
     | AF_INET6 \<Rightarrow> IN6_IS_ADDR_UNSPECIFIED (ip_addr a)
     | AF_UNSPEC \<Rightarrow> False)"

definition IsLoopback :: "IPAddress \<Rightarrow> bool" where
  "IsLoopback self =
    (let a = Unmapped self in
     case ip_family a of
       AF_INET \<Rightarrow> ntohl (ip_addr a) AND 0xFF000000 = 0x7F000000
     | AF_INET6 \<Rightarrow> IN6_IS_ADDR_LOOPBACK (ip_addr a)
     | AF_UNSPEC \<Rightarrow> False)"

definition IsMulticast :: "IPAddress \<Rightarrow> bool" where
  "IsMulticast self =
    (let a = Unmapped self in
     case ip_family a of
       AF_INET \<Rightarrow> ntohl (ip_addr a) AND 0xF0000000 = 0xE0000000
     | AF_INET6 \<Rightarrow> IN6_IS_ADDR_MULTICAST (ip_addr a)
     | AF_UNSPEC \<Rightarrow> False)"

definition IsLinkLocal :: "IPAddress \<Rightarrow> bool" where
  "IsLinkLocal self =
    (let a = Unmapped self in
     case ip_family a of
       AF_INET \<Rightarrow> ntohl (ip_addr a) AND 0xFFFF0000 = 0xA9FE0000
     | AF_INET6 \<Rightarrow> IN6_IS_ADDR_LINKLOCAL (ip_addr a)
     | AF_UNSPEC \<Rightarrow> False)"

definition IsPrivateV4 :: "IPAddress \<Rightarrow> bool" where
  "IsPrivateV4 self =
    (let a = Unmapped self in
     if ip_family a \<noteq> AF_INET then False
     else let ip = ntohl (ip_addr a) in
       if ip AND 0xFF000000 = 0x0A000000 then True
       else if ip AND 0xFFF00000 = 0xAC100000 then True
       else if ip AND 0xFFFF0000 = 0xC0A80000 then True
       else if ip AND 0xFFC00000 = 0x64400000 then True
       else if ip AND 0xFFFF0000 = 0xA9FE0000 then True
       else False)"

text \<open>
  \<open>(BYTE)(0xFF << (8 - rest))\<close>: the cast keeps the lower eight bits of the shifted \<open>int\<close>.
\<close>

definition prefix_mask :: "nat \<Rightarrow> byte" where
  "prefix_mask rest = push_bit (8 - rest) 0xFF"

definition InPrefix :: "IPAddress \<Rightarrow> int \<Rightarrow> IPAddress \<Rightarrow> bool" where
  "InPrefix network len self =
    (let a = Unmapped self; n = Unmapped network in
     if \<not> IsSet a \<or> ip_family a \<noteq> ip_family n then False
     else let x = ip_addr a; y = ip_addr n; bits = (if ip_family a = AF_INET then 32 else 128) in
       if len < 0 \<or> len > bits then False
       else let full = nat len div 8; rest = nat len mod 8 in
         if take full x \<noteq> take full y then False
         else if rest = 0 then True
         else x ! full AND prefix_mask rest = y ! full AND prefix_mask rest)"

definition IsUniqueLocalV6 :: "IPAddress \<Rightarrow> bool" where
  "IsUniqueLocalV6 a \<longleftrightarrow> ip_family a = AF_INET6 \<and> ip_addr a ! 0 AND 0xFE = 0xFC"

definition IsPrivate :: "IPAddress \<Rightarrow> bool" where
  "IsPrivate self =
    (let a = Unmapped self in
     case ip_family a of
       AF_INET \<Rightarrow>
         (let ip = ntohl (ip_addr a) in
          if IsPrivateV4 self then True
          else if ip AND 0xFF000000 = 0x00000000 then True
          else if ip AND 0xFF000000 = 0x7F000000 then True
          else if ip AND 0xFFFFFF00 = 0xC0000000 then True
          else if ip AND 0xFFFFFF00 = 0xC0000200 then True
          else if ip AND 0xFFFE0000 = 0xC6120000 then True
          else if ip AND 0xFFFFFF00 = 0xC6336400 then True
          else if ip AND 0xFFFFFF00 = 0xCB007100 then True
          else if ip AND 0xF0000000 = 0xF0000000 then True
          else False)
     | AF_INET6 \<Rightarrow>
         (let b = ip_addr a in
          if IN6_IS_ADDR_UNSPECIFIED b then True
          else if IN6_IS_ADDR_LOOPBACK b then True
          else if IsUniqueLocalV6 a then True
          else if IN6_IS_ADDR_LINKLOCAL b then True
          else if IN6_IS_ADDR_SITELOCAL b then True
          else if b ! 0 = 0x01 \<and> b ! 1 = 0 \<and> b ! 2 = 0 \<and> b ! 3 = 0 \<and> b ! 4 = 0 \<and> b ! 5 = 0 \<and> b ! 6 = 0 \<and> b ! 7 = 0
            then True
          else if b ! 0 = 0x20 \<and> b ! 1 = 0x01 \<and> b ! 2 = 0x0D \<and> b ! 3 = 0xB8 then True
          else if b ! 0 = 0x3F \<and> b ! 1 = 0xFF \<and> b ! 2 AND 0xF0 = 0 then True
          else False)
     | AF_UNSPEC \<Rightarrow> False)"

definition IsTeredo :: "IPAddress \<Rightarrow> bool" where
  "IsTeredo a \<longleftrightarrow> ip_family a = AF_INET6
     \<and> ip_addr a ! 0 = 0x20 \<and> ip_addr a ! 1 = 0x01 \<and> ip_addr a ! 2 = 0 \<and> ip_addr a ! 3 = 0"

definition Is6to4 :: "IPAddress \<Rightarrow> bool" where
  "Is6to4 a \<longleftrightarrow> ip_family a = AF_INET6 \<and> ip_addr a ! 0 = 0x20 \<and> ip_addr a ! 1 = 0x02"

definition NeedsScope :: "IPAddress \<Rightarrow> bool" where
  "NeedsScope a \<longleftrightarrow> ip_family a = AF_INET6 \<and> IN6_IS_ADDR_LINKLOCAL (ip_addr a) \<and> ip_scope a = 0"

definition IsUnicastDestination :: "IPAddress \<Rightarrow> bool" where
  "IsUnicastDestination a =
    (if \<not> IsSet a then False
     else if IsUnspecified a then False
     else if IsMulticast a then False
     else if NeedsScope a then False
     else True)"

definition IsAnnounceable :: "IPAddress \<Rightarrow> bool" where
  "IsAnnounceable a =
    (if \<not> IsSet a then False
     else if IsUnspecified a \<or> IsLoopback a \<or> IsMulticast a then False
     else if IsLinkLocal a then False
     else True)"

section \<open>Comparison\<close>

definition ip_eq :: "IPAddress \<Rightarrow> IPAddress \<Rightarrow> bool" where
  "ip_eq self other =
    (let a = Unmapped self; b = Unmapped other in
     if ip_family a \<noteq> ip_family b then False
     else if ip_family a = AF_UNSPEC then True
     else if ip_family a = AF_INET then ip_addr a = ip_addr b
     else if ip_addr a \<noteq> ip_addr b then False
     else if ip_scope a \<noteq> 0 \<and> ip_scope b \<noteq> 0 then ip_scope a = ip_scope b
     else True)"

text \<open>\<open>memcmp(x, y, n) < 0\<close> on blocks of the same length.\<close>

fun memcmp_lt :: "byte list \<Rightarrow> byte list \<Rightarrow> bool" where
  "memcmp_lt (x # xs) (y # ys) = (x < y \<or> x = y \<and> memcmp_lt xs ys)"
| "memcmp_lt _ _ = False"

definition ip_less :: "IPAddress \<Rightarrow> IPAddress \<Rightarrow> bool" where
  "ip_less self other =
    (let a = Unmapped self; b = Unmapped other in
     if ip_family a \<noteq> ip_family b then family_code (ip_family a) < family_code (ip_family b)
     else if ip_family a = AF_INET then memcmp_lt (ip_addr a) (ip_addr b)
     else if ip_family a = AF_INET6 then memcmp_lt (ip_addr a) (ip_addr b)
     else False)"

section \<open>Endpoints\<close>

definition FillSockaddr :: "IPAddress \<Rightarrow> 16 word \<Rightarrow> sockaddr option" where
  "FillSockaddr a port =
    (case ip_family a of
       AF_INET \<Rightarrow> Some (SockaddrIn (ip_addr a) port)
     | AF_INET6 \<Rightarrow> Some (SockaddrIn6 (ip_addr a) port (ip_scope a))
     | AF_UNSPEC \<Rightarrow> None)"

definition FillDualStackSockaddr :: "IPAddress \<Rightarrow> 16 word \<Rightarrow> sockaddr option" where
  "FillDualStackSockaddr a port =
    (if ip_family a = AF_INET then FillSockaddr (MappedToV6 a) port else FillSockaddr a port)"

definition PortOf :: "sockaddr option \<Rightarrow> 16 word" where
  "PortOf sa =
    (case sa of
       Some (SockaddrIn b port) \<Rightarrow> port
     | Some (SockaddrIn6 b port scope) \<Rightarrow> port
     | _ \<Rightarrow> 0)"

definition IPEndpoint_new :: "IPAddress \<Rightarrow> 16 word \<Rightarrow> bool \<Rightarrow> IPEndpoint" where
  "IPEndpoint_new a port dualStack = (if dualStack then FillDualStackSockaddr a port else FillSockaddr a port)"

definition To :: "IPAddress \<Rightarrow> 16 word \<Rightarrow> IPEndpoint" where
  "To a port = IPEndpoint_new a port False"

definition ToDualStack :: "IPAddress \<Rightarrow> 16 word \<Rightarrow> IPEndpoint" where
  "ToDualStack a port = IPEndpoint_new a port True"

definition Address :: "IPEndpoint \<Rightarrow> IPAddress" where
  "Address e = (if e = None then IPAddress_new else FromSockaddr e)"

definition Port :: "IPEndpoint \<Rightarrow> 16 word" where
  "Port e = (if e = None then 0 else PortOf e)"

definition ep_eq :: "IPEndpoint \<Rightarrow> IPEndpoint \<Rightarrow> bool" where
  "ep_eq e other =
    (if e = None \<or> other = None then e = None \<and> other = None
     else Port e = Port other \<and> ip_eq (Address e) (Address other))"

section \<open>Text\<close>

datatype gai = GaiAgain | GaiFailed | GaiList "sockaddr list"

record posix =
  px_inet_pton4 :: "string \<Rightarrow> byte list option"
  px_inet_pton6 :: "string \<Rightarrow> byte list option"
  px_inet_ntop4 :: "byte list \<Rightarrow> string option"
  px_inet_ntop6 :: "byte list \<Rightarrow> string option"
  px_if_nametoindex :: "string \<Rightarrow> 32 word"
  px_if_indextoname :: "32 word \<Rightarrow> string option"
  px_getaddrinfo :: "string \<Rightarrow> gai"

datatype errno = E_OK | EINVAL | ENOENT | EAGAIN

text \<open>\<open>isspace\<close>, \<open>strtoul(text, &end, 10)\<close> with a 64-bit \<open>unsigned long\<close>, \<open>c_str\<close> and \<open>%u\<close>.\<close>

definition isspace :: "char \<Rightarrow> bool" where
  "isspace c \<longleftrightarrow> c = CHR '' '' \<or> (9 \<le> (of_char c :: nat) \<and> (of_char c :: nat) \<le> 13)"

definition isdigit :: "char \<Rightarrow> bool" where
  "isdigit c \<longleftrightarrow> 48 \<le> (of_char c :: nat) \<and> (of_char c :: nat) \<le> 57"

definition dec_value :: "string \<Rightarrow> nat" where
  "dec_value s = fold (\<lambda>c n. n * 10 + (of_char c - 48)) s 0"

definition strtoul :: "string \<Rightarrow> nat \<times> string" where
  "strtoul text =
    (let s = dropWhile isspace text;
         neg = (s \<noteq> [] \<and> hd s = CHR ''-'');
         s = (if s \<noteq> [] \<and> (hd s = CHR ''-'' \<or> hd s = CHR ''+'') then tl s else s);
         ds = takeWhile isdigit s;
         n = dec_value ds in
     if ds = [] then (0, text)
     else (if n \<ge> 2 ^ 64 then 2 ^ 64 - 1 else if neg then (2 ^ 64 - n) mod 2 ^ 64 else n, dropWhile isdigit s))"

definition c_str :: "string \<Rightarrow> string" where
  "c_str s = takeWhile (\<lambda>c. c \<noteq> CHR 0x00) s"

fun show_u :: "nat \<Rightarrow> string" where
  "show_u n = (if n < 10 then [char_of (48 + n)] else show_u (n div 10) @ [char_of (48 + n mod 10)])"

declare show_u.simps [simp del]

definition IsDeprecatedV4Compatible :: "byte list \<Rightarrow> bool" where
  "IsDeprecatedV4Compatible b =
    (if \<exists>i \<in> set [0..<12]. b ! i \<noteq> 0 then False
     else if b ! 12 = 0 \<and> b ! 13 = 0 \<and> b ! 14 = 0 \<and> (b ! 15 = 0 \<or> b ! 15 = 1) then False
     else True)"

definition SplitZone :: "posix \<Rightarrow> string \<Rightarrow> (string \<times> 32 word) option" where
  "SplitZone px text =
    (case dropWhile (\<lambda>c. c \<noteq> CHR ''%'') text of
       [] \<Rightarrow> Some (text, 0)
     | pct # zone \<Rightarrow>
         let addr = takeWhile (\<lambda>c. c \<noteq> CHR ''%'') text in
         if zone = [] then None
         else let index = px_if_nametoindex px zone in
           if index \<noteq> 0 then Some (addr, index)
           else case strtoul zone of (parsed, rest) \<Rightarrow>
             if rest \<noteq> [] \<or> parsed = 0 \<or> parsed > 0xFFFFFFFF then None
             else Some (addr, of_nat parsed))"

definition Parse :: "posix \<Rightarrow> string option \<Rightarrow> IPAddress \<times> errno" where
  "Parse px arg =
    (case arg of
       None \<Rightarrow> (IPAddress_new, EINVAL)
     | Some text \<Rightarrow>
         if text = [] then (IPAddress_new, EINVAL)
         else if CHR ''['' \<in> set text \<or> CHR '']'' \<in> set text then (IPAddress_new, EINVAL)
         else if isspace (hd text) \<or> isspace (last text) then (IPAddress_new, EINVAL)
         else if CHR '':'' \<notin> set text then
           (case px_inet_pton4 px text of
              None \<Rightarrow> (IPAddress_new, EINVAL)
            | Some v4 \<Rightarrow> (IPAddress_new\<lparr>ip_family := AF_INET, ip_addr := v4\<rparr>, E_OK))
         else case SplitZone px text of
           None \<Rightarrow> (IPAddress_new, EINVAL)
         | Some (literal, scope) \<Rightarrow>
             case px_inet_pton6 px literal of
               None \<Rightarrow> (IPAddress_new, EINVAL)
             | Some v6 \<Rightarrow>
                 if IsDeprecatedV4Compatible v6 then (IPAddress_new, EINVAL)
                 else if IN6_IS_ADDR_V4MAPPED v6 then
                   (IPAddress_new\<lparr>ip_family := AF_INET, ip_addr := drop 12 v6\<rparr>, E_OK)
                 else (IPAddress_new\<lparr>ip_family := AF_INET6, ip_addr := v6, ip_scope := scope\<rparr>, E_OK))"

datatype usage = Announce | Destination

definition keep_for :: "usage \<Rightarrow> IPAddress \<Rightarrow> bool" where
  "keep_for usage addr = (if usage = Announce then IsAnnounceable addr else IsUnicastDestination addr)"

definition resolve_step ::
  "family \<Rightarrow> usage \<Rightarrow> sockaddr \<Rightarrow> IPAddress list \<times> IPAddress list \<Rightarrow> IPAddress list \<times> IPAddress list" where
  "resolve_step prefer usage p found =
    (let (preferred, other) = found; addr = FromSockaddr (Some p) in
     if \<not> keep_for usage addr then (preferred, other)
     else if list_ex (\<lambda>x. ip_eq x addr) preferred \<or> list_ex (\<lambda>x. ip_eq x addr) other then (preferred, other)
     else if prefer \<noteq> AF_UNSPEC \<and> ip_family addr = prefer then (preferred @ [addr], other)
     else (preferred, other @ [addr]))"

definition Resolve :: "posix \<Rightarrow> string option \<Rightarrow> family \<Rightarrow> usage \<Rightarrow> IPAddress list \<times> errno" where
  "Resolve px arg prefer usage =
    (case arg of
       None \<Rightarrow> ([], EINVAL)
     | Some host \<Rightarrow>
         if host = [] then ([], EINVAL)
         else let literal = fst (Parse px (Some host)) in
           if IsSet literal then ([literal], E_OK)
           else case px_getaddrinfo px host of
             GaiAgain \<Rightarrow> ([], EAGAIN)
           | GaiFailed \<Rightarrow> ([], ENOENT)
           | GaiList res \<Rightarrow>
               let (preferred, other) = fold (resolve_step prefer usage) res ([], []);
                   out = preferred @ other
               in (out, if out = [] then ENOENT else E_OK))"

definition ToString :: "posix \<Rightarrow> IPAddress \<Rightarrow> string" where
  "ToString px a =
    (case ip_family a of
       AF_INET \<Rightarrow> (case px_inet_ntop4 px (ip_addr a) of None \<Rightarrow> [] | Some buf \<Rightarrow> buf)
     | AF_INET6 \<Rightarrow>
         (case px_inet_ntop6 px (ip_addr a) of
            None \<Rightarrow> []
          | Some buf \<Rightarrow>
              if ip_scope a \<noteq> 0 then
                (case px_if_indextoname px (ip_scope a) of
                   Some name \<Rightarrow> buf @ ''%'' @ name
                 | None \<Rightarrow> buf @ ''%'' @ show_u (unat (ip_scope a)))
              else buf)
     | AF_UNSPEC \<Rightarrow> [])"

definition ToUrlString :: "posix \<Rightarrow> IPAddress \<Rightarrow> string" where
  "ToUrlString px a =
    (if ip_family a \<noteq> AF_INET6 then ToString px a
     else let text = ToString px a in
       ''['' @ (if CHR ''%'' \<notin> set text then text
               else takeWhile (\<lambda>c. c \<noteq> CHR ''%'') text @ ''%25'' @ tl (dropWhile (\<lambda>c. c \<noteq> CHR ''%'') text))
       @ '']'')"

definition Endpoint_ToString :: "posix \<Rightarrow> IPEndpoint \<Rightarrow> string" where
  "Endpoint_ToString px e =
    (if e = None then [] else ToUrlString px (Address e) @ '':'' @ show_u (unat (Port e)))"

section \<open>Bits of an address\<close>

text \<open>The bits in network order: the first one is the most significant bit of the first octet.\<close>

definition bit_at :: "byte list \<Rightarrow> nat \<Rightarrow> bool" where
  "bit_at b i = bit (b ! (i div 8)) (7 - i mod 8)"

lemma bit_prefix_mask: "k < 8 \<Longrightarrow> bit (prefix_mask rest) k \<longleftrightarrow> 8 - rest \<le> k"
proof -
  assume "k < 8"
  have "prefix_mask rest = push_bit (8 - rest) (mask 8)"
    by (simp add: prefix_mask_def mask_eq_exp_minus_1)
  then show ?thesis
    using \<open>k < 8\<close> by (auto simp: bit_push_bit_iff bit_mask_iff)
qed

lemma masked_octet:
  assumes "rest < 8"
  shows "x AND prefix_mask rest = y AND prefix_mask rest
    \<longleftrightarrow> (\<forall>i < rest. bit (x :: byte) (7 - i) = bit y (7 - i))"
proof
  assume eq: "x AND prefix_mask rest = y AND prefix_mask rest"
  show "\<forall>i < rest. bit x (7 - i) = bit y (7 - i)"
  proof (intro allI impI)
    fix i assume "i < rest"
    then have "bit (prefix_mask rest) (7 - i)" using assms by (simp add: bit_prefix_mask)
    with arg_cong [OF eq, of "\<lambda>w. bit w (7 - i)"] show "bit x (7 - i) = bit y (7 - i)"
      by (simp add: bit_and_iff)
  qed
next
  assume eq: "\<forall>i < rest. bit x (7 - i) = bit y (7 - i)"
  show "x AND prefix_mask rest = y AND prefix_mask rest"
  proof (rule bit_word_eqI)
    fix k assume "k < LENGTH(8)"
    then have k: "k < 8" by simp
    have "bit x k = bit y k" if "8 - rest \<le> k"
    proof -
      have "7 - k < rest" using that k by simp
      with eq have "bit x (7 - (7 - k)) = bit y (7 - (7 - k))" by blast
      then show ?thesis using k by simp
    qed
    with k show "bit (x AND prefix_mask rest) k = bit (y AND prefix_mask rest) k"
      by (auto simp: bit_and_iff bit_prefix_mask)
  qed
qed

lemma octet_eq: "(x :: byte) = y \<longleftrightarrow> (\<forall>i < 8. bit x (7 - i) = bit y (7 - i))"
proof
  assume eq: "\<forall>i < 8. bit x (7 - i) = bit y (7 - i)"
  show "x = y"
  proof (rule bit_word_eqI)
    fix k assume "k < LENGTH(8)"
    then have "7 - k < 8" "7 - (7 - k) = k" by simp_all
    with eq show "bit x k = bit y k" by metis
  qed
qed simp

lemma bit_at_octet: "r < 8 \<Longrightarrow> bit_at b (8 * j + r) = bit (b ! j) (7 - r)"
  by (simp add: bit_at_def)

lemma bits_split:
  fixes full rest :: nat
  shows "(\<forall>i < 8 * full + rest. P i) \<longleftrightarrow> (\<forall>j < full. \<forall>r < 8. P (8 * j + r)) \<and> (\<forall>r < rest. P (8 * full + r))"
  (is "?L \<longleftrightarrow> ?R")
proof
  assume ?L
  moreover have "8 * j + r < 8 * full + rest" if "j < full" "r < 8" for j r
    using that by linarith
  ultimately show ?R by auto
next
  assume R: ?R
  show ?L
  proof (intro allI impI)
    fix i assume i: "i < 8 * full + rest"
    show "P i"
    proof (cases "i < 8 * full")
      case True
      then have "i div 8 < full" "i mod 8 < 8" by (simp_all add: less_mult_imp_div_less mult.commute)
      with R have "P (8 * (i div 8) + i mod 8)" by blast
      then show ?thesis by simp
    next
      case False
      then have "i - 8 * full < rest" "i = 8 * full + (i - 8 * full)" using i by simp_all
      with R show ?thesis by metis
    qed
  qed
qed

lemma prefix_bits:
  assumes "length x = length y" and "8 * full + rest \<le> 8 * length x" and "rest < 8"
  shows "(take full x = take full y \<and> (rest = 0 \<or> x ! full AND prefix_mask rest = y ! full AND prefix_mask rest))
    \<longleftrightarrow> (\<forall>i < 8 * full + rest. bit_at x i = bit_at y i)"
proof -
  have "full \<le> length x" using assms(2) by simp
  then have "take full x = take full y \<longleftrightarrow> (\<forall>j < full. x ! j = y ! j)"
    using assms(1) by (auto simp: list_eq_iff_nth_eq)
  then have "take full x = take full y \<longleftrightarrow> (\<forall>j < full. \<forall>r < 8. bit_at x (8 * j + r) = bit_at y (8 * j + r))"
    by (simp add: octet_eq bit_at_octet)
  moreover have "(rest = 0 \<or> x ! full AND prefix_mask rest = y ! full AND prefix_mask rest)
      \<longleftrightarrow> (\<forall>r < rest. bit_at x (8 * full + r) = bit_at y (8 * full + r))"
    using assms(3) by (auto simp: masked_octet bit_at_octet)
  ultimately show ?thesis
    unfolding bits_split [of full rest "\<lambda>i. bit_at x i = bit_at y i"] by blast
qed

lemma bit_ntohl:
  assumes "i < 32"
  shows "bit (ntohl b) i = bit_at b (31 - i)"
proof -
  consider "i < 8" | "8 \<le> i" "i < 16" | "16 \<le> i" "i < 24" | "24 \<le> i" "i < 32"
    using assms by linarith
  then show ?thesis
  proof cases
    case 1
    then have "31 - i = 8 * 3 + (7 - i)" "7 - i < 8" by simp_all
    with 1 show ?thesis
      by (simp only: bit_at_octet) (auto simp: ntohl_def bit_or_iff bit_push_bit_iff bit_ucast_iff)
  next
    case 2
    then have "31 - i = 8 * 2 + (15 - i)" "15 - i < 8" "7 - (15 - i) = i - 8" by simp_all
    with 2 show ?thesis
      by (simp only: bit_at_octet) (auto simp: ntohl_def bit_or_iff bit_push_bit_iff bit_ucast_iff dest: bit_imp_le_length)
  next
    case 3
    then have "31 - i = 8 * 1 + (23 - i)" "23 - i < 8" "7 - (23 - i) = i - 16" by simp_all
    with 3 show ?thesis
      by (simp only: bit_at_octet) (auto simp: ntohl_def bit_or_iff bit_push_bit_iff bit_ucast_iff dest: bit_imp_le_length)
  next
    case 4
    then have "31 - i = 8 * 0 + (31 - i)" "31 - i < 8" "7 - (31 - i) = i - 24" by simp_all
    with 4 bit_at_octet [of "31 - i" b 0] show ?thesis
      by (auto simp: ntohl_def bit_or_iff bit_push_bit_iff bit_ucast_iff dest: bit_imp_le_length)
  qed
qed

lemma masked_word:
  assumes "n \<le> 32"
  shows "ntohl x AND NOT (mask (32 - n)) = ntohl y AND NOT (mask (32 - n)) \<longleftrightarrow> (\<forall>i < n. bit_at x i = bit_at y i)"
proof
  assume eq: "ntohl x AND NOT (mask (32 - n)) = ntohl y AND NOT (mask (32 - n))"
  show "\<forall>i < n. bit_at x i = bit_at y i"
  proof (intro allI impI)
    fix i assume "i < n"
    then have "31 - i < 32" "\<not> 31 - i < 32 - n" "31 - (31 - i) = i" using assms by simp_all
    with arg_cong [OF eq, of "\<lambda>w. bit w (31 - i)"] show "bit_at x i = bit_at y i"
      by (simp add: bit_and_iff bit_not_iff bit_mask_iff bit_ntohl)
  qed
next
  assume eq: "\<forall>i < n. bit_at x i = bit_at y i"
  show "ntohl x AND NOT (mask (32 - n)) = ntohl y AND NOT (mask (32 - n))"
  proof (rule bit_word_eqI)
    fix k assume "k < LENGTH(32)"
    then have k: "k < 32" by simp
    have "bit_at x (31 - k) = bit_at y (31 - k)" if "\<not> k < 32 - n"
      using eq that k by simp
    with k show "bit (ntohl x AND NOT (mask (32 - n))) k = bit (ntohl y AND NOT (mask (32 - n))) k"
      by (auto simp: bit_and_iff bit_not_iff bit_mask_iff bit_ntohl)
  qed
qed

section \<open>Shape of addresses\<close>

lemma IPAddress_new_simps [simp]:
  "ip_family IPAddress_new = AF_UNSPEC" "ip_addr IPAddress_new = []" "ip_scope IPAddress_new = 0"
  by (simp_all add: IPAddress_new_def)

lemma ip_wf_Unmapped: "ip_wf a \<Longrightarrow> ip_wf (Unmapped a)"
  by (auto simp: ip_wf_def Unmapped_def IsV4Mapped_def)

lemma Unmapped_v4 [simp]: "ip_family a = AF_INET \<Longrightarrow> Unmapped a = a"
  by (simp add: Unmapped_def IsV4Mapped_def)

lemma Unmapped_unspec [simp]: "ip_family a = AF_UNSPEC \<Longrightarrow> Unmapped a = a"
  by (simp add: Unmapped_def IsV4Mapped_def)

lemma Unmapped_not_mapped [simp]: "\<not> IsV4Mapped (Unmapped a)"
  by (auto simp: Unmapped_def IsV4Mapped_def)

lemma IsSet_Unmapped [simp]: "IsSet (Unmapped a) = IsSet a"
  by (auto simp: Unmapped_def IsV4Mapped_def IsSet_def)

lemma mapped_octets:
  assumes "length v4 = 4"
  shows "IN6_IS_ADDR_V4MAPPED (replicate 10 0 @ [0xFF, 0xFF] @ v4)"
  by (simp add: IN6_IS_ADDR_V4MAPPED_def nth_append)

lemma Unmapped_Mapped:
  assumes "ip_wf a" and "ip_family a = AF_INET"
  shows "Unmapped (MappedToV6 a) = a\<lparr>ip_scope := 0\<rparr>"
  using assms mapped_octets [of "ip_addr a"]
  by (auto simp: Unmapped_def MappedToV6_def IsV4Mapped_def ip_wf_def IPAddress_new_def)

text \<open>
  C27. The mapped form of an IPv4 address is the same peer: it compares equal to the address and to
  exactly the same addresses, it sorts in the same place, and every classification of the code
  gives the same answer for the two forms.
\<close>

theorem mapped_same_peer:
  assumes "ip_wf a" and "IsV4 a"
  shows "IsV6 (MappedToV6 a) \<and> ip_wf (MappedToV6 a) \<and> ip_eq (MappedToV6 a) a
    \<and> (\<forall>b. ip_eq (MappedToV6 a) b = ip_eq a b \<and> ip_less (MappedToV6 a) b = ip_less a b \<and> ip_less b (MappedToV6 a) = ip_less b a)
    \<and> (\<forall>p \<in> {IsUnspecified, IsLoopback, IsMulticast, IsLinkLocal, IsPrivateV4, IsPrivate, IsUniqueLocalV6, IsTeredo,
              Is6to4, NeedsScope, IsUnicastDestination, IsAnnounceable}. p (MappedToV6 a) = p a)
    \<and> (\<forall>n len. InPrefix n len (MappedToV6 a) = InPrefix n len a \<and> InPrefix (MappedToV6 a) len n = InPrefix a len n)"
proof -
  have f: "ip_family a = AF_INET" using assms(2) by (simp add: IsV4_def)
  note m = Unmapped_Mapped [OF assms(1) f]
  have s: "IsUnspecified (MappedToV6 a) = IsUnspecified a" "IsLoopback (MappedToV6 a) = IsLoopback a"
    "IsMulticast (MappedToV6 a) = IsMulticast a" "IsLinkLocal (MappedToV6 a) = IsLinkLocal a"
    "IsPrivateV4 (MappedToV6 a) = IsPrivateV4 a" "IsSet (MappedToV6 a) = IsSet a"
    by (simp_all add: IsUnspecified_def IsLoopback_def IsMulticast_def IsLinkLocal_def IsPrivateV4_def m f Let_def)
       (simp add: IsSet_def MappedToV6_def f)
  have o: "ip_addr (MappedToV6 a) ! 0 = 0"
    by (simp add: MappedToV6_def f nth_append)
  have "IsPrivate (MappedToV6 a) = IsPrivate a"
    by (simp add: IsPrivate_def m f Let_def s)
  moreover have "\<not> IsUniqueLocalV6 (MappedToV6 a)" "\<not> IsTeredo (MappedToV6 a)" "\<not> Is6to4 (MappedToV6 a)" "\<not> NeedsScope (MappedToV6 a)"
    by (simp_all add: IsUniqueLocalV6_def IsTeredo_def Is6to4_def NeedsScope_def IN6_IS_ADDR_LINKLOCAL_def o)
  moreover have "\<not> IsUniqueLocalV6 a" "\<not> IsTeredo a" "\<not> Is6to4 a" "\<not> NeedsScope a"
    by (simp_all add: IsUniqueLocalV6_def IsTeredo_def Is6to4_def NeedsScope_def f)
  moreover have "IsV6 (MappedToV6 a)" "ip_wf (MappedToV6 a)"
    using assms by (simp_all add: IsV6_def MappedToV6_def f ip_wf_def)
  moreover have "ip_eq (MappedToV6 a) b = ip_eq a b \<and> ip_less (MappedToV6 a) b = ip_less a b \<and> ip_less b (MappedToV6 a) = ip_less b a" for b
    by (simp add: ip_eq_def ip_less_def m f Let_def)
  moreover have "InPrefix n len (MappedToV6 a) = InPrefix n len a \<and> InPrefix (MappedToV6 a) len n = InPrefix a len n" for n len
    by (simp add: InPrefix_def m f Let_def IsSet_def)
  moreover have "ip_eq a a" by (simp add: ip_eq_def f)
  ultimately show ?thesis
    by (simp add: s IsUnicastDestination_def IsAnnounceable_def)
qed

definition v4net :: "byte \<Rightarrow> byte \<Rightarrow> byte \<Rightarrow> byte \<Rightarrow> IPAddress" where
  "v4net a b c d = IPAddress_new\<lparr>ip_family := AF_INET, ip_addr := [a, b, c, d]\<rparr>"

definition v6net :: "byte list \<Rightarrow> IPAddress" where
  "v6net b = IPAddress_new\<lparr>ip_family := AF_INET6, ip_addr := b @ replicate (16 - length b) 0\<rparr>"

lemma v4net_simps [simp]:
  "ip_wf (v4net a b c d)" "IsV4 (v4net a b c d)" "ip_family (v4net a b c d) = AF_INET" "ip_addr (v4net a b c d) = [a, b, c, d]"
  by (simp_all add: v4net_def ip_wf_def IsV4_def)

theorem mapped_same_peer_witness:
  "ip_eq (MappedToV6 (v4net 192 168 0 1)) (v4net 192 168 0 1) \<and> IsPrivateV4 (MappedToV6 (v4net 192 168 0 1))"
proof -
  have "IsPrivateV4 (v4net 192 168 0 1)" by code_simp
  then show ?thesis
    using mapped_same_peer [of "v4net 192 168 0 1"] by (auto simp only: v4net_simps)
qed

section \<open>Prefixes\<close>

definition width :: "family \<Rightarrow> int" where
  "width f = (if f = AF_INET then 32 else 128)"

lemma InPrefix_iff:
  assumes "ip_wf a" and "ip_wf n"
  defines "a' \<equiv> Unmapped a" and "n' \<equiv> Unmapped n"
  shows "InPrefix n len a \<longleftrightarrow> IsSet a \<and> ip_family a' = ip_family n' \<and> 0 \<le> len \<and> len \<le> width (ip_family a')
    \<and> (\<forall>i < nat len. bit_at (ip_addr a') i = bit_at (ip_addr n') i)"
proof (cases "IsSet a \<and> ip_family a' = ip_family n' \<and> 0 \<le> len \<and> len \<le> width (ip_family a')")
  case True
  have w: "length (ip_addr a') = addr_len (ip_family a')" "length (ip_addr n') = addr_len (ip_family n')"
    using ip_wf_Unmapped assms(1,2) by (auto simp: ip_wf_def a'_def n'_def)
  have set: "ip_family a' \<noteq> AF_UNSPEC"
    using True by (metis IsSet_Unmapped IsSet_def a'_def)
  have fits: "8 * (nat len div 8) + nat len mod 8 \<le> 8 * length (ip_addr a')"
    using True set w(1) by (cases "ip_family a'") (auto simp: width_def)
  have "(take (nat len div 8) (ip_addr a') = take (nat len div 8) (ip_addr n')
      \<and> (nat len mod 8 = 0 \<or> ip_addr a' ! (nat len div 8) AND prefix_mask (nat len mod 8)
          = ip_addr n' ! (nat len div 8) AND prefix_mask (nat len mod 8)))
    \<longleftrightarrow> (\<forall>i < nat len. bit_at (ip_addr a') i = bit_at (ip_addr n') i)"
    using prefix_bits [OF _ fits] w True by simp
  moreover have "len \<le> (if ip_family a' = AF_INET then 32 else 128)"
    using True by (auto simp: width_def split: if_splits)
  ultimately show ?thesis
    using True by (auto simp: InPrefix_def Let_def a'_def [symmetric] n'_def [symmetric] IsSet_def set)
next
  case False
  then show ?thesis
    using IsSet_Unmapped [of a] by (auto simp: InPrefix_def Let_def width_def a'_def [symmetric] n'_def [symmetric])
qed

lemma InPrefix_v4:
  assumes "ip_wf a" and "ip_family (Unmapped a) = AF_INET" and "len \<le> 32"
  shows "InPrefix (v4net p q r s) (int len) a
    \<longleftrightarrow> ntohl (ip_addr (Unmapped a)) AND NOT (mask (32 - len)) = ntohl [p, q, r, s] AND NOT (mask (32 - len))"
proof -
  have "IsSet a" using assms(2) IsSet_Unmapped [of a] by (simp add: IsSet_def)
  then show ?thesis
    using InPrefix_iff [OF assms(1) v4net_simps(1), of p q r s "int len"] assms(2,3) masked_word [OF assms(3)]
    by (simp add: width_def)
qed

text \<open>The ranges the header lists, as networks and lengths.\<close>

definition private_v4 :: "(IPAddress \<times> int) list" where
  "private_v4 = [(v4net 10 0 0 0, 8), (v4net 172 16 0 0, 12), (v4net 192 168 0 0, 16), (v4net 100 64 0 0, 10),
     (v4net 169 254 0 0, 16)]"

definition special_v4 :: "(IPAddress \<times> int) list" where
  "special_v4 = [(v4net 0 0 0 0, 8), (v4net 127 0 0 0, 8), (v4net 192 0 0 0, 24), (v4net 192 0 2 0, 24),
     (v4net 198 18 0 0, 15), (v4net 198 51 100 0, 24), (v4net 203 0 113 0, 24), (v4net 240 0 0 0, 4)]"

definition special_v6 :: "(IPAddress \<times> int) list" where
  "special_v6 = [(v6net [], 128), (v6net (replicate 15 0 @ [1]), 128), (v6net [1, 0], 64), (v6net [0xFC], 7),
     (v6net [0xFE, 0x80], 10), (v6net [0xFE, 0xC0], 10), (v6net [0x20, 0x01, 0x0D, 0xB8], 32), (v6net [0x3F, 0xFF], 20)]"

definition in_any :: "(IPAddress \<times> int) list \<Rightarrow> IPAddress \<Rightarrow> bool" where
  "in_any table a = list_ex (\<lambda>(network, len). InPrefix network len a) table"

lemma in_any_simps [simp]:
  "in_any [] a = False" "in_any ((n, len) # table) a = (InPrefix n len a \<or> in_any table a)"
  by (simp_all add: in_any_def)

lemma in_any_v4:
  assumes "ip_wf a" and "ip_family (Unmapped a) = AF_INET"
  shows "in_any ((v4net p q r s, numeral len) # table) a
    \<longleftrightarrow> (numeral len \<le> (32 :: nat) \<and> ntohl (ip_addr (Unmapped a)) AND NOT (mask (32 - numeral len))
          = ntohl [p, q, r, s] AND NOT (mask (32 - numeral len))) \<or> in_any table a"
proof (cases "numeral len \<le> (32 :: nat)")
  case True
  with InPrefix_v4 [OF assms True] show ?thesis by simp
next
  case False
  then have "\<not> (numeral len :: int) \<le> 32" by simp
  with InPrefix_iff [OF assms(1) v4net_simps(1), of p q r s "numeral len"] assms(2) False
  show ?thesis by (simp add: width_def)
qed

lemma v4_masks:
  "(NOT (mask 24) :: 32 word) = 0xFF000000"
  "(NOT (mask 20) :: 32 word) = 0xFFF00000"
  "(NOT (mask 16) :: 32 word) = 0xFFFF0000"
  "(NOT (mask 22) :: 32 word) = 0xFFC00000"
  "(NOT (mask 8) :: 32 word) = 0xFFFFFF00"
  "(NOT (mask 17) :: 32 word) = 0xFFFE0000"
  "(NOT (mask 28) :: 32 word) = 0xF0000000"
  by code_simp+

lemma v4_nets:
  "ntohl [10, 0, 0, 0] = 0x0A000000"
  "ntohl [172, 16, 0, 0] = 0xAC100000"
  "ntohl [192, 168, 0, 0] = 0xC0A80000"
  "ntohl [100, 64, 0, 0] = 0x64400000"
  "ntohl [169, 254, 0, 0] = 0xA9FE0000"
  "ntohl [0, 0, 0, 0] = 0x00000000"
  "ntohl [127, 0, 0, 0] = 0x7F000000"
  "ntohl [192, 0, 0, 0] = 0xC0000000"
  "ntohl [192, 0, 2, 0] = 0xC0000200"
  "ntohl [198, 18, 0, 0] = 0xC6120000"
  "ntohl [198, 51, 100, 0] = 0xC6336400"
  "ntohl [203, 0, 113, 0] = 0xCB007100"
  "ntohl [240, 0, 0, 0] = 0xF0000000"
  by code_simp+

lemma private_v4_words:
  assumes "ip_wf a" and "ip_family (Unmapped a) = AF_INET"
  shows "in_any private_v4 a \<longleftrightarrow> IsPrivateV4 a"
  unfolding private_v4_def in_any_v4 [OF assms]
  by (simp add: IsPrivateV4_def Let_def assms(2) v4_masks v4_nets)

lemma special_v4_words:
  assumes "ip_wf a" and "ip_family (Unmapped a) = AF_INET"
  shows "in_any (private_v4 @ special_v4) a \<longleftrightarrow> IsPrivate a"
proof -
  have "in_any (private_v4 @ special_v4) a \<longleftrightarrow> in_any private_v4 a \<or> in_any special_v4 a"
    by (simp add: in_any_def)
  then show ?thesis
    unfolding private_v4_words [OF assms] special_v4_def in_any_v4 [OF assms]
    by (simp add: IsPrivate_def Let_def assms(2) v4_masks v4_nets)
qed

lemma length_16:
  assumes "length b = 16"
  obtains b0 b1 b2 b3 b4 b5 b6 b7 b8 b9 b10 b11 b12 b13 b14 b15
  where "b = [b0, b1, b2, b3, b4, b5, b6, b7, b8, b9, b10, b11, b12, b13, b14, b15]"
  using assms by (auto simp: numeral_eq_Suc length_Suc_conv)

lemma InPrefix_v6:
  assumes "ip_family (Unmapped a) = AF_INET6" and "\<not> IsV4Mapped (v6net b)" and "len \<le> 128"
  shows "InPrefix (v6net b) (int len) a \<longleftrightarrow>
    take (len div 8) (ip_addr (Unmapped a)) = take (len div 8) (ip_addr (v6net b))
    \<and> (len mod 8 = 0 \<or> ip_addr (Unmapped a) ! (len div 8) AND prefix_mask (len mod 8)
         = ip_addr (v6net b) ! (len div 8) AND prefix_mask (len mod 8))"
proof -
  have "Unmapped (v6net b) = v6net b" "ip_family (v6net b) = AF_INET6"
    using assms(2) by (simp_all add: Unmapped_def v6net_def)
  with assms(1,3) show ?thesis
    by (auto simp: InPrefix_def Let_def IsSet_def)
qed

lemma v6_prefix_masks: "prefix_mask 7 = 0xFE" "prefix_mask 2 = 0xC0" "prefix_mask 4 = 0xF0"
  by code_simp+

lemma special_v6_rows:
  assumes "ip_wf a" and f: "ip_family (Unmapped a) = AF_INET6"
  defines "b \<equiv> ip_addr (Unmapped a)"
  shows "InPrefix (v6net []) 128 a = IN6_IS_ADDR_UNSPECIFIED b"
    and "InPrefix (v6net (replicate 15 0 @ [1])) 128 a = IN6_IS_ADDR_LOOPBACK b"
    and "InPrefix (v6net [1, 0]) 64 a = (b ! 0 = 1 \<and> b ! 1 = 0 \<and> b ! 2 = 0 \<and> b ! 3 = 0 \<and> b ! 4 = 0 \<and> b ! 5 = 0 \<and> b ! 6 = 0 \<and> b ! 7 = 0)"
    and "InPrefix (v6net [0xFC]) 7 a = (b ! 0 AND 0xFE = 0xFC)"
    and "InPrefix (v6net [0xFE, 0x80]) 10 a = IN6_IS_ADDR_LINKLOCAL b"
    and "InPrefix (v6net [0xFE, 0xC0]) 10 a = IN6_IS_ADDR_SITELOCAL b"
    and "InPrefix (v6net [0x20, 0x01, 0x0D, 0xB8]) 32 a = (b ! 0 = 0x20 \<and> b ! 1 = 0x01 \<and> b ! 2 = 0x0D \<and> b ! 3 = 0xB8)"
    and "InPrefix (v6net [0x3F, 0xFF]) 20 a = (b ! 0 = 0x3F \<and> b ! 1 = 0xFF \<and> b ! 2 AND 0xF0 = 0)"
proof -
  have "length b = 16"
    using ip_wf_Unmapped [OF assms(1)] f by (simp add: ip_wf_def b_def)
  then obtain b0 b1 b2 b3 b4 b5 b6 b7 b8 b9 b10 b11 b12 b13 b14 b15
    where b: "b = [b0, b1, b2, b3, b4, b5, b6, b7, b8, b9, b10, b11, b12, b13, b14, b15]"
    by (rule length_16)
  have zeros: "replicate 6 (0 :: byte) = [0, 0, 0, 0, 0, 0]" by (simp add: numeral_eq_Suc)
  note row = InPrefix_v6 [OF f, folded b_def]
  show "InPrefix (v6net []) 128 a = IN6_IS_ADDR_UNSPECIFIED b"
    using row [of "[]" 128] \<open>length b = 16\<close>
    by (simp add: v6net_def IsV4Mapped_def IN6_IS_ADDR_V4MAPPED_def IN6_IS_ADDR_UNSPECIFIED_def)
  show "InPrefix (v6net (replicate 15 0 @ [1])) 128 a = IN6_IS_ADDR_LOOPBACK b"
    using row [of "replicate 15 0 @ [1]" 128] \<open>length b = 16\<close>
    by (simp add: v6net_def IsV4Mapped_def IN6_IS_ADDR_V4MAPPED_def IN6_IS_ADDR_LOOPBACK_def nth_append)
  show "InPrefix (v6net [1, 0]) 64 a = (b ! 0 = 1 \<and> b ! 1 = 0 \<and> b ! 2 = 0 \<and> b ! 3 = 0 \<and> b ! 4 = 0 \<and> b ! 5 = 0 \<and> b ! 6 = 0 \<and> b ! 7 = 0)"
    using row [of "[1, 0]" 64] zeros by (simp add: b v6net_def IsV4Mapped_def IN6_IS_ADDR_V4MAPPED_def)
  show "InPrefix (v6net [0xFC]) 7 a = (b ! 0 AND 0xFE = 0xFC)"
    using row [of "[0xFC]" 7] by (simp add: b v6net_def IsV4Mapped_def IN6_IS_ADDR_V4MAPPED_def v6_prefix_masks)
  show "InPrefix (v6net [0xFE, 0x80]) 10 a = IN6_IS_ADDR_LINKLOCAL b"
    using row [of "[0xFE, 0x80]" 10]
    by (simp add: b v6net_def IsV4Mapped_def IN6_IS_ADDR_V4MAPPED_def IN6_IS_ADDR_LINKLOCAL_def v6_prefix_masks)
  show "InPrefix (v6net [0xFE, 0xC0]) 10 a = IN6_IS_ADDR_SITELOCAL b"
    using row [of "[0xFE, 0xC0]" 10]
    by (simp add: b v6net_def IsV4Mapped_def IN6_IS_ADDR_V4MAPPED_def IN6_IS_ADDR_SITELOCAL_def v6_prefix_masks)
  show "InPrefix (v6net [0x20, 0x01, 0x0D, 0xB8]) 32 a = (b ! 0 = 0x20 \<and> b ! 1 = 0x01 \<and> b ! 2 = 0x0D \<and> b ! 3 = 0xB8)"
    using row [of "[0x20, 0x01, 0x0D, 0xB8]" 32] by (simp add: b v6net_def IsV4Mapped_def IN6_IS_ADDR_V4MAPPED_def)
  show "InPrefix (v6net [0x3F, 0xFF]) 20 a = (b ! 0 = 0x3F \<and> b ! 1 = 0xFF \<and> b ! 2 AND 0xF0 = 0)"
    using row [of "[0x3F, 0xFF]" 20] by (simp add: b v6net_def IsV4Mapped_def IN6_IS_ADDR_V4MAPPED_def v6_prefix_masks)
qed

text \<open>
  C28. The tests of \<open>IsPrivateV4\<close> and \<open>IsPrivate\<close>, written with masks and octets, are membership in
  exactly the networks the header lists; and membership in a network of a given length is
  agreement on that many leading bits.
\<close>

theorem private_registry:
  assumes "ip_wf a"
  shows "IsPrivateV4 a = in_any private_v4 a
    \<and> IsPrivate a = in_any (private_v4 @ special_v4 @ special_v6) a
    \<and> (\<forall>n len. ip_wf n \<longrightarrow> InPrefix n len a =
        (IsSet a \<and> ip_family (Unmapped a) = ip_family (Unmapped n) \<and> 0 \<le> len \<and> len \<le> width (ip_family (Unmapped a))
         \<and> (\<forall>i < nat len. bit_at (ip_addr (Unmapped a)) i = bit_at (ip_addr (Unmapped n)) i)))"
proof -
  have app: "in_any (xs @ ys) a = (in_any xs a \<or> in_any ys a)" for xs ys
    by (simp add: in_any_def)
  have v6: "\<not> in_any special_v6 a" if "ip_family (Unmapped a) \<noteq> AF_INET6"
    using that by (auto simp: in_any_def special_v6_def InPrefix_def Let_def Unmapped_def v6net_def IsV4Mapped_def IN6_IS_ADDR_V4MAPPED_def nth_append)
  have v4: "\<not> in_any private_v4 a \<and> \<not> in_any special_v4 a" if "ip_family (Unmapped a) \<noteq> AF_INET"
    using that by (auto simp: in_any_def private_v4_def special_v4_def InPrefix_def Let_def)
  have "IsPrivateV4 a = in_any private_v4 a \<and> IsPrivate a = in_any (private_v4 @ special_v4 @ special_v6) a"
  proof (cases "ip_family (Unmapped a)")
    case AF_UNSPEC
    with v4 v6 show ?thesis by (simp add: app IsPrivateV4_def IsPrivate_def Let_def)
  next
    case AF_INET
    with v6 private_v4_words [OF assms] special_v4_words [OF assms] show ?thesis by (simp add: app)
  next
    case AF_INET6
    then have "IsPrivate a = in_any special_v6 a"
      by (simp add: special_v6_def special_v6_rows [OF assms] IsPrivate_def Let_def IsUniqueLocalV6_def)
    with AF_INET6 v4 show ?thesis by (simp add: app IsPrivateV4_def)
  qed
  with InPrefix_iff [OF assms] show ?thesis by simp
qed

theorem private_registry_witness:
  "in_any private_v4 (v4net 172 31 255 1) \<and> \<not> in_any private_v4 (v4net 172 32 0 0) \<and> \<not> in_any private_v4 (v4net 192 0 2 1)
    \<and> in_any (private_v4 @ special_v4 @ special_v6) (v4net 192 0 2 1)"
proof -
  have "IsPrivateV4 (v4net 172 31 255 1) \<and> \<not> IsPrivateV4 (v4net 172 32 0 0) \<and> \<not> IsPrivateV4 (v4net 192 0 2 1)
    \<and> IsPrivate (v4net 192 0 2 1)"
    by code_simp
  then show ?thesis
    using private_registry [OF v4net_simps(1), of 172 31 255 1] private_registry [OF v4net_simps(1), of 172 32 0 0]
      private_registry [OF v4net_simps(1), of 192 0 2 1] by blast
qed

section \<open>Order\<close>

lemma memcmp_lt_irrefl: "\<not> memcmp_lt x x"
  by (induction x) auto

lemma memcmp_lt_trans: "memcmp_lt x y \<Longrightarrow> memcmp_lt y z \<Longrightarrow> memcmp_lt x z"
proof (induction x y arbitrary: z rule: memcmp_lt.induct)
  case (1 x xs y ys)
  then show ?case by (cases z) auto
qed auto

lemma memcmp_lt_total: "length x = length y \<Longrightarrow> \<not> memcmp_lt x y \<Longrightarrow> \<not> memcmp_lt y x \<Longrightarrow> x = y"
proof (induction x y rule: memcmp_lt.induct)
  case (1 x xs y ys)
  then show ?case by (auto simp: not_less)
qed auto

definition ip_key :: "IPAddress \<Rightarrow> family \<times> byte list" where
  "ip_key a = (ip_family (Unmapped a), ip_addr (Unmapped a))"

lemma ip_less_key:
  "ip_less a b \<longleftrightarrow> family_code (fst (ip_key a)) < family_code (fst (ip_key b))
     \<or> fst (ip_key a) = fst (ip_key b) \<and> fst (ip_key a) \<noteq> AF_UNSPEC \<and> memcmp_lt (snd (ip_key a)) (snd (ip_key b))"
  by (cases "ip_family (Unmapped a)"; cases "ip_family (Unmapped b)") (auto simp: ip_less_def ip_key_def Let_def)

lemma family_code_inj: "family_code f = family_code g \<longleftrightarrow> f = g"
  by (cases f; cases g) auto

text \<open>
  \<open>operator<\<close> is an order a \<open>std::map\<close> can use: irreflexive and transitive, and two addresses are
  unordered exactly when they have the same family and octets once unmapped, so being unordered
  is transitive. Equal addresses are unordered; the converse fails only for zones, which
  \<open>operator==\<close> looks at and \<open>operator<\<close> does not.
\<close>

theorem ip_less_orders:
  assumes "ip_wf a" and "ip_wf b" and "ip_wf c"
  shows "\<not> ip_less a a \<and> (ip_less a b \<and> ip_less b c \<longrightarrow> ip_less a c)
    \<and> (\<not> ip_less a b \<and> \<not> ip_less b a \<longleftrightarrow> ip_key a = ip_key b)
    \<and> (ip_eq a b \<longleftrightarrow> ip_key a = ip_key b
        \<and> (ip_family (Unmapped a) = AF_INET6 \<and> ip_scope a \<noteq> 0 \<and> ip_scope b \<noteq> 0 \<longrightarrow> ip_scope a = ip_scope b))"
proof (intro conjI)
  show "\<not> ip_less a a" by (simp add: ip_less_key memcmp_lt_irrefl)
  show "ip_less a b \<and> ip_less b c \<longrightarrow> ip_less a c"
    by (auto simp: ip_less_key dest: memcmp_lt_trans)
  have len: "length (snd (ip_key x)) = addr_len (fst (ip_key x))" if "ip_wf x" for x
    using ip_wf_Unmapped [OF that] by (simp add: ip_key_def ip_wf_def)
  show "\<not> ip_less a b \<and> \<not> ip_less b a \<longleftrightarrow> ip_key a = ip_key b"
  proof
    assume n: "\<not> ip_less a b \<and> \<not> ip_less b a"
    then have f: "fst (ip_key a) = fst (ip_key b)"
      by (metis family_code_inj ip_less_key linorder_cases)
    have "snd (ip_key a) = snd (ip_key b)"
    proof (cases "fst (ip_key a) = AF_UNSPEC")
      case True
      with f len [OF assms(1)] len [OF assms(2)] show ?thesis by simp
    next
      case False
      with n f len [OF assms(1)] len [OF assms(2)] show ?thesis
        by (intro memcmp_lt_total) (auto simp: ip_less_key)
    qed
    with f show "ip_key a = ip_key b" by (simp add: prod_eq_iff)
  qed (auto simp: ip_less_key memcmp_lt_irrefl)
  have scope: "ip_scope (Unmapped x) = ip_scope x" if "ip_family (Unmapped x) = AF_INET6" for x
    using that by (auto simp: Unmapped_def split: if_splits)
  have empty: "ip_addr (Unmapped x) = []" if "ip_wf x" "ip_family (Unmapped x) = AF_UNSPEC" for x
    using ip_wf_Unmapped [OF that(1)] that(2) by (simp add: ip_wf_def)
  show "ip_eq a b \<longleftrightarrow> ip_key a = ip_key b
      \<and> (ip_family (Unmapped a) = AF_INET6 \<and> ip_scope a \<noteq> 0 \<and> ip_scope b \<noteq> 0 \<longrightarrow> ip_scope a = ip_scope b)"
    using empty [OF assms(1)] empty [OF assms(2)] scope [of a] scope [of b]
    by (cases "ip_family (Unmapped a)"; cases "ip_family (Unmapped b)") (auto simp: ip_eq_def ip_key_def Let_def)
qed

theorem ip_less_orders_witness:
  "ip_less (v4net 10 0 0 1) (v4net 10 0 0 2) \<and> ip_less (v4net 10 0 0 2) (v6net [0xFE, 0x80])
    \<and> ip_less (v4net 10 0 0 1) (v6net [0xFE, 0x80])"
proof -
  have "ip_less (v4net 10 0 0 1) (v4net 10 0 0 2)" "ip_less (v4net 10 0 0 2) (v6net [0xFE, 0x80])"
    by code_simp+
  moreover have "ip_wf (v6net [0xFE, 0x80])" by (simp add: ip_wf_def v6net_def)
  ultimately show ?thesis
    using ip_less_orders [OF v4net_simps(1) v4net_simps(1), of _ 10 0 0 1 10 0 0 2] by blast
qed

section \<open>Socket addresses\<close>

text \<open>
  An address that goes to the kernel and comes back is the same address with the same port,
  through a socket of its own family and, mapped, through the dual-stack socket; the two
  endpoints compare equal, and the dual-stack one always has an IPv6 socket address.
\<close>

theorem endpoint_roundtrip:
  assumes "ip_wf a" and "IsSet a" and "\<not> IsV4Mapped a"
  defines "a' \<equiv> (if IsV4 a then a\<lparr>ip_scope := 0\<rparr> else a)"
  shows "Address (To a port) = a' \<and> Address (ToDualStack a port) = a'
    \<and> Port (To a port) = port \<and> Port (ToDualStack a port) = port
    \<and> ep_eq (To a port) (ToDualStack a port) \<and> ip_eq a a'
    \<and> (\<exists>b scope. ToDualStack a port = Some (SockaddrIn6 b port scope) \<and> length b = 16)"
proof (cases "ip_family a")
  case AF_UNSPEC
  with assms(2) show ?thesis by (simp add: IsSet_def)
next
  case AF_INET
  have o: "IN6_IS_ADDR_V4MAPPED (replicate 10 0 @ 0xFF # 0xFF # ip_addr a)" "length (ip_addr a) = 4"
    using AF_INET assms(1) mapped_octets [of "ip_addr a"] by (simp_all add: ip_wf_def)
  show ?thesis
    using o AF_INET
    by (simp add: a'_def IsV4_def To_def ToDualStack_def IPEndpoint_new_def FillSockaddr_def FillDualStackSockaddr_def
        MappedToV6_def Address_def Port_def PortOf_def FromSockaddr_def ep_eq_def ip_eq_def IPAddress_new_def)
next
  case AF_INET6
  have o: "\<not> IN6_IS_ADDR_V4MAPPED (ip_addr a)" "length (ip_addr a) = 16" "Unmapped a = a"
    using AF_INET6 assms(1,3) by (simp_all add: ip_wf_def IsV4Mapped_def Unmapped_def)
  show ?thesis
    using o AF_INET6
    by (simp add: a'_def IsV4_def To_def ToDualStack_def IPEndpoint_new_def FillSockaddr_def FillDualStackSockaddr_def
        Address_def Port_def PortOf_def FromSockaddr_def ep_eq_def ip_eq_def IPAddress_new_def)
qed

theorem endpoint_roundtrip_witness:
  "Address (ToDualStack (v4net 192 0 2 1) 5004) = v4net 192 0 2 1 \<and> Port (ToDualStack (v4net 192 0 2 1) 5004) = 5004"
  using endpoint_roundtrip [of "v4net 192 0 2 1" 5004]
  by (simp add: IsSet_def IsV4Mapped_def) (simp add: v4net_def IPAddress_new_def)

section \<open>Reading and resolving\<close>

text \<open>
  What \<open>Parse\<close> returns is never half built and never a mapped address, so that no other part of
  the program meets one; the error is 0 exactly when there is an address. This relies on
  \<open>inet_pton\<close> writing four octets for \<open>AF_INET\<close> and sixteen for \<open>AF_INET6\<close>.
\<close>

theorem Parse_valid:
  assumes "\<And>s b. px_inet_pton4 px s = Some b \<Longrightarrow> length b = 4"
    and "\<And>s b. px_inet_pton6 px s = Some b \<Longrightarrow> length b = 16"
    and "Parse px text = (a, err)"
  shows "ip_wf a \<and> \<not> IsV4Mapped a \<and> (err = E_OK \<longleftrightarrow> IsSet a) \<and> (err \<noteq> E_OK \<longrightarrow> a = IPAddress_new \<and> err = EINVAL)"
  using assms
  by (auto simp: Parse_def ip_wf_def IsV4Mapped_def IsSet_def split: option.splits if_splits prod.splits)

text \<open>A C library that reads the textual form \<open>a.b.c.d\<close> and the two addresses \<open>::\<close> and \<open>::1\<close>.\<close>

definition split_on :: "char \<Rightarrow> string \<Rightarrow> string list" where
  "split_on c s = foldr (\<lambda>x acc. if x = c then [] # acc else (x # hd acc) # tl acc) s [[]]"

definition dotted_quad :: "string \<Rightarrow> byte list option" where
  "dotted_quad s =
    (let parts = split_on (CHR ''.'') s in
     if length parts = 4 \<and> list_all (\<lambda>p. p \<noteq> [] \<and> list_all isdigit p \<and> length p \<le> 3 \<and> dec_value p < 256) parts
     then Some (map (\<lambda>p. of_nat (dec_value p)) parts) else None)"

definition small_posix :: posix where
  "small_posix = \<lparr>px_inet_pton4 = dotted_quad,
     px_inet_pton6 = (\<lambda>s. if s = ''::'' then Some (replicate 16 0) else if s = ''::1'' then Some (replicate 15 0 @ [1]) else None),
     px_inet_ntop4 = (\<lambda>b. None), px_inet_ntop6 = (\<lambda>b. None), px_if_nametoindex = (\<lambda>s. 0),
     px_if_indextoname = (\<lambda>i. None), px_getaddrinfo = (\<lambda>s. GaiList [SockaddrIn6 (ip_addr (v6net [0x20, 0x01, 0x0D, 0xB8])) 0 0,
       SockaddrIn [127, 0, 0, 1] 0, SockaddrIn [192, 0, 2, 7] 0, SockaddrIn [192, 0, 2, 7] 0])\<rparr>"

lemma small_posix_lengths:
  "px_inet_pton4 small_posix s = Some b \<Longrightarrow> length b = 4"
  "px_inet_pton6 small_posix s = Some b \<Longrightarrow> length b = 16"
  by (auto simp: small_posix_def dotted_quad_def Let_def split: if_splits)

theorem Parse_valid_witness:
  "Parse small_posix (Some ''192.0.2.7'') = (v4net 192 0 2 7, E_OK) \<and> \<not> IsV4Mapped (v4net 192 0 2 7)"
proof -
  have p: "Parse small_posix (Some ''192.0.2.7'') = (v4net 192 0 2 7, E_OK)" by code_simp
  from Parse_valid [OF small_posix_lengths p] p show ?thesis by simp
qed

text \<open>The first of every group of equal addresses, in the order of the list.\<close>

definition first_seen :: "IPAddress list \<Rightarrow> IPAddress list" where
  "first_seen addrs = fold (\<lambda>addr seen. if list_ex (\<lambda>x. ip_eq x addr) seen then seen else seen @ [addr]) addrs []"

lemma resolve_fold:
  fixes fam
  defines "pref \<equiv> \<lambda>a. fam \<noteq> AF_UNSPEC \<and> ip_family a = fam"
  shows "fold (resolve_step fam usage) res (filter pref seen, filter (\<lambda>a. \<not> pref a) seen) =
    (let kept = fold (\<lambda>addr seen. if list_ex (\<lambda>x. ip_eq x addr) seen then seen else seen @ [addr])
                  (filter (keep_for usage) (map (\<lambda>p. FromSockaddr (Some p)) res)) seen
     in (filter pref kept, filter (\<lambda>a. \<not> pref a) kept))"
proof (induction res arbitrary: seen)
  case (Cons p res)
  let ?addr = "FromSockaddr (Some p)"
  have ex: "list_ex (\<lambda>x. ip_eq x ?addr) (filter pref seen) \<or> list_ex (\<lambda>x. ip_eq x ?addr) (filter (\<lambda>a. \<not> pref a) seen)
      \<longleftrightarrow> list_ex (\<lambda>x. ip_eq x ?addr) seen"
    by (auto simp: list_ex_iff)
  have "resolve_step fam usage p (filter pref seen, filter (\<lambda>a. \<not> pref a) seen) =
    (let seen = (if \<not> keep_for usage ?addr \<or> list_ex (\<lambda>x. ip_eq x ?addr) seen then seen else seen @ [?addr])
     in (filter pref seen, filter (\<lambda>a. \<not> pref a) seen))"
    using ex by (auto simp: resolve_step_def Let_def pref_def)
  with Cons.IH show ?case
    by (simp add: Let_def)
qed simp

text \<open>
  The order of a resolved name is the one of the code and not the one of the resolver: the
  addresses usable for the purpose, each once, those of the preferred family first and
  otherwise in the order they came; a literal is never replaced by something else.
\<close>

theorem Resolve_orders:
  assumes "host \<noteq> []"
  shows "(IsSet (fst (Parse px (Some host))) \<longrightarrow> Resolve px (Some host) fam usage = ([fst (Parse px (Some host))], E_OK))
    \<and> (\<not> IsSet (fst (Parse px (Some host))) \<and> px_getaddrinfo px host = GaiList res \<longrightarrow>
        (let kept = first_seen (filter (keep_for usage) (map (\<lambda>p. FromSockaddr (Some p)) res));
             pref = (\<lambda>a. fam \<noteq> AF_UNSPEC \<and> ip_family a = fam)
         in Resolve px (Some host) fam usage =
              (filter pref kept @ filter (\<lambda>a. \<not> pref a) kept, if kept = [] then ENOENT else E_OK)))"
proof -
  have "fold (resolve_step fam usage) res ([], []) =
    (let kept = first_seen (filter (keep_for usage) (map (\<lambda>p. FromSockaddr (Some p)) res))
     in (filter (\<lambda>a. fam \<noteq> AF_UNSPEC \<and> ip_family a = fam) kept,
         filter (\<lambda>a. \<not> (fam \<noteq> AF_UNSPEC \<and> ip_family a = fam)) kept))"
    using resolve_fold [of fam usage res "[]"] by (simp add: first_seen_def Let_def)
  then show ?thesis
    using assms by (auto simp: Resolve_def Let_def filter_empty_conv dest: hd_in_set)
qed

theorem Resolve_orders_witness:
  "Resolve small_posix (Some ''host'') AF_INET Announce = ([v4net 192 0 2 7, v6net [0x20, 0x01, 0x0D, 0xB8]], E_OK)"
proof -
  let ?res = "[SockaddrIn6 (ip_addr (v6net [0x20, 0x01, 0x0D, 0xB8])) 0 0,
       SockaddrIn [127, 0, 0, 1] 0, SockaddrIn [192, 0, 2, 7] 0, SockaddrIn [192, 0, 2, 7] 0]"
  have "\<not> IsSet (fst (Parse small_posix (Some ''host'')))" "px_getaddrinfo small_posix ''host'' = GaiList ?res"
    by code_simp (simp add: small_posix_def)
  moreover have "first_seen (filter (keep_for Announce) (map (\<lambda>p. FromSockaddr (Some p)) ?res))
      = [v6net [0x20, 0x01, 0x0D, 0xB8], v4net 192 0 2 7]"
    by code_simp
  ultimately show ?thesis
    using Resolve_orders [of "''host''" small_posix AF_INET Announce ?res]
    by (simp add: Let_def v6net_def v4net_def)
qed

end
