(* ===== verification/BfcpUdp.thy ===== *)
theory BfcpUdp
  imports BfcpWire IpAddress
begin

text \<open>
  The UDP leg of one participant (\<open>BFCPUdpEndpoint\<close> in \<open>BFCPUdpTransport.cpp\<close>): retransmission of what
  the server starts, the cache of what it answers, and the peer it has latched on.

  As for TCP the kernel side of the socket is part of the state: \<open>e_sock\<close> is whether the next calls of
  \<open>sendto\<close> take the whole datagram (the end of the list being success), \<open>e_wire\<close> the datagrams sent with
  their destination. Times are integers: a \<open>QWORD\<close> of microseconds does not wrap in the life
  of the program, and \<open>backoff_next\<close> bounds the intervals that the code doubles. \<open>now\<close> is what
  \<open>getTime()\<close> returns.

  The calls of the floor control server are in \<open>BfcpConference\<close>.
\<close>

section \<open>State\<close>

definition T1InitialMs :: int where "T1InitialMs = 500"
definition T1GiveUpMs :: int where "T1GiveUpMs = 16000"
definition MaxDatagramLen :: nat where "MaxDatagramLen = 8192"

record Pending =
  pe_transactionId :: int
  pe_datagram :: "byte list"
  pe_dueUs :: int
  pe_intervalMs :: int
  pe_firstSentUs :: int

record Cached =
  ca_transactionId :: int
  ca_datagram :: "byte list"
  ca_expiresUs :: int

record BFCPUdpEndpoint =
  e_fd :: int
  e_port :: "16 word"
  e_userId :: int
  e_remote :: IPEndpoint
  e_hasRemote :: bool
  e_latched :: bool
  e_peerVersion :: int
  e_nextTransactionId :: int
  e_pending :: "Pending list"
  e_cache :: "Cached list"
  e_finished :: bool
  e_wakes :: nat
  e_wire :: "(IPEndpoint \<times> byte list) list"
  e_sock :: "bool list"

definition BFCPUdpEndpoint_new :: "int \<Rightarrow> bool list \<Rightarrow> BFCPUdpEndpoint" where
  "BFCPUdpEndpoint_new userId sock = \<lparr>e_fd = -1, e_port = 0, e_userId = userId, e_remote = None, e_hasRemote = False,
     e_latched = False, e_peerVersion = VersionUnreliable, e_nextTransactionId = 0, e_pending = [], e_cache = [],
     e_finished = False, e_wakes = 0, e_wire = [], e_sock = sock\<rparr>"

text \<open>
  \<open>Open\<close>: \<open>sys\<close> is what the system calls gave, \<open>None\<close> when \<open>socket\<close> or \<open>bind\<close> failed, otherwise the
  descriptor and the port that \<open>getsockname\<close> reported, if it did.
\<close>

definition Udp_Open :: "(int \<times> 16 word option) option \<Rightarrow> 16 word \<Rightarrow> BFCPUdpEndpoint \<Rightarrow> 16 word \<times> BFCPUdpEndpoint" where
  "Udp_Open sys port e =
    (if e_fd e \<noteq> -1 then (0, e)
     else case sys of
       None \<Rightarrow> (0, e)
     | Some (fd, bound) \<Rightarrow>
         let p = (case bound of Some p \<Rightarrow> p | None \<Rightarrow> port) in (p, e\<lparr>e_fd := fd, e_port := p\<rparr>))"

definition SetRemote :: "IPEndpoint \<Rightarrow> BFCPUdpEndpoint \<Rightarrow> BFCPUdpEndpoint" where
  "SetRemote remote e = (if e_latched e then e else e\<lparr>e_remote := remote, e_hasRemote := True\<rparr>)"

definition Udp_Finish :: "BFCPUdpEndpoint \<Rightarrow> BFCPUdpEndpoint" where
  "Udp_Finish e = e\<lparr>e_finished := True, e_pending := []\<rparr>"

definition Udp_Close :: "BFCPUdpEndpoint \<Rightarrow> BFCPUdpEndpoint" where
  "Udp_Close e = Udp_Finish e"

section \<open>Sending\<close>

definition SendDatagramLocked :: "byte list \<Rightarrow> BFCPUdpEndpoint \<Rightarrow> bool \<times> BFCPUdpEndpoint" where
  "SendDatagramLocked data e =
    (case e_sock e of
       [] \<Rightarrow> (True, e\<lparr>e_wire := e_wire e @ [(e_remote e, data)]\<rparr>)
     | ok # rest \<Rightarrow>
         if ok then (True, e\<lparr>e_wire := e_wire e @ [(e_remote e, data)], e_sock := rest\<rparr>)
         else (False, e\<lparr>e_sock := rest\<rparr>))"

fun put_cached :: "Cached \<Rightarrow> Cached list \<Rightarrow> Cached list" where
  "put_cached entry [] = [entry]"
| "put_cached entry (c # cache) =
    (if ca_transactionId c = ca_transactionId entry then entry # cache else c # put_cached entry cache)"

text \<open>The intermediate statuses, which are not retransmitted.\<close>

definition intermediate :: "BFCPBody \<Rightarrow> bool" where
  "intermediate body =
    (case body of
       MsgFloorRequestStatus (Some info) \<Rightarrow>
         (case fri_overallRequestStatus info of
            None \<Rightarrow> False
          | Some overall \<Rightarrow>
              (case ors_requestStatus overall of
                 None \<Rightarrow> False
               | Some st \<Rightarrow> rs_status st = Status.Pending \<or> rs_status st = Accepted))
     | _ \<Rightarrow> False)"

definition Udp_Send :: "medkit \<Rightarrow> int \<Rightarrow> BFCPMessage \<Rightarrow> BFCPUdpEndpoint \<Rightarrow> bool \<times> BFCPUdpEndpoint" where
  "Udp_Send io now msg e =
    (if e_finished e \<or> e_fd e = -1 then (False, e)
     else if \<not> e_hasRemote e then (False, e)
     else case BFCPMessage_Serialize io msg MaxDatagramLen (e_peerVersion e) of
       None \<Rightarrow> (False, e)
     | Some datagram \<Rightarrow>
         case SendDatagramLocked datagram e of
           (False, e) \<Rightarrow> (False, e)
         | (True, e) \<Rightarrow>
             if m_responder msg then
               (True, e\<lparr>e_cache := put_cached \<lparr>ca_transactionId = m_transactionId msg, ca_datagram = datagram,
                  ca_expiresUs = now + T1GiveUpMs * 1000\<rparr> (e_cache e)\<rparr>)
             else if intermediate (m_body msg) then (True, e)
             else (True, e\<lparr>e_pending := e_pending e @ [\<lparr>pe_transactionId = m_transactionId msg, pe_datagram = datagram,
                  pe_dueUs = now + T1InitialMs * 1000, pe_intervalMs = T1InitialMs, pe_firstSentUs = now\<rparr>],
                  e_wakes := e_wakes e + 1\<rparr>))"

definition SendServerHello :: "medkit \<Rightarrow> int \<Rightarrow> int \<Rightarrow> BFCPUdpEndpoint \<Rightarrow> bool \<times> BFCPUdpEndpoint" where
  "SendServerHello io now conferenceId e =
    (let transactionId = e_nextTransactionId e mod 0xFFFF + 1;
         e = e\<lparr>e_nextTransactionId := transactionId\<rparr>
     in Udp_Send io now (BFCPMessage_new MsgHello transactionId conferenceId (e_userId e)) e)"

fun AckLocked :: "int \<Rightarrow> Pending list \<Rightarrow> Pending list" where
  "AckLocked transactionId [] = []"
| "AckLocked transactionId (p # pending) =
    (if pe_transactionId p = transactionId then pending else p # AckLocked transactionId pending)"

definition FindCachedLocked :: "int \<Rightarrow> BFCPUdpEndpoint \<Rightarrow> Cached option" where
  "FindCachedLocked transactionId e = find (\<lambda>c. ca_transactionId c = transactionId) (e_cache e)"

definition GetPendingCount :: "BFCPUdpEndpoint \<Rightarrow> nat" where
  "GetPendingCount e = length (e_pending e)"

section \<open>Receiving\<close>

text \<open>
  \<open>OnReadable\<close> for one datagram, up to the call of \<open>Dispatch\<close>: \<open>None\<close> when the loop returns because
  the endpoint is finished, otherwise whether the datagram is from the peer. Of a longer datagram
  \<open>recvfrom\<close> keeps \<open>MaxDatagramLen\<close> octets.
\<close>

definition Udp_receive :: "IPEndpoint \<Rightarrow> BFCPUdpEndpoint \<Rightarrow> (bool \<times> BFCPUdpEndpoint) option" where
  "Udp_receive from e =
    (if e_finished e then None
     else if \<not> e_latched e then Some (True, e\<lparr>e_remote := from, e_hasRemote := True, e_latched := True\<rparr>)
     else if \<not> ep_eq from (e_remote e) then Some (False, e)
     else Some (True, e))"

definition ack_primitive :: "int \<Rightarrow> bool" where
  "ack_primitive p \<longleftrightarrow> p = prim_code P_HelloAck \<or> p = prim_code P_GoodbyeAck \<or> p = prim_code P_FloorRequestStatusAck
     \<or> p = prim_code P_FloorStatusAck"

text \<open>\<open>Dispatch\<close> up to the call of the server: the message to hand up, if any.\<close>

definition Udp_Dispatch :: "medkit \<Rightarrow> byte list \<Rightarrow> BFCPUdpEndpoint \<Rightarrow> BFCPMessage option \<times> BFCPUdpEndpoint" where
  "Udp_Dispatch io data e =
    (case BFCPMessage_Parse io data of
       None \<Rightarrow> (None, e)
     | Some msg \<Rightarrow>
         let transactionId = m_transactionId msg; e = e\<lparr>e_peerVersion := m_version msg\<rparr> in
         if m_userId msg \<noteq> e_userId e then (None, e)
         else
           let e = (if m_responder msg then e\<lparr>e_pending := AckLocked transactionId (e_pending e)\<rparr> else e);
               e = (if ack_primitive (GetPrimitive msg) \<or> GetPrimitive msg = prim_code P_Error
                    then e\<lparr>e_pending := AckLocked transactionId (e_pending e)\<rparr> else e)
           in case (if m_responder msg then None else FindCachedLocked transactionId e) of
                Some cached \<Rightarrow> (None, snd (SendDatagramLocked (ca_datagram cached) e))
              | None \<Rightarrow> (if ack_primitive (GetPrimitive msg) then None else Some msg, e))"

section \<open>Retransmission\<close>

text \<open>
  The loop over \<open>pending\<close> in \<open>OnPeriodic\<close>: what stays, what is sent again, whether a transaction was
  given up.
\<close>

fun tick :: "int \<Rightarrow> Pending list \<Rightarrow> Pending list \<times> byte list list \<times> bool" where
  "tick now [] = ([], [], False)"
| "tick now (p # pending) =
    (let (stay, resend, givenUp) = tick now pending in
     if now \<ge> pe_firstSentUs p + T1GiveUpMs * 1000 then (stay, resend, True)
     else if pe_dueUs p > now then (p # stay, resend, givenUp)
     else let interval = pe_intervalMs p * 2 in
       (p\<lparr>pe_intervalMs := interval, pe_dueUs := now + interval * 1000\<rparr> # stay, pe_datagram p # resend, givenUp))"

text \<open>\<open>OnPeriodic\<close> up to the call of the server: whether the server is told that the peer is gone.\<close>

definition Udp_OnPeriodic :: "int \<Rightarrow> BFCPUdpEndpoint \<Rightarrow> bool \<times> BFCPUdpEndpoint" where
  "Udp_OnPeriodic now e =
    (if e_finished e then (False, e)
     else let (stay, resend, givenUp) = tick now (e_pending e);
              e = fold (\<lambda>d e. snd (SendDatagramLocked d e)) resend (e\<lparr>e_pending := stay\<rparr>)
          in (givenUp, e\<lparr>e_cache := filter (\<lambda>c. ca_expiresUs c > now) (e_cache e)\<rparr>))"

text \<open>The minimum of \<open>GetNextTimeoutMs\<close>; 0 is the initial value of \<open>soonestUs\<close>.\<close>

definition deadline :: "Pending \<Rightarrow> int" where
  "deadline p = (let giveUpUs = pe_firstSentUs p + T1GiveUpMs * 1000
                 in if pe_dueUs p < giveUpUs then pe_dueUs p else giveUpUs)"

definition soonest :: "Pending list \<Rightarrow> int" where
  "soonest pending = fold (\<lambda>p s. if s = 0 \<or> deadline p < s then deadline p else s) pending 0"

definition Udp_GetNextTimeoutMs :: "int \<Rightarrow> BFCPUdpEndpoint \<Rightarrow> int" where
  "Udp_GetNextTimeoutMs now e =
    (if e_finished e \<or> e_pending e = [] then -1
     else let soonestUs = soonest (e_pending e)
          in if soonestUs \<le> now then 0 else (soonestUs - now) div 1000)"

definition Udp_GetPollFds :: "int \<Rightarrow> BFCPUdpEndpoint \<Rightarrow> int list" where
  "Udp_GetPollFds mx e = (if mx < 1 \<or> e_finished e \<or> e_fd e = -1 then [] else [e_fd e])"

section \<open>How often and how long\<close>

lemmas timers = T1InitialMs_def T1GiveUpMs_def

text \<open>
  A message that was sent again \<open>k\<close> turns waits for the \<open>k\<close>-th power of two of the first interval,
  and cannot be due before all the intervals so far have passed.
\<close>

definition backoff :: "nat \<Rightarrow> Pending \<Rightarrow> bool" where
  "backoff k p \<longleftrightarrow> pe_intervalMs p = T1InitialMs * 2 ^ k
     \<and> pe_firstSentUs p + (2 * pe_intervalMs p - T1InitialMs) * 1000 \<le> pe_dueUs p"

text \<open>Successive turns of the reactor, with no acknowledgement: what is still pending, what was sent again, and whether it was given up.\<close>

fun ticks :: "int list \<Rightarrow> Pending list \<Rightarrow> Pending list \<times> byte list list \<times> bool" where
  "ticks [] pending = (pending, [], False)"
| "ticks (now # turns) pending =
    (let (stay, resend, givenUp) = tick now pending; (stay', resend', givenUp') = ticks turns stay
     in (stay', resend @ resend', givenUp \<or> givenUp'))"

lemma ticks_Nil [simp]: "ticks turns [] = ([], [], False)"
  by (induction turns) simp_all

lemma backoff_next:
  assumes "backoff k p" and "now < pe_firstSentUs p + T1GiveUpMs * 1000" and "pe_dueUs p \<le> now"
  shows "k \<le> 4 \<and> backoff (Suc k) (p\<lparr>pe_intervalMs := pe_intervalMs p * 2, pe_dueUs := now + pe_intervalMs p * 2 * 1000\<rparr>)"
proof -
  have i: "pe_intervalMs p = 500 * 2 ^ k" "pe_firstSentUs p + (2 * pe_intervalMs p - 500) * 1000 \<le> pe_dueUs p"
    using assms(1) unfolding backoff_def timers by blast+
  then have "(2 :: int) ^ k < 17" using assms(2,3) by (simp add: timers)
  then have "k \<le> 4"
    using power_increasing [of 5 k "2 :: int"] by (cases "k \<le> 4") auto
  then show ?thesis
    using i assms(3) by (simp add: backoff_def timers)
qed

lemma ticks_one:
  assumes "backoff k p" and "k \<le> 5"
  shows "case ticks turns [p] of (stay, resend, givenUp) \<Rightarrow>
    length resend + k \<le> 5 \<and> set resend \<subseteq> {pe_datagram p}
    \<and> ((\<exists>t \<in> set turns. pe_firstSentUs p + T1GiveUpMs * 1000 \<le> t) \<longrightarrow> stay = [] \<and> givenUp)
    \<and> ((\<forall>t \<in> set turns. t < pe_firstSentUs p + T1GiveUpMs * 1000) \<longrightarrow>
        \<not> givenUp \<and> map pe_transactionId stay = [pe_transactionId p])"
  using assms
proof (induction turns arbitrary: k p)
  case (Cons now turns)
  consider (over) "pe_firstSentUs p + T1GiveUpMs * 1000 \<le> now" | (early) "now < pe_firstSentUs p + T1GiveUpMs * 1000" "now < pe_dueUs p"
    | (due) "now < pe_firstSentUs p + T1GiveUpMs * 1000" "pe_dueUs p \<le> now" by linarith
  then show ?case
  proof cases
    case over
    with Cons.prems show ?thesis by (auto simp: not_less)
  next
    case early
    with Cons.IH [OF Cons.prems] show ?thesis by (auto split: prod.splits)
  next
    case due
    let ?p = "p\<lparr>pe_intervalMs := pe_intervalMs p * 2, pe_dueUs := now + pe_intervalMs p * 2 * 1000\<rparr>"
    note n = backoff_next [OF Cons.prems(1) due]
    from Cons.IH [of "Suc k" ?p] n due show ?thesis by (auto split: prod.splits)
  qed
qed (use assms in simp)

declare ticks.simps [simp del]


lemma floor_div:
  fixes k x :: int
  assumes "0 < k"
  shows "x div k * k \<le> x \<and> x < (x div k + 1) * k"
proof -
  have "x = x div k * k + x mod k" by simp
  moreover have "(x div k + 1) * k = x div k * k + k" by (simp add: distrib_right)
  ultimately show ?thesis
    using pos_mod_sign [OF assms, of x] pos_mod_bound [OF assms, of x] by linarith
qed

lemma soonest_fold:
  assumes "\<And>p. p \<in> set pending \<Longrightarrow> 0 < deadline p" and "pending \<noteq> [] \<or> 0 < s" and "0 \<le> s"
  shows "let m = fold (\<lambda>p s. if s = 0 \<or> deadline p < s then deadline p else s) pending s in
    0 < m \<and> (0 < s \<longrightarrow> m \<le> s) \<and> (\<forall>p \<in> set pending. m \<le> deadline p) \<and> (m = s \<or> (\<exists>p \<in> set pending. m = deadline p))"
  using assms
proof (induction pending arbitrary: s)
  case (Cons p pending)
  let ?s = "if s = 0 \<or> deadline p < s then deadline p else s"
  have "0 < ?s" using Cons.prems(1) [of p] Cons.prems(3) by auto
  with Cons.IH [of ?s] Cons.prems(1) show ?case
    by (auto simp: Let_def split: if_splits)
qed (simp add: Let_def)

lemma soonest_spec:
  assumes "pending \<noteq> []" and "\<And>p. p \<in> set pending \<Longrightarrow> 0 < deadline p"
  shows "(\<forall>p \<in> set pending. soonest pending \<le> deadline p) \<and> (\<exists>p \<in> set pending. soonest pending = deadline p)"
  using soonest_fold [of pending 0] assms by (auto simp: soonest_def Let_def)

text \<open>
  The reactor is never told to sleep past a deadline: no pending message is due, or to be given
  up, before the timeout the endpoint asks for, and the timeout ends less than a millisecond
  before the first of them; with nothing pending there is none.
\<close>

theorem timeout_in_time:
  fixes now :: int
  assumes "\<not> e_finished e" and "\<And>p. p \<in> set (e_pending e) \<Longrightarrow> 0 < deadline p"
  defines "t \<equiv> Udp_GetNextTimeoutMs now e"
  shows "(t = -1 \<longleftrightarrow> e_pending e = [])
    \<and> (e_pending e \<noteq> [] \<longrightarrow> 0 \<le> t
        \<and> (\<forall>p \<in> set (e_pending e). now < deadline p \<longrightarrow> now + t * 1000 \<le> deadline p)
        \<and> (\<exists>p \<in> set (e_pending e). deadline p < now + (t + 1) * 1000))"
proof (cases "e_pending e = []")
  case False
  from soonest_spec [OF False] assms(2)
  have s: "\<forall>p \<in> set (e_pending e). soonest (e_pending e) \<le> deadline p" "\<exists>p \<in> set (e_pending e). soonest (e_pending e) = deadline p"
    by blast+
  show ?thesis
  proof (cases "soonest (e_pending e) \<le> now")
    case True
    with False assms(1) have "t = 0" by (simp add: t_def Udp_GetNextTimeoutMs_def Let_def)
    with s True False show ?thesis by force
  next
    case le: False
    have t: "t = (soonest (e_pending e) - now) div 1000"
      using le False assms(1) by (simp add: t_def Udp_GetNextTimeoutMs_def Let_def)
    with floor_div [of 1000 "soonest (e_pending e) - now"] le
    have q: "now + t * 1000 \<le> soonest (e_pending e)" "soonest (e_pending e) < now + (t + 1) * 1000" "0 \<le> t"
      by (auto simp: pos_imp_zdiv_nonneg_iff)
    have "now + t * 1000 \<le> deadline p" if "p \<in> set (e_pending e)" for p
      using s(1) that q(1) by force
    moreover have "\<exists>p \<in> set (e_pending e). deadline p < now + (t + 1) * 1000"
      using s(2) q(2) by force
    ultimately show ?thesis using q(3) False by auto
  qed
qed (simp add: t_def Udp_GetNextTimeoutMs_def)

section \<open>A sample endpoint\<close>

definition leg :: BFCPUdpEndpoint where
  "leg = SetRemote (To (v4net 192 0 2 9) 5070) (snd (Udp_Open (Some (5, Some 40000)) 0 (BFCPUdpEndpoint_new 2 [])))"

definition hello_octets :: "byte list" where
  "hello_octets = [64, 11, 0, 0, 0, 0, 0, 77, 0, 1, 0, 2]"

lemma leg_fields [simp]:
  "e_finished leg = False" "e_fd leg = 5" "e_hasRemote leg" "e_peerVersion leg = 2" "e_sock leg = []" "e_pending leg = []"
  "e_userId leg = 2" "e_nextTransactionId leg = 0" "e_cache leg = []"
  by (simp_all add: leg_def SetRemote_def Udp_Open_def BFCPUdpEndpoint_new_def VersionUnreliable_def)

lemma hello_Serialize:
  "BFCPMessage_Serialize network_order (BFCPMessage_new MsgHello 1 77 2) MaxDatagramLen 2 = Some hello_octets"
  by (simp add: hello_octets_def serialize_eval MaxDatagramLen_def)

definition hello_pending :: Pending where
  "hello_pending = \<lparr>pe_transactionId = 1, pe_datagram = hello_octets, pe_dueUs = 1500000, pe_intervalMs = 500, pe_firstSentUs = 1000000\<rparr>"

lemma hello_fields [simp]:
  "m_transactionId (BFCPMessage_new b t c u) = t" "\<not> m_responder (BFCPMessage_new b t c u)" "m_body (BFCPMessage_new b t c u) = b"
  by (simp_all add: BFCPMessage_new_def)

lemma hello_sent:
  "Udp_Send network_order 1000000 (BFCPMessage_new MsgHello 1 77 2) leg
    = (True, leg\<lparr>e_wire := e_wire leg @ [(e_remote leg, hello_octets)], e_pending := e_pending leg @ [hello_pending],
        e_wakes := e_wakes leg + 1\<rparr>)"
  by (simp add: Udp_Send_def hello_Serialize SendDatagramLocked_def intermediate_def timers hello_pending_def)

lemma hello_ticks:
  "fst (snd (ticks [1500000, 2500000, 4500000, 8500000, 16500000, 17000000] [hello_pending])) = [hello_octets, hello_octets, hello_octets, hello_octets, hello_octets]"
  by code_simp


lemma hello_deadline: "deadline hello_pending = 1500000"
  by (simp add: deadline_def hello_pending_def timers)

theorem timeout_in_time_witness:
  "Udp_GetNextTimeoutMs 1200000 (leg\<lparr>e_pending := [hello_pending]\<rparr>) = 300"
  using timeout_in_time [of "leg\<lparr>e_pending := [hello_pending]\<rparr>" 1200000] by (auto simp: hello_deadline)

section \<open>Answers\<close>

lemma find_put_cached:
  "find (\<lambda>c. ca_transactionId c = i) (put_cached entry cache) =
    (if i = ca_transactionId entry then Some entry else find (\<lambda>c. ca_transactionId c = i) cache)"
  by (induction cache) auto

lemma find_filter: "find P xs = Some x \<Longrightarrow> Q x \<Longrightarrow> find P (filter Q xs) = Some x"
  by (induction xs) (auto split: if_splits)

lemma SendDatagram_frame:
  "SendDatagramLocked d e = (ok, e') \<Longrightarrow> e_cache e' = e_cache e \<and> e_remote e' = e_remote e \<and> e_userId e' = e_userId e
     \<and> e_finished e' = e_finished e \<and> e_pending e' = e_pending e"
  by (auto simp: SendDatagramLocked_def split: list.splits if_splits)

lemma resend_frame:
  "let e' = fold (\<lambda>d e. snd (SendDatagramLocked d e)) ds e in
    e_cache e' = e_cache e \<and> e_remote e' = e_remote e \<and> e_userId e' = e_userId e \<and> e_finished e' = e_finished e
    \<and> e_pending e' = e_pending e"
proof (induction ds arbitrary: e)
  case (Cons d ds)
  from Cons.IH [of "snd (SendDatagramLocked d e)"] SendDatagram_frame [of d e _ "snd (SendDatagramLocked d e)"] show ?case
    by (simp add: Let_def prod_eq_iff)
qed simp

text \<open>The endpoint still has the answer to a transaction of its peer.\<close>

definition has_answer :: "int \<Rightarrow> byte list \<Rightarrow> int \<Rightarrow> BFCPUdpEndpoint \<Rightarrow> bool" where
  "has_answer i d t e \<longleftrightarrow> FindCachedLocked i e = Some \<lparr>ca_transactionId = i, ca_datagram = d, ca_expiresUs = t\<rparr>"

lemma has_answer_periodic:
  assumes "has_answer i d t e" and "now < t"
  shows "has_answer i d t (snd (Udp_OnPeriodic now e)) \<and> e_remote (snd (Udp_OnPeriodic now e)) = e_remote e
    \<and> e_userId (snd (Udp_OnPeriodic now e)) = e_userId e"
proof -
  obtain stay resend givenUp where k: "tick now (e_pending e) = (stay, resend, givenUp)" by (metis prod_cases3)
  from resend_frame [of resend "e\<lparr>e_pending := stay\<rparr>"] assms show ?thesis
    by (auto simp: has_answer_def FindCachedLocked_def Udp_OnPeriodic_def k Let_def intro: find_filter)
qed

lemma Dispatch_cached:
  assumes "BFCPMessage_Parse io data = Some req" and "\<not> m_responder req" and "m_userId req = e_userId e"
    and "FindCachedLocked (m_transactionId req) e = Some c"
  shows "\<exists>e'. Udp_Dispatch io data e = (None, snd (SendDatagramLocked (ca_datagram c) e'))
    \<and> e_sock e' = e_sock e \<and> e_remote e' = e_remote e \<and> e_wire e' = e_wire e"
proof -
  let ?e = "e\<lparr>e_peerVersion := m_version req\<rparr>"
  let ?e' = "if ack_primitive (GetPrimitive req) \<or> GetPrimitive req = prim_code P_Error
    then ?e\<lparr>e_pending := AckLocked (m_transactionId req) (e_pending ?e)\<rparr> else ?e"
  have "FindCachedLocked (m_transactionId req) ?e' = Some c"
    using assms(4) by (simp add: FindCachedLocked_def)
  then have "Udp_Dispatch io data e = (None, snd (SendDatagramLocked (ca_datagram c) ?e'))"
    using assms(1-3) by (simp add: Udp_Dispatch_def Let_def)
  then show ?thesis by (intro exI [of _ ?e']) simp
qed

lemma SendDatagram_wire:
  "hd (e_sock e @ [True]) \<Longrightarrow> e_wire (snd (SendDatagramLocked d e)) = e_wire e @ [(e_remote e, d)]"
  by (auto simp: SendDatagramLocked_def split: list.splits)

lemma Send_answer:
  assumes "Udp_Send io t0 reply e = (True, e1)" and "m_responder reply"
  obtains octets where "BFCPMessage_Serialize io reply MaxDatagramLen (e_peerVersion e) = Some octets"
    "last (e_wire e1) = (e_remote e, octets)" "has_answer (m_transactionId reply) octets (t0 + T1GiveUpMs * 1000) e1"
    "e_remote e1 = e_remote e" "e_userId e1 = e_userId e"
proof -
  from assms obtain octets where o: "BFCPMessage_Serialize io reply MaxDatagramLen (e_peerVersion e) = Some octets"
    by (auto simp: Udp_Send_def split: if_splits option.splits)
  obtain ok e' where s: "SendDatagramLocked octets e = (ok, e')" by (cases "SendDatagramLocked octets e")
  with assms o have e1: "ok" "e1 = e'\<lparr>e_cache := put_cached \<lparr>ca_transactionId = m_transactionId reply, ca_datagram = octets,
      ca_expiresUs = t0 + T1GiveUpMs * 1000\<rparr> (e_cache e')\<rparr>"
    by (auto simp: Udp_Send_def split: if_splits bool.splits)
  have "last (e_wire e') = (e_remote e, octets)" "e_remote e' = e_remote e" "e_userId e' = e_userId e"
    using s e1(1) by (auto simp: SendDatagramLocked_def split: list.splits if_splits)
  with o e1 that [of octets] show thesis
    by (simp add: has_answer_def FindCachedLocked_def find_put_cached)
qed

text \<open>
  A request that comes again is answered again and not served again. After the endpoint sent
  an answer, and for 16 seconds whatever the reactor does, a request of the same transaction is
  not handed to the server; the peer is sent the very octets of the answer.
\<close>

theorem answer_replayed:
  assumes "Udp_Send io t0 reply e = (True, e1)" and "m_responder reply"
    and "\<And>t. t \<in> set turns \<Longrightarrow> t < t0 + T1GiveUpMs * 1000"
    and "BFCPMessage_Parse io data = Some req" and "\<not> m_responder req"
    and "m_userId req = e_userId e" and "m_transactionId req = m_transactionId reply"
  defines "e2 \<equiv> fold (\<lambda>t e. snd (Udp_OnPeriodic t e)) turns e1"
  shows "fst (Udp_Dispatch io data e2) = None
    \<and> (\<exists>octets. BFCPMessage_Serialize io reply MaxDatagramLen (e_peerVersion e) = Some octets
        \<and> last (e_wire e1) = (e_remote e, octets)
        \<and> (hd (e_sock e2 @ [True]) \<longrightarrow> e_wire (snd (Udp_Dispatch io data e2)) = e_wire e2 @ [(e_remote e, octets)]))"
proof -
  from assms(1,2) obtain octets where o: "BFCPMessage_Serialize io reply MaxDatagramLen (e_peerVersion e) = Some octets"
    "last (e_wire e1) = (e_remote e, octets)" "has_answer (m_transactionId reply) octets (t0 + T1GiveUpMs * 1000) e1"
    "e_remote e1 = e_remote e" "e_userId e1 = e_userId e"
    by (rule Send_answer)
  let ?P = "\<lambda>x. has_answer (m_transactionId reply) octets (t0 + T1GiveUpMs * 1000) x \<and> e_remote x = e_remote e \<and> e_userId x = e_userId e"
  have "?P e2"
    unfolding e2_def using o(3-5) assms(3) has_answer_periodic by (intro fold_inv [where P = ?P]) auto
  then have c: "FindCachedLocked (m_transactionId req) e2 =
      Some \<lparr>ca_transactionId = m_transactionId req, ca_datagram = octets, ca_expiresUs = t0 + T1GiveUpMs * 1000\<rparr>"
    "e_remote e2 = e_remote e" "e_userId e2 = e_userId e"
    by (simp_all add: has_answer_def assms(7))
  from Dispatch_cached [OF assms(4,5) _ c(1)] assms(6) c(3) obtain e' where
    d: "Udp_Dispatch io data e2 = (None, snd (SendDatagramLocked octets e'))"
    and e': "e_sock e' = e_sock e2" "e_remote e' = e_remote e2" "e_wire e' = e_wire e2" by auto
  show ?thesis
    using o(1,2) SendDatagram_wire [of e' octets] by (simp add: d e' c(2))
qed

lemma plain_message:
  assumes "p \<in> {15, 16, 17}"
  shows "BFCPMessage_Serialize network_order ((BFCPMessage_new (MsgOther p) 1 77 2)\<lparr>m_responder := r\<rparr>) MaxDatagramLen 2
      = Some [if r then 80 else 64, of_int p, 0, 0, 0, 0, 0, 77, 0, 1, 0, 2]" (is ?S)
    and "BFCPMessage_Parse network_order [if r then 80 else 64, of_int p, 0, 0, 0, 0, 0, 77, 0, 1, 0, 2]
      = Some ((BFCPMessage_new (MsgOther p) 1 77 2)\<lparr>m_responder := r, m_version := 2\<rparr>)"
proof -
  show s: ?S by (cases r) (use assms in \<open>auto simp: serialize_eval MaxDatagramLen_def\<close>)
  have "msg_wf ((BFCPMessage_new (MsgOther p) 1 77 2)\<lparr>m_responder := r\<rparr>)"
    using assms by (auto simp: msg_wf_def BFCPMessage_new_def new_body_def)
  from net.Parse_Serialize_lemma [OF this _ _ s, of "[]"]
  show "BFCPMessage_Parse network_order [if r then 80 else 64, of_int p, 0, 0, 0, 0, 0, 77, 0, 1, 0, 2]
      = Some ((BFCPMessage_new (MsgOther p) 1 77 2)\<lparr>m_responder := r, m_version := 2\<rparr>)"
    by (simp add: BFCPMessage_new_def)
qed

definition goodbye_octets :: "byte list" where
  "goodbye_octets = [64, 16, 0, 0, 0, 0, 0, 77, 0, 1, 0, 2]"

definition goodbye_ack :: BFCPMessage where
  "goodbye_ack = (BFCPMessage_new (MsgOther 17) 1 77 2)\<lparr>m_responder := True\<rparr>"

theorem answer_replayed_witness:
  "\<exists>e1. Udp_Send network_order 1000000 goodbye_ack leg = (True, e1)
    \<and> (let e2 = snd (Udp_OnPeriodic 1000001 e1) in
        fst (Udp_Dispatch network_order goodbye_octets e2) = None
        \<and> e_wire (snd (Udp_Dispatch network_order goodbye_octets e2))
            = e_wire e2 @ [(e_remote leg, [80, 17, 0, 0, 0, 0, 0, 77, 0, 1, 0, 2])])"
proof -
  obtain e1 where e1: "Udp_Send network_order 1000000 goodbye_ack leg = (True, e1)" "e_sock e1 = []"
    using plain_message(1) [of 17 True]
    by (simp add: Udp_Send_def goodbye_ack_def SendDatagramLocked_def)
  have e2: "e_sock (snd (Udp_OnPeriodic 1000001 e1)) = []"
  proof -
    have "e_sock (fold (\<lambda>d e. snd (SendDatagramLocked d e)) ds e) = []" if "e_sock e = []" for ds e
      using that by (induction ds arbitrary: e) (auto simp: SendDatagramLocked_def)
    with e1(2) show ?thesis by (simp add: Udp_OnPeriodic_def Let_def split: prod.splits)
  qed
  have p: "BFCPMessage_Parse network_order goodbye_octets = Some ((BFCPMessage_new (MsgOther 16) 1 77 2)\<lparr>m_responder := False, m_version := 2\<rparr>)"
    using plain_message(2) [of 16 False] by (simp add: goodbye_octets_def)
  have "fst (Udp_Dispatch network_order goodbye_octets (fold (\<lambda>t e. snd (Udp_OnPeriodic t e)) [1000001] e1)) = None
    \<and> (\<exists>octets. BFCPMessage_Serialize network_order goodbye_ack MaxDatagramLen (e_peerVersion leg) = Some octets
        \<and> last (e_wire e1) = (e_remote leg, octets)
        \<and> (hd (e_sock (fold (\<lambda>t e. snd (Udp_OnPeriodic t e)) [1000001] e1) @ [True]) \<longrightarrow>
            e_wire (snd (Udp_Dispatch network_order goodbye_octets (fold (\<lambda>t e. snd (Udp_OnPeriodic t e)) [1000001] e1)))
              = e_wire (fold (\<lambda>t e. snd (Udp_OnPeriodic t e)) [1000001] e1) @ [(e_remote leg, octets)]))"
    by (rule answer_replayed [OF e1(1) _ _ p]) (auto simp: goodbye_ack_def timers BFCPMessage_new_def)
  with e1(1) e2 plain_message(1) [of 17 True] show ?thesis
    by (auto simp: goodbye_ack_def)
qed


end
