(* ===== verification/BfcpTargets.thy ===== *)
theory BfcpTargets
  imports BfcpWire
begin

text \<open>
  Which transports the floor control server calls. Whatever operation runs, every call goes to a
  transport some user is attached to, or to the one the operation was given; and no user is
  attached to any other transport afterwards. This is what lets the owner of a transport destroy it
  once no user is attached to it (\<open>BfcpConference\<close>).
\<close>

section \<open>Operations that stay within a set of transports\<close>

definition user_in :: "tid set \<Rightarrow> BFCPUser \<Rightarrow> bool" where
  "user_in T u \<longleftrightarrow> (\<forall>t. u_transport u = Some t \<longrightarrow> t \<in> T)"

text \<open>\<open>T k\<close>: the transports the user \<open>k\<close> may be attached to.\<close>

definition settled :: "(int \<Rightarrow> tid set) \<Rightarrow> server \<Rightarrow> bool" where
  "settled T s \<longleftrightarrow> (\<forall>x \<in> set (s_users s). user_in (T (fst x)) (snd x))"

fun target :: "effect \<Rightarrow> tid" where
  "target (SentTo t msg) = t"
| "target (Closed t) = t"

definition within :: "(int \<Rightarrow> tid set) \<Rightarrow> server \<Rightarrow> server \<Rightarrow> bool" where
  "within T s s' \<longleftrightarrow> (settled T s \<longrightarrow> settled T s' \<and> (\<exists>es. s_sent s' = s_sent s @ es \<and> (\<forall>e \<in> set es. \<exists>k. target e \<in> T k)))"

definition sendable :: "(int \<Rightarrow> tid set) \<Rightarrow> BFCPUser \<Rightarrow> bool" where
  "sendable T u \<longleftrightarrow> (\<forall>t. u_transport u = Some t \<longrightarrow> (\<exists>k. t \<in> T k))"

lemma user_in_sendable: "user_in (T k) u \<Longrightarrow> sendable T u"
  by (auto simp: user_in_def sendable_def)

lemma within_refl [simp]: "within T s s"
  by (simp add: within_def)

lemma within_trans: "within T s t \<Longrightarrow> within T t u \<Longrightarrow> within T s u"
  by (fastforce simp: within_def)

lemma withinI: "(settled T s \<Longrightarrow> within T s t) \<Longrightarrow> within T s t"
  by (auto simp: within_def)

lemma within_fold:
  assumes "\<And>x s. x \<in> set xs \<Longrightarrow> within T s (f x s)"
  shows "within T s (fold f xs s)"
  by (rule fold_inv [where P = "within T s"]) (auto intro: within_trans assms)

lemma within_same: "s_users t = s_users s \<Longrightarrow> s_sent t = s_sent s \<Longrightarrow> within T s t"
  by (simp add: within_def settled_def)

lemma within_emit: "\<exists>k. target e \<in> T k \<Longrightarrow> within T s (emit e s)"
  by (auto simp: within_def settled_def emit_def)

lemma within_Send: "sendable T u \<Longrightarrow> within T s (snd (SendMessage tr u msg s))"
  by (auto simp: SendMessage_def sendable_def intro!: within_emit split: option.split)

lemma within_set_user: "user_in (T k) u \<Longrightarrow> within T s (set_user k u s)"
  using om_put_all [of "s_users s" "\<lambda>x. user_in (T (fst x)) (snd x)" k u]
  by (simp add: within_def settled_def set_user_def)

lemma within_quiet:
  "within T s (snd (NextTransactionIdLocked s))" "within T s (snd (NotificationTransactionIdLocked tr v s))"
  "within T s (set_request k r s)" "within T s (erase_request k s)" "within T s (push_back n s)" "within T s (Fire s)"
  by (auto intro!: within_same simp: NextTransactionIdLocked_def NotificationTransactionIdLocked_def Let_def set_request_def
      erase_request_def push_back_def Fire_def split: option.split)

lemma settled_user: "settled T s \<Longrightarrow> GetUserLocked k s = Some u \<Longrightarrow> user_in (T k) u"
  by (force simp: settled_def GetUserLocked_def dest!: om_find_in)

lemma settled_sendable: "settled T s \<Longrightarrow> GetUserLocked k s = Some u \<Longrightarrow> sendable T u"
  using settled_user [of T s k u] user_in_sendable [of T k u] by simp

lemma within_if: "within T s t \<Longrightarrow> within T s u \<Longrightarrow> within T s (if c then t else u)"
  by simp

lemma within_reply: "(\<And>t. to = Some t \<Longrightarrow> \<exists>k. t \<in> T k) \<Longrightarrow> within T s (ReplyErrorLocked msg to c info s)"
  by (auto simp: ReplyErrorLocked_def intro!: within_emit split: option.split)

lemma within_notify_floor: "sendable T u \<Longrightarrow> within T s (snd (notify_floor tr u f s))"
  unfolding notify_floor_def case_prod_beta by (rule within_trans [OF within_quiet(2) within_Send])

lemma within_Notify: "within T s (NotifyForFloorRequestLocked tr r s)"
proof (rule withinI)
  assume s: "settled T s"
  show "within T s (NotifyForFloorRequestLocked tr r s)"
    unfolding NotifyForFloorRequestLocked_def
  proof (intro within_fold, clarify)
    fix k u t
    assume "(k, u) \<in> set (s_users s)"
    with s have "user_in (T k) u" by (force simp: settled_def)
    then have "sendable T u" by (rule user_in_sendable)
    then show "within T t (fold (\<lambda>f s. if \<not> HasQueriedFloorId u f then s else snd (notify_floor tr u f s)) (q_floorIds r) t)"
      by (intro within_fold) (auto intro: within_notify_floor)
  qed
qed

lemma within_status: "within T s (SendFloorRequestStatusLocked tr r i k info b s)"
  by (rule withinI) (auto simp: SendFloorRequestStatusLocked_def SendMessageLocked_def Let_def
      intro: within_Send settled_sendable split: option.split)

lemma within_notify_requester: "within T s (notify_requester tr u r info s)"
  unfolding notify_requester_def case_prod_beta by (rule within_trans [OF within_quiet(2) within_status])

text \<open>The lemmas above, for a step at the end of a sequence of steps.\<close>

lemma within_post:
  assumes "within T s t"
  shows "within T s (snd (NextTransactionIdLocked t))" "within T s (snd (NotificationTransactionIdLocked tr v t))"
    "within T s (set_request k r t)" "within T s (erase_request k t)" "within T s (push_back n t)" "within T s (Fire t)"
    "within T s (NotifyForFloorRequestLocked tr r t)" "within T s (notify_requester tr v r info t)"
    "within T s (SendFloorRequestStatusLocked tr r i j info b t)"
    "sendable T u \<Longrightarrow> within T s (snd (SendMessage tr u msg t))"
    "user_in (T k) u \<Longrightarrow> within T s (set_user k u t)"
  by (rule within_trans [OF assms]; simp add: within_quiet within_Notify within_notify_requester within_status
      within_Send within_set_user)+

section \<open>The operations\<close>

lemma within_Deny: "within T s (snd (DenyFloorRequestLocked tr k info s))"
  by (auto simp: DenyFloorRequestLocked_def Let_def intro!: within_post split: option.split)

lemma within_Revoke: "within T s (snd (RevokeFloorRequestLocked tr k info s))"
  by (auto simp: RevokeFloorRequestLocked_def Let_def intro!: within_post split: option.split)

lemma within_end_request: "within T s (end_request tr info j s)"
  by (simp add: end_request_def within_Revoke within_Deny split: option.split)

lemma within_Grant: "within T s (snd (GrantFloorRequestLocked tr k s))"
  by (auto simp: GrantFloorRequestLocked_def revoke_other_def Let_def intro!: within_post within_fold within_Revoke split: option.split)

lemma within_RevokeUser: "within T s (RevokeUserFloorRequestsLocked tr u s)"
  by (simp add: RevokeUserFloorRequestsLocked_def within_fold within_end_request)

lemma user_in_simps [simp]:
  "user_in X (ResetQueriedFloorIds u) = user_in X u" "user_in X (u\<lparr>u_transport := None\<rparr>)"
  "user_in X (u\<lparr>u_transport := Some t\<rparr>) = (t \<in> X)" "user_in X (u\<lparr>u_isChair := b\<rparr>) = user_in X u"
  "user_in X (fold AddQueriedFloorId fs u) = user_in X u" "user_in X (BFCPUser_new k c)"
  by (simp_all add: user_in_def ResetQueriedFloorIds_def BFCPUser_new_def fold_AddQueried)

lemma sendable_simps [simp]:
  "sendable T (ResetQueriedFloorIds u) = sendable T u" "sendable T (fold AddQueriedFloorId fs u) = sendable T u"
  by (simp_all add: sendable_def ResetQueriedFloorIds_def fold_AddQueried)

lemma within_Close:
  assumes "within T s t" and "sendable T u"
  shows "within T s (CloseTransport k u t)"
  using assms by (auto simp: CloseTransport_def Let_def sendable_def
      intro!: within_post(11) within_trans [OF assms(1) within_emit] split: option.split)

lemma within_goodbye:
  assumes "within T s t" and "sendable T u"
  shows "within T s (case NotificationTransactionIdLocked tr v t of (i, t) \<Rightarrow> snd (SendMessage tr u (m i t) t))"
  unfolding case_prod_beta using assms by (intro within_post)

lemma within_drop_user:
  assumes "within T s t"
  shows "within T s (t\<lparr>s_users := om_erase k (s_users t)\<rparr>)"
  by (rule within_trans [OF assms]) (simp add: within_def settled_def om_erase_def)

lemma within_RemoveUser: "within T s (snd (RemoveUserLocked tr k b s))"
proof (rule withinI)
  assume s: "settled T s"
  show "within T s (snd (RemoveUserLocked tr k b s))"
  proof (cases "om_find k (s_users s)")
    case (Some u)
    with s have "user_in (T k) u" by (intro settled_user) (auto simp: GetUserLocked_def)
    then have "sendable T u" by (rule user_in_sendable)
    then show ?thesis
      unfolding RemoveUserLocked_def Let_def Some option.case snd_conv
      by (intro within_drop_user within_Close within_if within_goodbye within_RevokeUser)
  qed (simp add: RemoveUserLocked_def)
qed

lemma within_Attach:
  assumes "t \<in> T k"
  shows "within T s (AttachTransportLocked tr k t s)"
proof (rule withinI)
  assume s: "settled T s"
  show "within T s (AttachTransportLocked tr k t s)"
  proof (cases "GetUserLocked k s")
    case (Some u)
    with s have u: "user_in (T k) u" by (rule settled_user)
    note user_in_sendable [of T k, OF u]
    moreover have "within T s (RevokeUserFloorRequestsLocked tr k (set_user k (ResetQueriedFloorIds u) s))"
      using u by (intro within_trans [OF _ within_RevokeUser] within_set_user) simp
    ultimately show ?thesis
      using Some u assms by (auto simp: AttachTransportLocked_def Let_def intro!: within_post(11) within_Close)
  qed (simp add: AttachTransportLocked_def)
qed

lemma within_Detach: "within T s (DetachTransportLocked tr k s)"
  by (auto simp: DetachTransportLocked_def Let_def intro!: within_set_user within_trans [OF within_set_user within_RevokeUser]
      split: option.split)

lemma within_FloorRequest:
  assumes "sendable T user"
  shows "within T s (ProcessFloorRequestLocked tr msg req user s)"
proof -
  have "within T s (s\<lparr>s_floorRequestCounter := k\<rparr>)" for k by (rule within_same) simp_all
  then show ?thesis
    using assms by (auto simp: ProcessFloorRequestLocked_def Let_def sendable_def
        intro!: within_reply within_post within_trans [OF _ within_Grant])
qed

lemma within_FloorRelease:
  assumes "sendable T user" and "ProcessFloorReleaseLocked tr msg req user s = Some t"
  shows "within T s t"
  using assms by (auto simp: ProcessFloorReleaseLocked_def Let_def sendable_def intro!: within_reply within_post
      split: option.splits if_splits)

lemma within_FloorQuery:
  assumes "user_in (T k) user"
  shows "within T s (ProcessFloorQueryLocked tr msg req k user s)"
proof -
  let ?u = "fold AddQueriedFloorId req (ResetQueriedFloorIds user)"
  note s = user_in_sendable [of T k, OF assms]
  have "within T t (query_reply tr msg ?u x t)" for x t
    using s within_quiet(2) by (auto simp: query_reply_def case_prod_beta intro!: within_post(10))
  then have "within T s (fold (query_reply tr msg ?u) xs (set_user k ?u s))" for xs
    using assms by (intro within_trans [OF within_set_user within_fold]) simp_all
  then show ?thesis
    using assms s by (auto simp: ProcessFloorQueryLocked_def Let_def intro!: within_reply within_post) (simp_all add: sendable_def)
qed

lemma within_Hello: "sendable T user \<Longrightarrow> within T s (ProcessHelloLocked tr msg user s)"
  unfolding ProcessHelloLocked_def Let_def case_prod_beta by (intro within_post within_if within_refl)

lemma within_Goodbye: "sendable T user \<Longrightarrow> within T s (ProcessGoodbyeLocked tr msg user s)"
  unfolding ProcessGoodbyeLocked_def Let_def by (intro within_trans [OF _ within_RemoveUser] within_post within_refl)

lemma within_dispatch:
  assumes "user_in (T (m_userId msg)) user" and "t \<in> T k" and "dispatch_primitive tr msg t user s = Some s'"
  shows "within T s s'"
  using assms user_in_sendable [of T, OF assms(1)] by (auto simp: dispatch_primitive_def Let_def within_FloorRequest within_FloorQuery within_Hello within_Goodbye
      intro!: within_reply intro: within_FloorRelease split: BFCPBody.splits if_splits)

lemma within_MessageReceived:
  assumes "t \<in> T (m_userId msg)" and "MessageReceived tr msg t s = Some s'"
  shows "within T s s'"
proof (rule withinI)
  assume s: "settled T s"
  from MessageReceived_split [OF assms(2)] show "within T s s'"
  proof (elim disjE exE conjE)
    fix user v s0 s1
    assume s0: "s0 = (if u_transport user \<noteq> Some t then AttachTransportLocked tr (m_userId msg) t s else s)"
      and v: "om_find (m_userId msg) (s_users s0) = Some v"
      and d: "dispatch_primitive tr msg t v s0 = Some s1" and s': "s' = Fire s1"
    have w: "within T s s0" by (simp add: s0 within_Attach assms(1))
    with s have "user_in (T (m_userId msg)) v" using v settled_user [of T s0 "m_userId msg" v] by (simp add: within_def GetUserLocked_def)
    from within_dispatch [of T, OF this assms(1) d] w show ?thesis
      unfolding s' by (intro within_post(6)) (rule within_trans)
  qed (use assms(1) in \<open>auto intro: within_reply\<close>)
qed

lemma within_TransportClosed: "within T s (TransportClosed tr t s)"
  by (auto simp: TransportClosed_def intro!: within_post(6) within_Detach split: list.split)

text \<open>The calls of the owner of the conference.\<close>

datatype chair_call =
    CallAddUser int
  | CallRemoveUser int
  | CallSetChair int
  | CallAddFloor int
  | CallGrant int
  | CallDeny int "byte list"
  | CallRevoke int "byte list"
  | CallNotify int int
  | CallEnd

fun chair :: "transports \<Rightarrow> chair_call \<Rightarrow> server \<Rightarrow> server" where
  "chair tr (CallAddUser k) s = snd (AddUser k s)"
| "chair tr (CallRemoveUser k) s = snd (RemoveUser tr k s)"
| "chair tr (CallSetChair k) s = snd (SetChair k s)"
| "chair tr (CallAddFloor f) s = snd (AddFloor f s)"
| "chair tr (CallGrant i) s = snd (GrantFloorRequest tr i s)"
| "chair tr (CallDeny i info) s = snd (DenyFloorRequest tr i info s)"
| "chair tr (CallRevoke i info) s = snd (RevokeFloorRequest tr i info s)"
| "chair tr (CallNotify k f) s = snd (NotifyFloorStatus tr k f s)"
| "chair tr CallEnd s = End tr s"

lemma chair_step: "call_step tr s (chair tr c s)"
  by (cases c) (simp_all add: call_step.intros(9) call_step.intros(1-8) [OF prod.collapse [symmetric]])

lemma within_End: "within T s (End tr s)"
proof (rule withinI)
  assume s: "settled T s"
  let ?s1 = "fold (end_request tr (str ''conference ended'')) (om_keys (s_floorRequests s)) (s\<lparr>s_ending := True\<rparr>)"
  have "within T s (s\<lparr>s_ending := True\<rparr>)" by (rule within_same) simp_all
  then have "within T s ?s1" by (rule within_trans) (simp add: within_fold within_end_request)
  then have "within T s (?s1\<lparr>s_floorRequests := []\<rparr>)" by (rule within_trans) (rule within_same, simp_all)
  moreover have "within T t (end_user tr x t)" if "x \<in> set (s_users s)" for x t
  proof -
    have "sendable T (snd x)"
      using s that user_in_sendable [of T "fst x" "snd x"] by (simp add: settled_def)
    then show ?thesis
      unfolding end_user_def case_prod_beta [of _ x] Let_def by (intro within_Close within_if within_goodbye within_refl)
  qed
  ultimately have "within T s (fold (end_user tr) (s_users s) (?s1\<lparr>s_floorRequests := []\<rparr>))"
    by (intro within_trans [OF _ within_fold]) simp_all
  then have "within T s (fold (end_user tr) (s_users s) (?s1\<lparr>s_floorRequests := []\<rparr>)\<lparr>s_users := []\<rparr>)"
    by (rule within_trans) (simp add: within_def settled_def)
  then show "within T s (End tr s)"
    by (simp add: End_def Let_def within_post)
qed

lemma within_SetChair: "within T s (snd (SetChair k s))"
proof (rule withinI)
  assume s: "settled T s"
  have "within T s (s\<lparr>s_users := om_map (\<lambda>u. u\<lparr>u_isChair := False\<rparr>) (s_users s)\<rparr>)"
    by (auto simp: within_def settled_def om_map_def)
  with settled_user [OF s] show "within T s (snd (SetChair k s))"
    by (auto simp: SetChair_def Let_def intro!: within_post split: option.split)
qed

lemma within_chair: "within T s (chair tr c s)"
proof (cases c)
  case (CallNotify k f)
  have "within T s (snd (NotifyFloorStatus tr k f s))"
    by (rule withinI) (auto simp: NotifyFloorStatus_def case_prod_beta intro!: within_post settled_sendable split: option.split)
  with CallNotify show ?thesis by simp
next
  case (CallAddFloor f)
  have "within T s (snd (AddFloor f s))" by (auto simp: AddFloor_def intro!: within_same)
  with CallAddFloor show ?thesis by simp
qed (auto simp: AddUser_def RemoveUser_def GrantFloorRequest_def DenyFloorRequest_def RevokeFloorRequest_def case_prod_beta
    within_End within_SetChair within_RemoveUser within_Grant within_Deny within_Revoke intro!: within_set_user within_post(6))

section \<open>Detaching\<close>

text \<open>No two users are attached to the same transport.\<close>

definition unshared :: "server \<Rightarrow> bool" where
  "unshared s \<longleftrightarrow> (\<forall>k u k' u' t. GetUserLocked k s = Some u \<and> GetUserLocked k' s = Some u'
     \<and> u_transport u = Some t \<and> u_transport u' = Some t \<longrightarrow> k = k')"

lemma listed_user: "server_inv s \<Longrightarrow> (k, u) \<in> set (s_users s) \<longleftrightarrow> GetUserLocked k s = Some u"
  by (simp add: GetUserLocked_def server_inv_def good_def consistent_def om_in_iff)

lemma TransportClosed_users:
  assumes "server_inv s" and "unshared s"
  shows "map_option u_transport (GetUserLocked k (TransportClosed tr t s)) =
    map_option (\<lambda>u. if u_transport u = Some t then None else u_transport u) (GetUserLocked k s)"
proof (cases "filter (\<lambda>(_, user). u_transport user = Some t) (s_users s)")
  case Nil
  then have "u_transport u \<noteq> Some t" if "GetUserLocked k s = Some u" for k u
    using that listed_user [OF assms(1)] by (auto simp: filter_empty_conv)
  with Nil show ?thesis
    by (cases "GetUserLocked k s") (simp_all add: TransportClosed_def)
next
  case (Cons x rest)
  obtain userId user where x: "x = (userId, user)" by (cases x)
  have "x \<in> set (filter (\<lambda>(_, user). u_transport user = Some t) (s_users s))" by (simp add: Cons)
  then have u: "GetUserLocked userId s = Some user" "u_transport user = Some t"
    using listed_user [OF assms(1)] by (auto simp: x)
  have e: "\<not> s_ending s" using assms(1) u(1) by (auto simp: server_inv_def GetUserLocked_def)
  have tc: "TransportClosed tr t s = Fire (RevokeUserFloorRequestsLocked tr userId
      (set_user userId (ResetQueriedFloorIds (user\<lparr>u_transport := None\<rparr>)) s))"
    using e u by (simp add: TransportClosed_def Cons x DetachTransportLocked_def Let_def)
  have f: "GetUserLocked k (TransportClosed tr t s) =
      (if k = userId then Some (ResetQueriedFloorIds (user\<lparr>u_transport := None\<rparr>)) else GetUserLocked k s)"
    by (simp add: tc Fire_def GetUserLocked_def set_user_def omap_simps)
  have "k = userId" if "GetUserLocked k s = Some v" "u_transport v = Some t" for v
    using assms(2) u that unfolding unshared_def by blast
  then show ?thesis
    using u by (cases "GetUserLocked k s") (auto simp: f ResetQueriedFloorIds_def)
qed

end
