(* ===== verification/BfcpConference.thy ===== *)
theory BfcpConference
  imports BfcpTcp BfcpUdp BfcpTargets
begin

text \<open>
  The floor control server and its transports together: \<open>BFCPTcpConnection\<close> and \<open>BFCPUdpEndpoint\<close> from
  the side of the reactor, and \<open>BFCPTcpListener\<close>, which owns the connections.

  The state holds the server, the connections of the listener and the endpoints, each under the
  number that stands for its address (\<open>BFCPTransport*\<close>). A call of the server returns the calls it
  makes on transports in \<open>s_sent\<close>; \<open>perform\<close> carries one of them out. A call on a number that no
  connection and no endpoint has is a call on a destroyed object, and the whole operation is then
  \<open>None\<close>.
\<close>

section \<open>State\<close>

record conference =
  cf_server :: server
  cf_tcp :: "(tid \<times> BFCPTcpConnection) list"
  cf_udp :: "(tid \<times> BFCPUdpEndpoint) list"
  cf_fd :: int
  cf_port :: "16 word"
  cf_endpoints :: "(int \<times> tid) list"
  cf_reactor :: "tid list"
  cf_next :: tid

fun at_key :: "'k \<Rightarrow> ('v \<Rightarrow> 'v) \<Rightarrow> ('k \<times> 'v) list \<Rightarrow> ('k \<times> 'v) list" where
  "at_key k f [] = []"
| "at_key k f ((x, v) # m) = (if x = k then (x, f v) # m else (x, v) # at_key k f m)"

definition on_conn :: "tid \<Rightarrow> (BFCPTcpConnection \<Rightarrow> BFCPTcpConnection) \<Rightarrow> conference \<Rightarrow> conference" where
  "on_conn t f w = w\<lparr>cf_tcp := at_key t f (cf_tcp w)\<rparr>"

definition on_end :: "tid \<Rightarrow> (BFCPUdpEndpoint \<Rightarrow> BFCPUdpEndpoint) \<Rightarrow> conference \<Rightarrow> conference" where
  "on_end t f w = w\<lparr>cf_udp := at_key t f (cf_udp w)\<rparr>"

text \<open>The virtual methods of \<open>BFCPTransport\<close>, as the server sees them.\<close>

definition transports_of :: "medkit \<Rightarrow> int \<Rightarrow> conference \<Rightarrow> transports" where
  "transports_of io now w =
    \<lparr>tr_IsReliable = (\<lambda>t. map_of (cf_tcp w) t \<noteq> None),
     tr_Send = (\<lambda>t msg. case map_of (cf_tcp w) t of
         Some c \<Rightarrow> fst (Tcp_Send io msg c)
       | None \<Rightarrow> (case map_of (cf_udp w) t of Some e \<Rightarrow> fst (Udp_Send io now msg e) | None \<Rightarrow> False))\<rparr>"

definition exists_transport :: "conference \<Rightarrow> tid \<Rightarrow> bool" where
  "exists_transport w t \<longleftrightarrow> map_of (cf_tcp w) t \<noteq> None \<or> map_of (cf_udp w) t \<noteq> None"

fun perform :: "medkit \<Rightarrow> int \<Rightarrow> effect \<Rightarrow> conference \<Rightarrow> conference option" where
  "perform io now (SentTo t msg) w =
    (if map_of (cf_tcp w) t \<noteq> None then Some (on_conn t (\<lambda>c. snd (Tcp_Send io msg c)) w)
     else if map_of (cf_udp w) t \<noteq> None then Some (on_end t (\<lambda>e. snd (Udp_Send io now msg e)) w)
     else None)"
| "perform io now (Closed t) w =
    (if map_of (cf_tcp w) t \<noteq> None then Some (on_conn t Tcp_Close w)
     else if map_of (cf_udp w) t \<noteq> None then Some (on_end t Udp_Close w)
     else None)"

text \<open>The server has come to the state \<open>s\<close>; its calls on the transports, in their order.\<close>

definition carry_out :: "medkit \<Rightarrow> int \<Rightarrow> server \<Rightarrow> conference \<Rightarrow> conference option" where
  "carry_out io now s w =
    foldM (perform io now) (drop (length (s_sent (cf_server w))) (s_sent s)) (w\<lparr>cf_server := s\<rparr>)"

definition tell_closed :: "medkit \<Rightarrow> int \<Rightarrow> tid \<Rightarrow> conference \<Rightarrow> conference option" where
  "tell_closed io now t w = carry_out io now (TransportClosed (transports_of io now w) t (cf_server w)) w"

definition hand_up :: "medkit \<Rightarrow> int \<Rightarrow> BFCPMessage \<Rightarrow> tid \<Rightarrow> conference \<Rightarrow> conference option" where
  "hand_up io now msg t w =
    (case MessageReceived (transports_of io now w) msg t (cf_server w) of
       None \<Rightarrow> None
     | Some s \<Rightarrow> carry_out io now s w)"

section \<open>What the calls of the server leave alone\<close>

lemma map_of_at_key [simp]:
  "map_of (at_key k f m) x = (if x = k then map_option f (map_of m k) else map_of m x)"
  by (induction k f m rule: at_key.induct) auto

lemma at_key_at_key: "at_key k f (at_key k g m) = at_key k (f \<circ> g) m"
  by (induction k g m rule: at_key.induct) auto

lemma at_key_swap: "j \<noteq> k \<Longrightarrow> at_key j f (at_key k g m) = at_key k g (at_key j f m)"
  by (induction k g m rule: at_key.induct) auto

lemma at_key_cong: "map_of m k = Some v \<Longrightarrow> f v = g v \<Longrightarrow> at_key k f m = at_key k g m"
  by (induction k g m rule: at_key.induct) (auto split: if_splits)

lemma at_key_id: "map_of m k = Some v \<Longrightarrow> f v = v \<Longrightarrow> at_key k f m = m"
  by (induction k f m rule: at_key.induct) (auto split: if_splits)

lemma at_key_none: "map_of m k = None \<Longrightarrow> at_key k f m = m"
  by (induction k f m rule: at_key.induct) (auto split: if_splits)

lemma on_conn_simps [simp]:
  "cf_server (on_conn t f w) = cf_server w" "cf_udp (on_conn t f w) = cf_udp w"
  "cf_tcp (on_conn t f w) = at_key t f (cf_tcp w)" "cf_server (on_end t g w) = cf_server w"
  "cf_tcp (on_end t g w) = cf_tcp w" "cf_udp (on_end t g w) = at_key t g (cf_udp w)"
  "(on_conn t f w)\<lparr>cf_server := s\<rparr> = on_conn t f (w\<lparr>cf_server := s\<rparr>)"
  "on_conn t f (on_end u g w) = on_end u g (on_conn t f w)"
  by (simp_all add: on_conn_def on_end_def)

text \<open>A change of the input buffer commutes with everything that does not read it.\<close>

lemma in_wire: "c_in_update f (c\<lparr>c_wire := x\<rparr>) = (c_in_update f c)\<lparr>c_wire := x\<rparr>"
  by (cases c) simp

lemma send_loop_in:
  "send_loop rs data (c_in_update f c) = (case send_loop rs data c of (ok, rest, c) \<Rightarrow> (ok, rest, c_in_update f c))"
  by (induction rs data c rule: send_loop.induct) (auto simp: Finish_def Wake_def in_wire split: io_result.split)

lemma Tcp_Send_in: "Tcp_Send io msg (c_in_update f c) = (case Tcp_Send io msg c of (ok, c) \<Rightarrow> (ok, c_in_update f c))"
  by (auto simp: Tcp_Send_def SendLocked_def send_loop_in queue_rest_def Wake_def split: option.split prod.split)

lemma Tcp_Close_in: "Tcp_Close (c_in_update f c) = c_in_update f (Tcp_Close c)"
  by (simp add: Tcp_Close_def Finish_def Wake_def)

lemma transports_of_in [simp]: "transports_of io now (on_conn t (c_in_update f) w) = transports_of io now w"
  by (auto simp: transports_of_def fun_eq_iff Tcp_Send_in split: option.split prod.split)

lemma on_conn_swap:
  assumes "\<And>c. g (f c) = f (g c)"
  shows "on_conn u g (on_conn t f w) = on_conn t f (on_conn u g w)"
  using assms by (cases "u = t") (auto simp: on_conn_def at_key_at_key comp_def at_key_swap)

lemma perform_in:
  "perform io now e (on_conn t (c_in_update f) w) = map_option (on_conn t (c_in_update f)) (perform io now e w)"
  by (cases e) (auto simp: on_conn_swap Tcp_Send_in Tcp_Close_in case_prod_beta)

lemma foldM_map_option:
  assumes "\<And>x s. f x (g s) = map_option g (f x s)"
  shows "foldM f xs (g s) = map_option g (foldM f xs s)"
  by (induction xs arbitrary: s) (auto simp: assms split: option.split)

lemma carry_out_in:
  "carry_out io now s (on_conn t (c_in_update f) w) = map_option (on_conn t (c_in_update f)) (carry_out io now s w)"
  by (simp add: carry_out_def foldM_map_option perform_in)

lemma tell_closed_in:
  "tell_closed io now u (on_conn t (c_in_update f) w) = map_option (on_conn t (c_in_update f)) (tell_closed io now u w)"
  by (simp add: tell_closed_def carry_out_in)

lemma hand_up_in:
  "hand_up io now msg u (on_conn t (c_in_update f) w) = map_option (on_conn t (c_in_update f)) (hand_up io now msg u w)"
  by (simp add: hand_up_def carry_out_in split: option.split)

lemma send_loop_keeps: "send_loop rs data c = (ok, rest, c') \<Longrightarrow> c_in c' = c_in c \<and> (c_finished c \<longrightarrow> c_finished c')"
  by (induction rs data c rule: send_loop.induct)
    (auto simp: Finish_def Wake_def split: io_result.splits if_splits)

lemma Tcp_Send_keeps: "c_in (snd (Tcp_Send io msg c)) = c_in c" "c_finished c \<Longrightarrow> c_finished (snd (Tcp_Send io msg c))"
  by (auto simp: Tcp_Send_def SendLocked_def queue_rest_def Wake_def dest: send_loop_keeps split: option.split prod.split)

lemma Tcp_Close_keeps: "c_in (Tcp_Close c) = c_in c" "c_finished (Tcp_Close c)"
  by (auto simp: Tcp_Close_def Finish_def Wake_def)

text \<open>What the input side of the connection \<open>t\<close> is: its buffer, and whether it is finished for good.\<close>

definition calmer :: "tid \<Rightarrow> conference \<Rightarrow> conference \<Rightarrow> bool" where
  "calmer t w w' \<longleftrightarrow> (case map_of (cf_tcp w) t of
      None \<Rightarrow> map_of (cf_tcp w') t = None
    | Some c \<Rightarrow> \<exists>c'. map_of (cf_tcp w') t = Some c' \<and> c_in c' = c_in c \<and> (c_finished c \<longrightarrow> c_finished c'))"

lemma calmer_trans: "calmer t u v \<Longrightarrow> calmer t v w \<Longrightarrow> calmer t u w"
  by (auto simp: calmer_def split: option.splits)

lemma calmer_perform: "perform io now e w = Some w' \<Longrightarrow> calmer t w w'"
  by (cases e) (auto simp: calmer_def Tcp_Send_keeps Tcp_Close_keeps split: if_splits option.splits)

lemma calmer_carry_out: 
  assumes "carry_out io now s w = Some w'"
  shows "calmer t w w'"
proof -
  have "calmer t w (w\<lparr>cf_server := s\<rparr>)" by (simp add: calmer_def split: option.split)
  with assms show ?thesis
    unfolding carry_out_def by (rule foldM_inv) (auto intro: calmer_trans calmer_perform)
qed

lemma calmer_calls:
  "tell_closed io now u w = Some w' \<Longrightarrow> calmer t w w'"
  "hand_up io now msg u w = Some w' \<Longrightarrow> calmer t w w'"
  by (auto simp: tell_closed_def hand_up_def intro: calmer_carry_out split: option.splits)

section \<open>A readable connection\<close>

lemma next_frame_shorter:
  assumes "next_frame io c = (Frame message, c')"
  shows "c_in c = message @ c_in c' \<and> message \<noteq> [] \<and> c' = c\<lparr>c_in := c_in c'\<rparr> \<and> \<not> c_finished c"
  using assms by (auto simp: next_frame_def Let_def MsgHeaderLen_def split: if_splits)

function deliver :: "medkit \<Rightarrow> int \<Rightarrow> tid \<Rightarrow> conference \<Rightarrow> conference option" where
  "deliver io now t w =
    (case map_of (cf_tcp w) t of
       None \<Rightarrow> Some w
     | Some c \<Rightarrow>
         (case next_frame io c of (found, c) \<Rightarrow>
           (case found of
              NoFrame \<Rightarrow> Some (on_conn t (\<lambda>_. c) w)
            | TooLong \<Rightarrow> tell_closed io now t (on_conn t (\<lambda>_. c) w)
            | Frame message \<Rightarrow>
                (case BFCPMessage_Parse io message of
                   None \<Rightarrow> tell_closed io now t (on_conn t (\<lambda>_. Finish c) w)
                 | Some msg \<Rightarrow>
                     (case hand_up io now msg t (on_conn t (\<lambda>_. c) w) of
                        None \<Rightarrow> None
                      | Some w \<Rightarrow> deliver io now t w)))))"
  by pat_completeness auto

termination
proof (relation "measure (\<lambda>(io, now, t, w). case map_of (cf_tcp w) t of None \<Rightarrow> 0 | Some c \<Rightarrow> length (c_in c))")
  fix io now t w c found c' message msg w'
  assume *: "map_of (cf_tcp w) t = Some c" "(found, c') = next_frame io c" "found = Frame message"
    and h: "hand_up io now msg t (on_conn t (\<lambda>_. c') w) = Some w'"
  from * have "c_in c = message @ c_in c'" "message \<noteq> []"
    using next_frame_shorter [of io c message c'] by auto
  then show "((io, now, t, w'), io, now, t, w) \<in> measure (\<lambda>(io, now, t, w). case map_of (cf_tcp w) t of None \<Rightarrow> 0 | Some c \<Rightarrow> length (c_in c))"
    using *(1) calmer_calls(2) [OF h, of t] by (auto simp: calmer_def)
qed simp

declare deliver.simps [simp del]

definition Tcp_OnReadable :: "medkit \<Rightarrow> int \<Rightarrow> tid \<Rightarrow> recv_result list \<Rightarrow> conference \<Rightarrow> conference option" where
  "Tcp_OnReadable io now t rs w =
    (case map_of (cf_tcp w) t of
       None \<Rightarrow> Some w
     | Some c \<Rightarrow>
         (case drain rs c of (ok, c) \<Rightarrow>
            if ok then deliver io now t (on_conn t (\<lambda>_. c) w)
            else tell_closed io now t (on_conn t (\<lambda>_. c) w)))"

definition Tcp_OnPollError :: "medkit \<Rightarrow> int \<Rightarrow> tid \<Rightarrow> conference \<Rightarrow> conference option" where
  "Tcp_OnPollError io now t w = tell_closed io now t (on_conn t Finish w)"

section \<open>An endpoint\<close>

text \<open>One turn of the loop of \<open>OnReadable\<close>, with \<open>Dispatch\<close>; on a finished endpoint the loop returns.\<close>

definition Udp_OnDatagram :: "medkit \<Rightarrow> int \<Rightarrow> tid \<Rightarrow> IPEndpoint \<times> byte list \<Rightarrow> conference \<Rightarrow> conference option" where
  "Udp_OnDatagram io now t = (\<lambda>(from, data) w.
     case map_of (cf_udp w) t of
       None \<Rightarrow> Some w
     | Some e \<Rightarrow>
         (case Udp_receive from e of
            None \<Rightarrow> Some w
          | Some (ours, e) \<Rightarrow>
              if \<not> ours then Some (on_end t (\<lambda>_. e) w)
              else (case Udp_Dispatch io (take MaxDatagramLen data) e of
                      (None, e) \<Rightarrow> Some (on_end t (\<lambda>_. e) w)
                    | (Some msg, e) \<Rightarrow> hand_up io now msg t (on_end t (\<lambda>_. e) w))))"

definition Udp_OnReadable :: "medkit \<Rightarrow> int \<Rightarrow> tid \<Rightarrow> (IPEndpoint \<times> byte list) list \<Rightarrow> conference \<Rightarrow> conference option" where
  "Udp_OnReadable io now t datagrams w = foldM (Udp_OnDatagram io now t) datagrams w"

definition Udp_Periodic :: "medkit \<Rightarrow> int \<Rightarrow> tid \<Rightarrow> conference \<Rightarrow> conference option" where
  "Udp_Periodic io now t w =
    (case map_of (cf_udp w) t of
       None \<Rightarrow> Some w
     | Some e \<Rightarrow>
         (case Udp_OnPeriodic now e of (givenUp, e) \<Rightarrow>
            if givenUp then tell_closed io now t (on_end t (\<lambda>_. e) w) else Some (on_end t (\<lambda>_. e) w)))"

definition Udp_OnPollError :: "medkit \<Rightarrow> int \<Rightarrow> tid \<Rightarrow> conference \<Rightarrow> conference option" where
  "Udp_OnPollError io now t w = tell_closed io now t (on_end t Udp_Finish w)"

section \<open>The listener\<close>

text \<open>
  \<open>sys\<close> is what the system calls gave: \<open>None\<close> when \<open>socket\<close>, \<open>bind\<close> or \<open>listen\<close> failed, otherwise the
  descriptor and the port \<open>getsockname\<close> reported, if it did.
\<close>

definition Listener_Open :: "(int \<times> 16 word option) option \<Rightarrow> 16 word \<Rightarrow> conference \<Rightarrow> 16 word \<times> conference" where
  "Listener_Open sys port w =
    (if cf_fd w \<noteq> FD_INVALID then (0, w)
     else case sys of
       None \<Rightarrow> (0, w)
     | Some (fd, bound) \<Rightarrow>
         let p = (case bound of Some p \<Rightarrow> p | None \<Rightarrow> port) in (p, w\<lparr>cf_fd := fd, cf_port := p\<rparr>))"

definition Listener_GetPollFds :: "int \<Rightarrow> conference \<Rightarrow> pollfd list" where
  "Listener_GetPollFds mx w =
    (if mx < 1 \<or> cf_fd w = FD_INVALID then [] else [\<lparr>pf_fd = cf_fd w, pf_in = True, pf_out = False\<rparr>])"

definition GetConnectionCount :: "conference \<Rightarrow> nat" where
  "GetConnectionCount w = length (cf_tcp w)"

text \<open>\<open>clients\<close>: the descriptors \<open>accept\<close> returns before \<open>EAGAIN\<close>, each with the answers its socket will give.\<close>

definition accept_one :: "int \<times> io_result list \<Rightarrow> conference \<Rightarrow> conference" where
  "accept_one = (\<lambda>(client, sock) w.
     w\<lparr>cf_tcp := cf_tcp w @ [(cf_next w, BFCPTcpConnection_new client sock)],
       cf_reactor := cf_reactor w @ [cf_next w], cf_next := cf_next w + 1\<rparr>)"

definition Accept :: "(int \<times> io_result list) list \<Rightarrow> conference \<Rightarrow> conference" where
  "Accept clients w = fold accept_one clients w"

text \<open>The server lets go of a connection, then the reactor.\<close>

definition let_go :: "medkit \<Rightarrow> int \<Rightarrow> tid \<Rightarrow> conference \<Rightarrow> conference option" where
  "let_go io now t w =
    (case tell_closed io now t w of
       None \<Rightarrow> None
     | Some w \<Rightarrow> Some (w\<lparr>cf_reactor := removeAll t (cf_reactor w)\<rparr>))"

definition destroy :: "tid list \<Rightarrow> conference \<Rightarrow> conference" where
  "destroy doomed w = w\<lparr>cf_tcp := filter (\<lambda>(t, _). t \<notin> set doomed) (cf_tcp w)\<rparr>"

text \<open>
  The doomed connections leave the vector of the listener first, but live until the end of the
  function: the calls of the server still find them.
\<close>

definition Reap :: "medkit \<Rightarrow> int \<Rightarrow> conference \<Rightarrow> conference option" where
  "Reap io now w =
    (let doomed = map fst (filter (\<lambda>(_, c). c_finished c) (cf_tcp w))
     in map_option (destroy doomed) (foldM (let_go io now) doomed w))"

definition Listener_Close :: "medkit \<Rightarrow> int \<Rightarrow> conference \<Rightarrow> conference option" where
  "Listener_Close io now w =
    (if cf_fd w = FD_INVALID then Some w
     else let doomed = map fst (cf_tcp w)
          in map_option (\<lambda>w. (destroy doomed w)\<lparr>cf_fd := FD_INVALID, cf_port := 0\<rparr>) (foldM (let_go io now) doomed w))"

section \<open>The owner\<close>

text \<open>
  The part of \<open>SharedDocMixer\<close> that owns the server, the listener and the endpoints. \<open>FloorId\<close> is the
  one floor of a conference. A listener or an endpoint whose \<open>Open\<close> returns 0 is destroyed at once.
\<close>

definition TheFloorId :: int where
  "TheFloorId = 1"

datatype sharing_mode = BFCP_TCP | BFCP_UDP | NONE

definition conference_new :: "int \<Rightarrow> conference" where
  "conference_new confId =
    \<lparr>cf_server = snd (AddFloor TheFloorId (BFCPFloorControlServer_new confId)), cf_tcp = [], cf_udp = [],
     cf_fd = FD_INVALID, cf_port = 0, cf_endpoints = [], cf_reactor = [], cf_next = 0\<rparr>"

definition StartBfcpServer ::
  "int \<Rightarrow> sharing_mode \<Rightarrow> (int \<times> 16 word option) option \<Rightarrow> bool list \<Rightarrow> conference \<Rightarrow> bool \<times> conference" where
  "StartBfcpServer partId mode sys sock w =
    (let w = w\<lparr>cf_server := snd (AddUser partId (cf_server w))\<rparr> in
     case mode of
       BFCP_TCP \<Rightarrow>
         if cf_fd w \<noteq> FD_INVALID then (True, w)
         else (case Listener_Open sys 0 w of (port, w') \<Rightarrow> if port = 0 then (False, w) else (True, w'))
     | BFCP_UDP \<Rightarrow>
         if om_find partId (cf_endpoints w) \<noteq> None then (True, w)
         else (case Udp_Open sys 0 (BFCPUdpEndpoint_new partId sock) of (port, e) \<Rightarrow>
                 if port = 0 then (False, w)
                 else (True, w\<lparr>cf_udp := cf_udp w @ [(cf_next w, e)], cf_endpoints := om_put partId (cf_next w) (cf_endpoints w),
                         cf_reactor := cf_reactor w @ [cf_next w], cf_next := cf_next w + 1\<rparr>))
     | NONE \<Rightarrow> (False, w))"

definition erase_endpoint :: "int \<Rightarrow> conference \<Rightarrow> conference" where
  "erase_endpoint partId w =
    (case om_find partId (cf_endpoints w) of
       None \<Rightarrow> w
     | Some t \<Rightarrow> w\<lparr>cf_udp := filter (\<lambda>(k, _). k \<noteq> t) (cf_udp w), cf_endpoints := om_erase partId (cf_endpoints w),
         cf_reactor := removeAll t (cf_reactor w)\<rparr>)"

definition removeParticipant :: "medkit \<Rightarrow> int \<Rightarrow> int \<Rightarrow> conference \<Rightarrow> conference option" where
  "removeParticipant io now partId w =
    map_option (erase_endpoint partId)
      (carry_out io now (snd (RemoveUser (transports_of io now w) partId (cf_server w))) w)"

definition clear_endpoints :: "conference \<Rightarrow> conference" where
  "clear_endpoints w = w\<lparr>cf_udp := [], cf_endpoints := [],
     cf_reactor := filter (\<lambda>t. t \<notin> fst ` set (cf_udp w)) (cf_reactor w)\<rparr>"

definition StopBfcpServer :: "medkit \<Rightarrow> int \<Rightarrow> conference \<Rightarrow> conference option" where
  "StopBfcpServer io now w =
    (case Listener_Close io now w of
       None \<Rightarrow> None
     | Some w \<Rightarrow>
         let w = clear_endpoints w
         in carry_out io now (End (transports_of io now w) (cf_server w)) w)"

definition getServerPort :: "sharing_mode \<Rightarrow> int \<Rightarrow> conference \<Rightarrow> 16 word" where
  "getServerPort mode partId w =
    (case mode of
       BFCP_TCP \<Rightarrow> if cf_fd w \<noteq> FD_INVALID then cf_port w else 0
     | BFCP_UDP \<Rightarrow>
         (case om_find partId (cf_endpoints w) of
            None \<Rightarrow> 0
          | Some t \<Rightarrow> (case map_of (cf_udp w) t of None \<Rightarrow> 0 | Some e \<Rightarrow> e_port e))
     | NONE \<Rightarrow> 0)"

section \<open>Where the stream is cut does not matter\<close>

lemma get2_more: "i + 1 < length d \<Longrightarrow> get2 io (d @ y) i = get2 io d i"
  by (simp add: get2_def nth_append)

lemma next_frame_more:
  assumes "next_frame io c = (f, c')" and "f \<noteq> NoFrame"
  shows "next_frame io (c_in_update (\<lambda>i. i @ y) c) = (f, c_in_update (\<lambda>i. i @ y) c')"
  using assms get2_more [of 2 "c_in c" io y]
  by (auto simp: next_frame_def Let_def Finish_def Wake_def MsgHeaderLen_def split: if_splits)

lemma on_conn_cong:
  assumes "map_of (cf_tcp w) t = Some c"
  shows "f c = g c \<Longrightarrow> on_conn t f w = on_conn t g w" "f c = c \<Longrightarrow> on_conn t f w = w"
  using at_key_cong [OF assms, of f g] at_key_id [OF assms, of f] by (auto simp: on_conn_def)

lemma on_conn_on_conn: "on_conn t f (on_conn t g w) = on_conn t (f \<circ> g) w"
  by (simp add: on_conn_def at_key_at_key)

text \<open>The cases of \<open>deliver\<close>, for a connection that exists.\<close>

lemma deliver_cases:
  assumes "map_of (cf_tcp w) t = Some c"
  shows "fst (next_frame io c) = NoFrame \<Longrightarrow> deliver io now t w = Some w"
    "fst (next_frame io c) = TooLong \<Longrightarrow> deliver io now t w = tell_closed io now t (on_conn t Finish w)"
    "next_frame io c = (Frame message, c') \<Longrightarrow> deliver io now t w =
      (case BFCPMessage_Parse io message of
         None \<Rightarrow> tell_closed io now t (on_conn t (\<lambda>c. Finish (c\<lparr>c_in := c_in c'\<rparr>)) w)
       | Some msg \<Rightarrow> (case hand_up io now msg t (on_conn t (\<lambda>c. c\<lparr>c_in := c_in c'\<rparr>) w) of
           None \<Rightarrow> None | Some w \<Rightarrow> deliver io now t w))"
proof -
  show "deliver io now t w = Some w" if "fst (next_frame io c) = NoFrame"
  proof -
    from that have "next_frame io c = (NoFrame, c)"
      by (auto simp: next_frame_def Let_def split: if_splits)
    then show ?thesis
      using assms by (simp add: deliver.simps [of io now t w] on_conn_cong(2))
  qed
  show "deliver io now t w = tell_closed io now t (on_conn t Finish w)" if "fst (next_frame io c) = TooLong"
  proof -
    from that have "next_frame io c = (TooLong, Finish c)"
      by (auto simp: next_frame_def Let_def split: if_splits)
    then show ?thesis
      using assms on_conn_cong(1) [OF assms, of "\<lambda>_. Finish c" Finish] by (simp add: deliver.simps [of io now t w])
  qed
  assume n: "next_frame io c = (Frame message, c')"
  from next_frame_shorter [OF this] have c': "c' = c\<lparr>c_in := c_in c'\<rparr>" by simp
  have "on_conn t (\<lambda>_. c') w = on_conn t (\<lambda>c. c\<lparr>c_in := c_in c'\<rparr>) w"
    "on_conn t (\<lambda>_. Finish c') w = on_conn t (\<lambda>c. Finish (c\<lparr>c_in := c_in c'\<rparr>)) w"
    using c' by (intro on_conn_cong(1) [OF assms]; simp)+
  with n assms show "deliver io now t w = (case BFCPMessage_Parse io message of
         None \<Rightarrow> tell_closed io now t (on_conn t (\<lambda>c. Finish (c\<lparr>c_in := c_in c'\<rparr>)) w)
       | Some msg \<Rightarrow> (case hand_up io now msg t (on_conn t (\<lambda>c. c\<lparr>c_in := c_in c'\<rparr>) w) of
           None \<Rightarrow> None | Some w \<Rightarrow> deliver io now t w))"
    by (simp add: deliver.simps [of io now t w] split: option.split)
qed

lemma deliver_idle:
  "map_of (cf_tcp w) t = None \<Longrightarrow> deliver io now t w = Some w"
  "map_of (cf_tcp w) t = Some c \<Longrightarrow> c_finished c \<Longrightarrow> deliver io now t w = Some w"
  by (simp add: deliver.simps) (simp add: deliver_cases(1) next_frame_def)

definition buffered :: "tid \<Rightarrow> conference \<Rightarrow> nat" where
  "buffered t w = (case map_of (cf_tcp w) t of None \<Rightarrow> 0 | Some c \<Rightarrow> length (c_in c))"

definition receive :: "tid \<Rightarrow> byte list \<Rightarrow> conference \<Rightarrow> conference" where
  "receive t y = on_conn t (c_in_update (\<lambda>i. i @ y))"

lemma receive_receive: "receive t y (receive t x w) = receive t (x @ y) w"
  by (simp add: receive_def on_conn_on_conn comp_def)

lemma receive_after:
  assumes "\<And>c. c_in_update (\<lambda>i. i @ y) (f c) = g (c_in_update (\<lambda>i. i @ y) c)"
  shows "on_conn t g (receive t y w) = receive t y (on_conn t f w)"
  by (simp add: receive_def on_conn_on_conn comp_def assms)

lemma closed_more:
  assumes "map_of (cf_tcp w) t = Some c" and "c_finished c"
  shows "tell_closed io now t (receive t y w) =
    (case tell_closed io now t w of None \<Rightarrow> None | Some w' \<Rightarrow> deliver io now t (receive t y w'))"
proof (cases "tell_closed io now t w")
  case (Some w')
  from calmer_calls(1) [OF Some, of t] assms obtain c' where "map_of (cf_tcp w') t = Some c'" "c_finished c'"
    by (auto simp: calmer_def)
  then have "deliver io now t (receive t y w') = Some (receive t y w')"
    by (intro deliver_idle(2) [of _ _ "c_in_update (\<lambda>i. i @ y) c'"]) (simp_all add: receive_def)
  then show ?thesis
    using Some by (simp add: tell_closed_in receive_def)
qed (simp add: tell_closed_in receive_def)

lemma deliver_more_frame:
  assumes c: "map_of (cf_tcp w) t = Some c" and n: "next_frame io c = (Frame message, c')"
    and IH: "\<And>w1. buffered t w1 < buffered t w \<Longrightarrow> deliver io now t (receive t y w1) =
      (case deliver io now t w1 of None \<Rightarrow> None | Some w' \<Rightarrow> deliver io now t (receive t y w'))"
  shows "deliver io now t (receive t y w) =
    (case deliver io now t w of None \<Rightarrow> None | Some w' \<Rightarrow> deliver io now t (receive t y w'))"
proof -
  note sh = next_frame_shorter [OF n]
  have u: "map_of (cf_tcp (receive t y w)) t = Some (c_in_update (\<lambda>i. i @ y) c)" using c by (simp add: receive_def)
  note d = deliver_cases(3) [OF c n, where now = now]
    and du = deliver_cases(3) [OF u next_frame_more [OF n], where now = now, simplified]
  have r: "on_conn t (\<lambda>c. c\<lparr>c_in := c_in c' @ y\<rparr>) (receive t y w) = receive t y (on_conn t (\<lambda>c. c\<lparr>c_in := c_in c'\<rparr>) w)"
    "on_conn t (\<lambda>c. Finish (c\<lparr>c_in := c_in c' @ y\<rparr>)) (receive t y w) = receive t y (on_conn t (\<lambda>c. Finish (c\<lparr>c_in := c_in c'\<rparr>)) w)"
    by (rule receive_after; simp add: Finish_def Wake_def)+
  show ?thesis
  proof (cases "BFCPMessage_Parse io message")
    case None
    then show ?thesis
      using du d closed_more [of "on_conn t (\<lambda>c. Finish (c\<lparr>c_in := c_in c'\<rparr>)) w" t "Finish c'"] c sh by (simp add: r)
  next
    case (Some msg)
    define v where "v = on_conn t (\<lambda>c. c\<lparr>c_in := c_in c'\<rparr>) w"
    have "buffered t w1 < buffered t w" if "hand_up io now msg t v = Some w1" for w1
      using calmer_calls(2) [OF that, of t] c sh by (auto simp: calmer_def buffered_def v_def)
    moreover have "hand_up io now msg t (receive t y v) = map_option (receive t y) (hand_up io now msg t v)"
      by (simp add: receive_def hand_up_in)
    moreover have "deliver io now t (receive t y w) = (case hand_up io now msg t (receive t y v) of None \<Rightarrow> None | Some w \<Rightarrow> deliver io now t w)"
      "deliver io now t w = (case hand_up io now msg t v of None \<Rightarrow> None | Some w \<Rightarrow> deliver io now t w)"
      using du d Some by (simp_all add: r v_def [symmetric])
    ultimately show ?thesis
      using IH by (cases "hand_up io now msg t v") simp_all
  qed
qed

lemma deliver_more:
  "deliver io now t (receive t y w) =
    (case deliver io now t w of None \<Rightarrow> None | Some w' \<Rightarrow> deliver io now t (receive t y w'))"
proof (induction w rule: measure_induct_rule [of "buffered t"])
  case (less w)
  show ?case
  proof (cases "map_of (cf_tcp w) t")
    case (Some c)
    obtain f c' where n: "next_frame io c = (f, c')" by fastforce
    note d = deliver_cases [OF Some, where io = io and now = now]
    show ?thesis
    proof (cases f)
      case NoFrame
      with d(1) n show ?thesis by simp
    next
      case TooLong
      have "map_of (cf_tcp (receive t y w)) t = Some (c_in_update (\<lambda>i. i @ y) c)" using Some by (simp add: receive_def)
      then have "deliver io now t (receive t y w) = tell_closed io now t (receive t y (on_conn t Finish w))"
        using deliver_cases(2) next_frame_more [OF n, of y] TooLong receive_after [of y Finish Finish t w]
        by (simp add: Finish_def Wake_def)
      then show ?thesis
        using closed_more [of "on_conn t Finish w" t "Finish c"] d(2) n TooLong Some by (simp add: Finish_def Wake_def)
    next
      case (Frame message)
      show ?thesis
        by (rule deliver_more_frame [OF Some n [unfolded Frame] less.IH])
    qed
  qed (simp add: deliver_idle)
qed

lemma read_chunk: "x \<noteq> [] \<Longrightarrow> Tcp_OnReadable io now t [Data x] w = deliver io now t (receive t x w)"
  by (cases "map_of (cf_tcp w) t")
    (auto simp: Tcp_OnReadable_def receive_def deliver_idle on_conn_def at_key_none intro!: arg_cong [where f = "deliver io now t"]
      on_conn_cong(1) [unfolded on_conn_def])

lemma tcp_read_chunks:
  assumes "\<forall>x \<in> set cs. x \<noteq> []" and "cs \<noteq> []"
  shows "foldM (\<lambda>x. Tcp_OnReadable io now t [Data x]) cs w = deliver io now t (receive t (concat cs) w)"
  using assms(2,1)
proof (induction cs arbitrary: w rule: list_nonempty_induct)
  case (single x)
  then show ?case by (simp add: read_chunk split: option.split)
next
  case (cons x xs)
  then show ?case
    using deliver_more [of io now t "concat xs" "receive t x w"]
    by (simp add: read_chunk receive_receive split: option.split)
qed

section \<open>Reassembly\<close>

text \<open>What the server is to see of a list of messages: each of them in turn, until the connection is finished.\<close>

definition finished_at :: "tid \<Rightarrow> conference \<Rightarrow> bool" where
  "finished_at t w = (case map_of (cf_tcp w) t of None \<Rightarrow> True | Some c \<Rightarrow> c_finished c)"

definition serve :: "medkit \<Rightarrow> int \<Rightarrow> tid \<Rightarrow> BFCPMessage \<Rightarrow> conference \<Rightarrow> conference option" where
  "serve io now t msg w = (if finished_at t w then Some w else hand_up io now msg t w)"

definition clear_in :: "tid \<Rightarrow> conference \<Rightarrow> conference" where
  "clear_in t = on_conn t (c_in_update (\<lambda>_. []))"

lemma serve_in:
  "serve io now t msg (on_conn t (c_in_update f) w) = map_option (on_conn t (c_in_update f)) (serve io now t msg w)"
  by (simp add: serve_def hand_up_in finished_at_def option.case_eq_if option.map_sel)

lemma serve_all_in:
  "map_option (clear_in t) (foldM (serve io now t) msgs (on_conn t (c_in_update f) w))
    = map_option (clear_in t) (foldM (serve io now t) msgs w)"
  by (simp add: foldM_map_option serve_in clear_in_def option.map_comp comp_def on_conn_on_conn)

text \<open>\<open>stream io bs msgs\<close>: the octets of a peer that sends \<open>msgs\<close>, each within the size the connection takes.\<close>

fun stream :: "medkit \<Rightarrow> byte list list \<Rightarrow> BFCPMessage list \<Rightarrow> bool" where
  "stream io [] [] = True"
| "stream io (b # bs) (m # ms) =
    (BFCPMessage_Serialize io m MaxMessageLen (m_version m) = Some b \<and> msg_wf m \<and> IsValid (m_body m)
     \<and> (m_version m = VersionReliable \<or> m_version m = VersionUnreliable) \<and> stream io bs ms)"
| "stream io _ _ = False"

text \<open>The beginning of a message, to be continued.\<close>

definition incomplete :: "medkit \<Rightarrow> byte list \<Rightarrow> bool" where
  "incomplete io tail \<longleftrightarrow> length tail < MsgHeaderLen
     \<or> length tail < MsgHeaderLen + nat (get2 io tail 2) * 4 \<and> MsgHeaderLen + nat (get2 io tail 2) * 4 \<le> MaxMessageLen"

lemma next_frame_whole:
  assumes "medkit_octets io" and "BFCPMessage_Serialize io m MaxMessageLen v = Some b"
    and "\<not> c_finished c" and "c_in c = b @ rest"
  shows "next_frame io c = (Frame b, c\<lparr>c_in := rest\<rparr>)"
proof -
  from Serialize_length [OF assms(1,2)] have l: "length b \<le> MaxMessageLen" "int (length b) = 12 + 4 * get2 io b 2"
    by (simp_all add: MsgHeaderLen_def)
  then have g: "get2 io (b @ rest) 2 = get2 io b 2" "nat (get2 io b 2) * 4 + 12 = length b"
    using medkit_octets.get2_bounds [OF assms(1), of b 2] by (simp_all add: get2_more)
  then show ?thesis
    using assms(3,4) l by (simp add: next_frame_def MsgHeaderLen_def Let_def add.commute)
qed

lemma deliver_stream:
  assumes "medkit_octets io" and "stream io bs msgs" and "incomplete io tail"
    and "map_of (cf_tcp w) t = Some c" and "c_in c = concat bs @ tail"
  shows "map_option (clear_in t) (deliver io now t w) = map_option (clear_in t) (foldM (serve io now t) msgs w)"
  using assms(2,4,5)
proof (induction bs msgs arbitrary: w c rule: list_induct2')
  case 1
  then have "deliver io now t w = Some w"
    using assms(3) by (intro deliver_cases(1)) (auto simp: next_frame_def Let_def incomplete_def)
  then show ?case by simp
next
  case (4 b bs m ms)
  show ?case
  proof (cases "c_finished c")
    case True
    then have "foldM (serve io now t) ms w = Some w" for ms
      using 4 by (induction ms) (simp_all add: serve_def finished_at_def)
    with True 4 show ?thesis by (simp add: deliver_idle(2) del: foldM.simps)
  next
    case False
    from 4 have s: "BFCPMessage_Serialize io m MaxMessageLen (m_version m) = Some b" by simp
    note n = next_frame_whole [OF assms(1) s False, of "concat bs @ tail"]
    have p: "BFCPMessage_Parse io b = Some m"
      using medkit_octets.Parse_Serialize_lemma [OF assms(1) _ _ _ s, of "[]"] 4
      by (auto simp: VersionReliable_def VersionUnreliable_def)
    let ?set = "on_conn t (c_in_update (\<lambda>_. concat bs @ tail))"
    have d: "deliver io now t w = (case hand_up io now m t w of None \<Rightarrow> None | Some w1 \<Rightarrow> deliver io now t (?set w1))"
      using deliver_cases(3) [OF 4(3) n] 4 p by (auto simp: hand_up_in split: option.split)
    have "map_option (clear_in t) (deliver io now t (?set w1)) = map_option (clear_in t) (foldM (serve io now t) ms w1)"
      if "hand_up io now m t w = Some w1" for w1
    proof -
      from calmer_calls(2) [OF that, of t] 4(3) obtain c1 where "map_of (cf_tcp w1) t = Some c1"
        by (auto simp: calmer_def)
      with 4 show ?thesis
        by (subst 4(1) [of "?set w1" "c1\<lparr>c_in := concat bs @ tail\<rparr>"]) (simp_all add: serve_all_in)
    qed
    moreover have "serve io now t m w = hand_up io now m t w"
      using False 4(3) by (simp add: serve_def finished_at_def)
    ultimately show ?thesis
      by (simp add: d split: option.split)
  qed
qed simp_all

text \<open>
  C5. However TCP cuts the stream of a peer, the server sees the messages the peer sent, all of
  them and in their order. Take any messages that fit the buffer of the connection, followed by the
  beginning of another one, and any way to cut their octets into non-empty reads: \<open>OnReadable\<close> does
  to the conference what handing up the messages one by one does, until the connection is finished.
  Both sides are defined for the same streams, and agree on all but the octets left in the buffer.
\<close>

theorem tcp_reassembly:
  assumes "medkit_octets io" and "stream io bs msgs" and "incomplete io tail"
    and "map_of (cf_tcp w) t = Some c" and "c_in c = []"
    and "concat reads = concat bs @ tail" and "\<forall>x \<in> set reads. x \<noteq> []"
  shows "map_option (clear_in t) (foldM (\<lambda>x. Tcp_OnReadable io now t [Data x]) reads w)
    = map_option (clear_in t) (foldM (serve io now t) msgs w)"
proof -
  let ?r = "receive t (concat reads) w"
  have r: "map_of (cf_tcp ?r) t = Some (c\<lparr>c_in := concat bs @ tail\<rparr>)"
    using assms(4-6) by (simp add: receive_def)
  have *: "map_option (clear_in t) (deliver io now t ?r) = map_option (clear_in t) (foldM (serve io now t) msgs w)"
    using deliver_stream [OF assms(1-3) r, of now] serve_all_in [of t io now msgs _ w]
    by (simp add: receive_def)
  show ?thesis
  proof (cases "reads = []")
    case True
    then have "?r = w"
      using assms(4) by (simp add: receive_def on_conn_cong(2))
    moreover have "deliver io now t w = Some w"
      using deliver_cases(1) [OF assms(4), where io = io and now = now] assms(5) by (simp add: next_frame_def MsgHeaderLen_def)
    ultimately show ?thesis using * True by simp
  next
    case False
    with * assms(7) show ?thesis by (simp add: tcp_read_chunks)
  qed
qed

definition hello_message :: BFCPMessage where
  "hello_message = (BFCPMessage_new MsgHello 1 77 2)\<lparr>m_version := 2\<rparr>"

lemma hello_stream: "stream network_order [hello_octets] [hello_message]"
  by (simp add: hello_message_def hello_octets_def serialize_eval MaxMessageLen_def msg_wf_def VersionUnreliable_def)

theorem tcp_reassembly_witness:
  "map_option (clear_in 0) (foldM (\<lambda>x. Tcp_OnReadable network_order 0 0 [Data x]) [take 5 hello_octets, drop 5 hello_octets @ [64]]
     (accept_one (6, []) (conference_new 77)))
   = map_option (clear_in 0) (foldM (serve network_order 0 0) [hello_message] (accept_one (6, []) (conference_new 77)))"
  by (rule tcp_reassembly [OF net.medkit_octets_axioms hello_stream, where tail = "[64]" and c = "BFCPTcpConnection_new 6 []"])
    (simp_all add: incomplete_def MsgHeaderLen_def accept_one_def conference_new_def BFCPTcpConnection_new_def hello_octets_def)

end
