(* ===== verification/BfcpLifetime.thy ===== *)
theory BfcpLifetime
  imports BfcpConference
begin

text \<open>
  Who may call whom: no operation of a conference calls a transport that was destroyed, and the
  reactor never holds one. The invariant \<open>conf_inv\<close> says that every transport a user is attached to
  exists, that an endpoint carries only its own user, and that the reactor knows only what exists.
\<close>

section \<open>The invariant\<close>

definition allowed :: "conference \<Rightarrow> int \<Rightarrow> tid set" where
  "allowed w k = {t. map_of (cf_tcp w) t \<noteq> None \<or> map_option e_userId (map_of (cf_udp w) t) = Some k}"

definition conf_inv :: "conference \<Rightarrow> bool" where
  "conf_inv w \<longleftrightarrow> server_inv (cf_server w) \<and> settled (allowed w) (cf_server w)
     \<and> (\<forall>t. exists_transport w t \<longrightarrow> t < cf_next w)
     \<and> (\<forall>t. map_of (cf_tcp w) t = None \<or> map_of (cf_udp w) t = None)
     \<and> (\<forall>k t. om_find k (cf_endpoints w) = Some t \<longrightarrow> map_option e_userId (map_of (cf_udp w) t) = Some k)
     \<and> (\<forall>t \<in> set (cf_reactor w). exists_transport w t)"

lemma conf_invD:
  assumes "conf_inv w"
  shows "server_inv (cf_server w)" "settled (allowed w) (cf_server w)"
    "map_of (cf_tcp w) t \<noteq> None \<Longrightarrow> map_of (cf_udp w) t = None"
    "om_find k (cf_endpoints w) = Some t \<Longrightarrow> map_option e_userId (map_of (cf_udp w) t) = Some k"
    "t \<in> set (cf_reactor w) \<Longrightarrow> exists_transport w t"
  using assms unfolding conf_inv_def by (elim conjE; metis)+

lemma settledI: "(\<And>k u t. (k, u) \<in> set (s_users s) \<Longrightarrow> u_transport u = Some t \<Longrightarrow> t \<in> T k) \<Longrightarrow> settled T s"
  by (auto simp: settled_def user_in_def)

lemma settledD: "settled T s \<Longrightarrow> (k, u) \<in> set (s_users s) \<Longrightarrow> u_transport u = Some t \<Longrightarrow> t \<in> T k"
  by (force simp: settled_def user_in_def)

lemma allowed_cong: "cf_tcp w = cf_tcp v \<Longrightarrow> cf_udp w = cf_udp v \<Longrightarrow> allowed w = allowed v"
  by (simp add: allowed_def fun_eq_iff)

text \<open>The same objects, with the same owners.\<close>

definition same_objects :: "conference \<Rightarrow> conference \<Rightarrow> bool" where
  "same_objects w w' \<longleftrightarrow> map fst (cf_tcp w') = map fst (cf_tcp w)
     \<and> map (\<lambda>(t, e). (t, e_userId e)) (cf_udp w') = map (\<lambda>(t, e). (t, e_userId e)) (cf_udp w)
     \<and> cf_endpoints w' = cf_endpoints w \<and> cf_reactor w' = cf_reactor w \<and> cf_next w' = cf_next w \<and> cf_fd w' = cf_fd w"

lemma same_refl [simp]: "same_objects w w"
  by (simp add: same_objects_def)

lemma same_trans: "same_objects u v \<Longrightarrow> same_objects v w \<Longrightarrow> same_objects u w"
  by (simp add: same_objects_def)

lemma map_of_owner: "map_option f (map_of m t) = map_of (map (\<lambda>(t, e). (t, f e)) m) t"
  by (induction m) auto

lemma same_lookup:
  assumes "same_objects w w'"
  shows "map_of (cf_tcp w') t = None \<longleftrightarrow> map_of (cf_tcp w) t = None"
    "map_option e_userId (map_of (cf_udp w') t) = map_option e_userId (map_of (cf_udp w) t)"
    "exists_transport w' t = exists_transport w t" "allowed w' = allowed w"
proof -
  have "fst ` set (cf_tcp w') = fst ` set (cf_tcp w)"
    using assms by (metis same_objects_def list.set_map)
  then show 1: "map_of (cf_tcp w') t = None \<longleftrightarrow> map_of (cf_tcp w) t = None" for t
    by (simp add: map_of_eq_None_iff)
  show 2: "map_option e_userId (map_of (cf_udp w') t) = map_option e_userId (map_of (cf_udp w) t)" for t
    using assms by (simp add: same_objects_def map_of_owner)
  have "map_of (cf_udp w') t = None \<longleftrightarrow> map_of (cf_udp w) t = None"
    using 2 [of t] by (metis option.map_disc_iff)
  with 1 show "exists_transport w' t = exists_transport w t" by (simp add: exists_transport_def)
  show "allowed w' = allowed w" by (auto simp: allowed_def fun_eq_iff 1 2)
qed

lemma conf_inv_same:
  assumes "conf_inv w" and "same_objects w w'" and "server_inv (cf_server w')" and "settled (allowed w) (cf_server w')"
  shows "conf_inv w'"
proof -
  note l = same_lookup [OF assms(2)]
  have "map_of (cf_udp w') t = None \<longleftrightarrow> map_of (cf_udp w) t = None" for t
    using l(2) [of t] by (metis option.map_disc_iff)
  with assms l show ?thesis
    by (simp add: conf_inv_def) (simp add: same_objects_def)
qed

lemma keys_at_key [simp]: "map fst (at_key k f m) = map fst m"
  by (induction k f m rule: at_key.induct) auto

lemma owners_at_key: "(\<And>e. e_userId (f e) = e_userId e) \<Longrightarrow>
    map (\<lambda>(t, e). (t, e_userId e)) (at_key k f m) = map (\<lambda>(t, e). (t, e_userId e)) m"
  by (induction k f m rule: at_key.induct) auto

lemma same_on_conn: "same_objects w (on_conn t f w)"
  by (simp add: same_objects_def on_conn_def)

lemma same_on_end: "(\<And>e. e_userId (f e) = e_userId e) \<Longrightarrow> same_objects w (on_end t f w)"
  by (simp add: same_objects_def on_end_def owners_at_key)

lemma same_on_end_const: "map_option e_userId (map_of (cf_udp w) t) = Some (e_userId e) \<Longrightarrow> same_objects w (on_end t (\<lambda>_. e) w)"
proof -
  have "map_option e_userId (map_of m t) = Some (e_userId e) \<Longrightarrow>
    map (\<lambda>(t, e). (t, e_userId e)) (at_key t (\<lambda>_. e) m) = map (\<lambda>(t, e). (t, e_userId e)) m" for m
    by (induction m) (auto split: if_splits)
  then show "map_option e_userId (map_of (cf_udp w) t) = Some (e_userId e) \<Longrightarrow> same_objects w (on_end t (\<lambda>_. e) w)"
    by (simp add: same_objects_def on_end_def)
qed

lemma inv_on_conn: "conf_inv w \<Longrightarrow> conf_inv (on_conn t f w)"
  using conf_inv_same [OF _ same_on_conn [of w t f]] by (simp add: conf_inv_def)

lemma inv_on_end: "conf_inv w \<Longrightarrow> same_objects w (on_end t f w) \<Longrightarrow> conf_inv (on_end t f w)"
  using conf_inv_same [of w "on_end t f w"] by (simp add: conf_inv_def)

section \<open>The calls of the server\<close>

lemma SendDatagram_user [simp]: "e_userId (snd (SendDatagramLocked d e)) = e_userId e"
  by (simp add: SendDatagramLocked_def split: list.split)

lemma Udp_Send_user [simp]: "e_userId (snd (Udp_Send io now msg e)) = e_userId e"
proof (cases "BFCPMessage_Serialize io msg MaxDatagramLen (e_peerVersion e)")
  case (Some d)
  obtain ok e' where "SendDatagramLocked d e = (ok, e')" by fastforce
  with SendDatagram_user [of d e] Some show ?thesis
    by (cases ok) (simp_all add: Udp_Send_def)
qed (simp add: Udp_Send_def)

lemma perform_ok:
  assumes "exists_transport w (target e)"
  shows "\<exists>w'. perform io now e w = Some w' \<and> cf_server w' = cf_server w \<and> same_objects w w'"
  using assms by (cases e) (auto simp: exists_transport_def Udp_Close_def Udp_Finish_def intro: same_on_conn same_on_end)

lemma foldM_perform_ok:
  assumes "\<forall>e \<in> set es. exists_transport w (target e)"
  shows "\<exists>w'. foldM (perform io now) es w = Some w' \<and> cf_server w' = cf_server w \<and> same_objects w w'"
  using assms
proof (induction es arbitrary: w)
  case (Cons e es)
  from Cons.prems perform_ok [of w e io now] obtain v where v: "perform io now e w = Some v" "cf_server v = cf_server w" "same_objects w v"
    by auto
  with Cons.prems same_lookup(3) [OF v(3)] Cons.IH [of v] show ?case
    by (auto intro: same_trans)
qed simp

lemma carry_out_ok:
  assumes "conf_inv w" and "within (allowed w) (cf_server w) s" and "server_inv s"
  shows "\<exists>w'. carry_out io now s w = Some w' \<and> cf_server w' = s \<and> same_objects w w' \<and> conf_inv w'"
proof -
  from assms(1,2) obtain es where es: "s_sent s = s_sent (cf_server w) @ es"
    and t: "\<forall>e \<in> set es. \<exists>k. target e \<in> allowed w k" and st: "settled (allowed w) s"
    by (auto simp: within_def conf_inv_def)
  have sm: "same_objects w (w\<lparr>cf_server := s\<rparr>)" by (simp add: same_objects_def)
  have "\<forall>e \<in> set es. exists_transport (w\<lparr>cf_server := s\<rparr>) (target e)"
    using t by (auto simp: allowed_def exists_transport_def)
  from foldM_perform_ok [OF this, of io now] obtain w' where w': "foldM (perform io now) es (w\<lparr>cf_server := s\<rparr>) = Some w'"
    "cf_server w' = s" "same_objects (w\<lparr>cf_server := s\<rparr>) w'" by auto
  then have "same_objects w w'" using same_trans [OF sm] by blast
  with w' es st assms(1,3) conf_inv_same [of w w'] show ?thesis
    by (auto simp: carry_out_def)
qed

lemma tell_closed_ok:
  assumes "conf_inv w"
  shows "\<exists>w'. tell_closed io now t w = Some w' \<and> same_objects w w' \<and> conf_inv w'
    \<and> cf_server w' = TransportClosed (transports_of io now w) t (cf_server w)"
proof -
  have "server_inv (TransportClosed (transports_of io now w) t (cf_server w))"
    using assms inv_step [OF _ server_step.intros(1) [OF step_TransportClosed]] by (auto simp: conf_inv_def)
  from carry_out_ok [OF assms within_TransportClosed this] show ?thesis
    unfolding tell_closed_def by blast
qed

lemma hand_up_ok:
  assumes "conf_inv w" and "t \<in> allowed w (m_userId msg)" and "IsValid (m_body msg)"
  shows "\<exists>w'. hand_up io now msg t w = Some w' \<and> same_objects w w' \<and> conf_inv w'"
proof -
  from MessageReceived_valid [OF assms(3)] obtain s where s: "MessageReceived (transports_of io now w) msg t (cf_server w) = Some s"
    by blast
  have "server_inv s"
    using assms(1) s by (auto simp: conf_inv_def intro: inv_MessageReceived)
  from carry_out_ok [OF assms(1) within_MessageReceived [where T = "allowed w", OF assms(2) s] this] s show ?thesis
    by (auto simp: hand_up_def)
qed

lemma Parse_IsValid: "BFCPMessage_Parse io d = Some msg \<Longrightarrow> IsValid (m_body msg)"
  by (erule Parse_Some) simp

lemma deliver_ok:
  assumes "conf_inv w"
  shows "\<exists>w'. deliver io now t w = Some w' \<and> conf_inv w'"
  using assms
proof (induction w rule: measure_induct_rule [of "buffered t"])
  case (less w)
  show ?case
  proof (cases "map_of (cf_tcp w) t")
    case (Some c)
    note d = deliver_cases [OF Some, where io = io and now = now]
    obtain f c' where n: "next_frame io c = (f, c')" by fastforce
    show ?thesis
    proof (cases f)
      case (Frame message)
      note sh = next_frame_shorter [OF n [unfolded Frame]]
      define v where "v = on_conn t (\<lambda>c. c\<lparr>c_in := c_in c'\<rparr>) w"
      have v: "conf_inv v" "map_of (cf_tcp v) t = Some (c\<lparr>c_in := c_in c'\<rparr>)"
        using less.prems Some by (simp_all add: v_def inv_on_conn)
      show ?thesis
      proof (cases "BFCPMessage_Parse io message")
        case (Some msg)
        have "t \<in> allowed v (m_userId msg)" using v(2) by (simp add: allowed_def)
        from hand_up_ok [OF v(1) this Parse_IsValid [OF Some], of io now] obtain w1
          where w1: "hand_up io now msg t v = Some w1" "conf_inv w1" by blast
        have "buffered t w1 < buffered t w"
          using calmer_calls(2) [OF w1(1), of t] v(2) sh \<open>map_of (cf_tcp w) t = Some c\<close> by (auto simp: calmer_def buffered_def)
        from less.IH [OF this w1(2)] show ?thesis
          using d(3) [OF n [unfolded Frame]] w1(1) Some by (simp add: v_def)
      next
        case None
        from tell_closed_ok [OF inv_on_conn [OF less.prems], of io now t t "\<lambda>c. Finish (c\<lparr>c_in := c_in c'\<rparr>)"] show ?thesis
          using d(3) [OF n [unfolded Frame]] None by auto
      qed
    next
      case TooLong
      from tell_closed_ok [OF inv_on_conn [OF less.prems], of io now t t Finish] show ?thesis
        using d(2) n TooLong by auto
    next
      case NoFrame
      with d(1) n less.prems show ?thesis by simp
    qed
  qed (use less.prems in \<open>simp add: deliver_idle\<close>)
qed

section \<open>Destroying transports\<close>

definition attached :: "server \<Rightarrow> tid \<Rightarrow> bool" where
  "attached s t \<longleftrightarrow> (\<exists>k u. GetUserLocked k s = Some u \<and> u_transport u = Some t)"

lemma closed_attached:
  assumes "server_inv s" and "unshared s"
  shows "unshared (TransportClosed tr t s)" "attached (TransportClosed tr t s) x \<longleftrightarrow> attached s x \<and> x \<noteq> t"
proof -
  let ?s = "TransportClosed tr t s"
  have u: "(\<exists>u. GetUserLocked k ?s = Some u \<and> u_transport u = Some x) \<longleftrightarrow>
      (\<exists>u. GetUserLocked k s = Some u \<and> u_transport u = Some x) \<and> x \<noteq> t" for k x
    using TransportClosed_users [OF assms, of k tr t] by (cases "GetUserLocked k s") (auto split: if_splits)
  show "attached ?s x \<longleftrightarrow> attached s x \<and> x \<noteq> t"
    unfolding attached_def using u by blast
  show "unshared ?s"
    unfolding unshared_def
  proof (intro allI impI)
    fix k u k' u' x
    assume a: "GetUserLocked k ?s = Some u \<and> GetUserLocked k' ?s = Some u' \<and> u_transport u = Some x \<and> u_transport u' = Some x"
    from a u [of k x] obtain v where "GetUserLocked k s = Some v" "u_transport v = Some x" by auto
    moreover from a u [of k' x] obtain v' where "GetUserLocked k' s = Some v'" "u_transport v' = Some x" by auto
    ultimately show "k = k'" using assms(2) by (simp add: unshared_def)
  qed
qed

definition let_gone :: "tid set \<Rightarrow> conference \<Rightarrow> conference \<Rightarrow> bool" where
  "let_gone D w w' \<longleftrightarrow> conf_inv w' \<and> unshared (cf_server w') \<and> (\<forall>x. attached (cf_server w') x \<longleftrightarrow> attached (cf_server w) x \<and> x \<notin> D)
     \<and> same_objects (w\<lparr>cf_reactor := cf_reactor w'\<rparr>) w' \<and> set (cf_reactor w') = set (cf_reactor w) - D"

lemma let_go_ok:
  assumes "conf_inv w" and "unshared (cf_server w)"
  shows "\<exists>w'. let_go io now t w = Some w' \<and> let_gone {t} w w'"
proof -
  from tell_closed_ok [OF assms(1), of io now t] obtain v where v: "tell_closed io now t w = Some v" "same_objects w v" "conf_inv v"
    "cf_server v = TransportClosed (transports_of io now w) t (cf_server w)" by blast
  let ?v = "v\<lparr>cf_reactor := removeAll t (cf_reactor v)\<rparr>"
  have "conf_inv ?v"
    using v(3) allowed_cong [of ?v v] by (auto simp: conf_inv_def exists_transport_def)
  moreover have "same_objects (w\<lparr>cf_reactor := cf_reactor ?v\<rparr>) ?v" "cf_reactor v = cf_reactor w"
    using v(2) by (simp_all add: same_objects_def)
  ultimately have "let_gone {t} w ?v"
    using closed_attached [of "cf_server w" "transports_of io now w" t] assms v(4) by (auto simp: let_gone_def conf_inv_def)
  with v(1) show ?thesis by (simp add: let_go_def)
qed

lemma let_gone_trans:
  assumes "let_gone A u v" and "let_gone B v w"
  shows "let_gone (A \<union> B) u w"
  using assms unfolding let_gone_def by (auto simp: same_objects_def)

lemma foldM_let_go_ok:
  assumes "conf_inv w" and "unshared (cf_server w)"
  shows "\<exists>w'. foldM (let_go io now) doomed w = Some w' \<and> let_gone (set doomed) w w'"
  using assms
proof (induction doomed arbitrary: w)
  case Nil
  then show ?case by (simp add: let_gone_def)
next
  case (Cons t ts)
  from let_go_ok [OF Cons.prems, of io now t] obtain v where v: "let_go io now t w = Some v" "let_gone {t} w v" by blast
  then have "conf_inv v" "unshared (cf_server v)" by (simp_all add: let_gone_def)
  from Cons.IH [OF this] v show ?case
    using let_gone_trans [OF v(2)] by fastforce
qed

lemma map_of_filter_key: "map_of (filter (\<lambda>(k, _). P k) m) x = (if P x then map_of m x else None)"
  by (induction m) auto

lemma destroy_ok:
  assumes "conf_inv w" and "\<forall>t \<in> set doomed. \<not> attached (cf_server w) t" and "set (cf_reactor w) \<inter> set doomed = {}"
    and "\<forall>t \<in> set doomed. map_of (cf_tcp w) t \<noteq> None"
  shows "conf_inv (destroy doomed w)"
proof -
  have tcp: "map_of (cf_tcp (destroy doomed w)) x = (if x \<notin> set doomed then map_of (cf_tcp w) x else None)" for x
    by (simp add: destroy_def map_of_filter_key)
  have "settled (allowed (destroy doomed w)) (cf_server w)"
  proof (rule settledI)
    fix k u x assume u: "(k, u) \<in> set (s_users (cf_server w))" "u_transport u = Some x"
    then have "x \<notin> set doomed"
      using assms(2) listed_user [OF conf_invD(1) [OF assms(1)]] by (auto simp: attached_def)
    with settledD [OF conf_invD(2) [OF assms(1)] u] show "x \<in> allowed (destroy doomed w) k"
      by (simp add: allowed_def tcp) (simp add: destroy_def)
  qed
  with assms show ?thesis
    by (auto simp: conf_inv_def exists_transport_def tcp) (auto simp: destroy_def)
qed

lemma let_go_destroy:
  assumes "conf_inv w" and "unshared (cf_server w)" and "set doomed \<subseteq> fst ` set (cf_tcp w)"
  shows "\<exists>w'. map_option (destroy doomed) (foldM (let_go io now) doomed w) = Some w' \<and> conf_inv w'
    \<and> unshared (cf_server w') \<and> (\<forall>t \<in> set doomed. \<not> exists_transport w' t)"
proof -
  from foldM_let_go_ok [OF assms(1,2), of io now doomed] obtain v
    where v: "foldM (let_go io now) doomed w = Some v" "let_gone (set doomed) w v" by blast
  have i: "conf_inv v" "unshared (cf_server v)" using v(2) by (simp_all add: let_gone_def)
  have keys: "map fst (cf_tcp v) = map fst (cf_tcp w)"
    using v(2) by (simp add: let_gone_def same_objects_def)
  have d: "\<forall>t \<in> set doomed. map_of (cf_tcp v) t \<noteq> None"
    using assms(3) arg_cong [OF keys, of set] by (auto simp: map_of_eq_None_iff)
  then have "conf_inv (destroy doomed v)"
    using v(2) by (intro destroy_ok [OF i(1)]) (auto simp: let_gone_def)
  moreover have "\<forall>t \<in> set doomed. \<not> exists_transport (destroy doomed v) t"
  proof
    fix t assume "t \<in> set doomed"
    with d have "map_of (cf_tcp v) t \<noteq> None" by blast
    then have "map_of (cf_udp v) t = None" by (rule conf_invD(3) [OF i(1)])
    with \<open>t \<in> set doomed\<close> show "\<not> exists_transport (destroy doomed v) t"
      by (simp add: exists_transport_def destroy_def map_of_filter_key)
  qed
  moreover have "cf_server (destroy doomed v) = cf_server v" by (simp add: destroy_def)
  ultimately show ?thesis
    unfolding v(1) option.map using i(2) by (intro exI [of _ "destroy doomed v"]) simp
qed

lemma Reap_ok:
  assumes "conf_inv w" and "unshared (cf_server w)"
  shows "\<exists>w'. Reap io now w = Some w' \<and> conf_inv w' \<and> (\<forall>t c. (t, c) \<in> set (cf_tcp w) \<and> c_finished c \<longrightarrow> \<not> exists_transport w' t)"
proof -
  let ?doomed = "map fst (filter (\<lambda>(_, c). c_finished c) (cf_tcp w))"
  have "set ?doomed \<subseteq> fst ` set (cf_tcp w)" by auto
  from let_go_destroy [OF assms this, of io now] obtain w' where w': "Reap io now w = Some w'" "conf_inv w'"
    "\<forall>t \<in> set ?doomed. \<not> exists_transport w' t" unfolding Reap_def Let_def by blast
  moreover have "t \<in> set ?doomed" if "(t, c) \<in> set (cf_tcp w)" "c_finished c" for t c
    using that by force
  ultimately show ?thesis by blast
qed

lemma RemoveUser_gone:
  assumes "server_inv s"
  shows "GetUserLocked k (snd (RemoveUser tr k s)) = None"
  using assms by (auto simp: RemoveUser_def RemoveUserLocked_def GetUserLocked_def Let_def case_prod_beta Fire_def omap_simps
      server_inv_def good_def consistent_def split: option.split)

lemma removeParticipant_ok:
  assumes "conf_inv w"
  shows "\<exists>w'. removeParticipant io now partId w = Some w' \<and> conf_inv w'"
proof -
  let ?s = "snd (RemoveUser (transports_of io now w) partId (cf_server w))"
  have i: "server_inv (cf_server w)" using assms by (simp add: conf_inv_def)
  have "server_inv ?s" "within (allowed w) (cf_server w) ?s"
    using inv_call [OF chair_step [of _ _ "CallRemoveUser partId"] i] within_chair [of _ _ _ "CallRemoveUser partId"] by simp_all
  from carry_out_ok [OF assms this(2,1), of io now] obtain v where v: "carry_out io now ?s w = Some v" "cf_server v = ?s" "conf_inv v"
    by blast
  have "conf_inv (erase_endpoint partId v)"
  proof (cases "om_find partId (cf_endpoints v)")
    case (Some t)
    then have owner: "map_option e_userId (map_of (cf_udp v) t) = Some partId" by (rule conf_invD(4) [OF v(3)])
    then have other: "map_of (cf_tcp v) t = None" using conf_invD(3) [OF v(3), of t] by (cases "map_of (cf_tcp v) t") simp_all
    let ?v = "erase_endpoint partId v"
    have udp: "map_of (cf_udp ?v) x = (if x = t then None else map_of (cf_udp v) x)" "cf_tcp ?v = cf_tcp v" for x
      using Some by (simp_all add: erase_endpoint_def map_of_filter_key)
    have "settled (allowed ?v) (cf_server v)"
    proof (rule settledI)
      fix k u x assume u: "(k, u) \<in> set (s_users (cf_server v))" "u_transport u = Some x"
      have "k \<noteq> partId"
        using RemoveUser_gone [OF i, of partId "transports_of io now w"] u(1) v(2) listed_user [OF conf_invD(1) [OF v(3)]] by auto
      with settledD [OF conf_invD(2) [OF v(3)] u] owner other show "x \<in> allowed ?v k"
        by (auto simp: allowed_def udp)
    qed
    moreover have "map_option e_userId (map_of (cf_udp ?v) x) = Some k" if "om_find k (cf_endpoints ?v) = Some x" for k x
    proof -
      from that Some have "om_find k (cf_endpoints v) = Some x" "k \<noteq> partId"
        by (auto simp: erase_endpoint_def om_find_erase split: if_splits)
      with conf_invD(4) [OF v(3) this(1)] owner show ?thesis by (auto simp: udp)
    qed
    moreover have "cf_server ?v = cf_server v" "cf_next ?v = cf_next v" "set (cf_reactor ?v) = set (cf_reactor v) - {t}"
      using Some by (simp_all add: erase_endpoint_def)
    ultimately show ?thesis
      using v(3) by (auto simp: conf_inv_def exists_transport_def udp)
  qed (simp add: erase_endpoint_def v(3))
  with v(1) show ?thesis by (simp add: removeParticipant_def)
qed

lemma AddUser_ok:
  assumes "conf_inv w"
  shows "conf_inv (w\<lparr>cf_server := snd (AddUser k (cf_server w))\<rparr>)"
proof -
  have "server_inv (snd (AddUser k (cf_server w)))" "within (allowed w) (cf_server w) (snd (AddUser k (cf_server w)))"
    using inv_call [OF chair_step [of _ _ "CallAddUser k"] conf_invD(1) [OF assms]] within_chair [of _ _ _ "CallAddUser k"]
    by simp_all
  then show ?thesis
    using conf_invD(2) [OF assms] by (intro conf_inv_same [OF assms]) (simp_all add: same_objects_def within_def)
qed

text \<open>A new object gets a number nobody has, and joins the reactor.\<close>

lemma fresh_number:
  assumes "conf_inv w"
  shows "map_of (cf_tcp w) (cf_next w) = None" "map_of (cf_udp w) (cf_next w) = None"
    "map_of (cf_tcp w) t = Some y \<Longrightarrow> t < cf_next w" "map_of (cf_udp w) t = Some z \<Longrightarrow> t < cf_next w"
  using assms unfolding conf_inv_def exists_transport_def by (metis less_irrefl option.discI)+

lemma accept_ok:
  assumes "conf_inv w"
  shows "conf_inv (accept_one x w)"
proof -
  note fresh = fresh_number [OF assms]
  obtain fd sock where x: "x = (fd, sock)" by (cases x)
  define v where "v = accept_one x w"
  have tcp: "map_of (cf_tcp v) t = (if t = cf_next w then Some (BFCPTcpConnection_new fd sock) else map_of (cf_tcp w) t)" for t
    using fresh by (auto simp: v_def accept_one_def x map_add_def split: option.split)
  have v: "cf_udp v = cf_udp w" "cf_server v = cf_server w" "cf_next v = cf_next w + 1" "cf_endpoints v = cf_endpoints w"
    "cf_reactor v = cf_reactor w @ [cf_next w]" by (simp_all add: v_def accept_one_def x)
  have "settled (allowed v) (cf_server w)"
    using settledD [OF conf_invD(2) [OF assms]] by (intro settledI) (auto simp: allowed_def tcp v)
  then have "conf_inv v"
    using assms fresh by (auto simp: conf_inv_def exists_transport_def tcp v less_Suc_eq)
  then show ?thesis by (simp add: v_def)
qed

lemma endpoint_ok:
  assumes "conf_inv w" and k: "e_userId e = k"
  defines "v \<equiv> w\<lparr>cf_udp := cf_udp w @ [(cf_next w, e)], cf_endpoints := om_put k (cf_next w) (cf_endpoints w),
       cf_reactor := cf_reactor w @ [cf_next w], cf_next := cf_next w + 1\<rparr>"
  shows "conf_inv v"
proof -
  note fresh = fresh_number [OF assms(1)]
  have udp: "map_of (cf_udp v) t = (if t = cf_next w then Some e else map_of (cf_udp w) t)" for t
    using fresh by (auto simp: v_def map_add_def split: option.split)
  have v: "cf_tcp v = cf_tcp w" "cf_server v = cf_server w" "cf_next v = cf_next w + 1"
    "cf_endpoints v = om_put k (cf_next w) (cf_endpoints w)" "cf_reactor v = cf_reactor w @ [cf_next w]"
    by (simp_all add: v_def)
  have "x \<in> allowed v j" if "x \<in> allowed w j" for x j
    using that fresh by (auto simp: allowed_def udp v)
  then have "settled (allowed v) (cf_server w)"
    using settledD [OF conf_invD(2) [OF assms(1)]] by (intro settledI) blast
  moreover have "map_option e_userId (map_of (cf_udp v) x) = Some j" if "om_find j (cf_endpoints v) = Some x" for j x
    using that conf_invD(4) [OF assms(1), of j x] fresh by (auto simp: udp v omap_simps k split: if_splits)
  ultimately show ?thesis
    using assms(1) fresh by (auto simp: conf_inv_def exists_transport_def udp v less_Suc_eq)
qed

lemma StartBfcpServer_ok:
  assumes "conf_inv w"
  shows "conf_inv (snd (StartBfcpServer partId mode sys sock w))"
proof -
  define v where "v = w\<lparr>cf_server := snd (AddUser partId (cf_server w))\<rparr>"
  have v: "conf_inv v" unfolding v_def by (rule AddUser_ok [OF assms])
  have "conf_inv (v\<lparr>cf_fd := fd, cf_port := p\<rparr>)" for fd p
    using v allowed_cong [of "v\<lparr>cf_fd := fd, cf_port := p\<rparr>" v] by (simp add: conf_inv_def exists_transport_def)
  moreover have "e_userId (snd (Udp_Open sys 0 (BFCPUdpEndpoint_new partId sock))) = partId"
    by (simp add: Udp_Open_def BFCPUdpEndpoint_new_def Let_def split: option.split)
  moreover note endpoint_ok [OF v]
  ultimately show ?thesis
    using v by (auto simp: StartBfcpServer_def v_def [symmetric] Listener_Open_def Let_def
      split: sharing_mode.split option.split prod.split)
qed

section \<open>Every operation\<close>

datatype conf_op =
    Chair chair_call
  | Accepted "(int \<times> io_result list) list"
  | Readable tid "recv_result list"
  | Writable tid
  | TcpError tid
  | Datagrams tid "(IPEndpoint \<times> byte list) list"
  | Tick tid
  | UdpError tid
  | Remote tid IPEndpoint
  | Joins int sharing_mode "(int \<times> 16 word option) option" "bool list"
  | Leaves int
  | Reaps

fun run :: "medkit \<Rightarrow> int \<Rightarrow> conf_op \<Rightarrow> conference \<Rightarrow> conference option" where
  "run io now (Chair c) w = carry_out io now (chair (transports_of io now w) c (cf_server w)) w"
| "run io now (Accepted clients) w = Some (Accept clients w)"
| "run io now (Readable t rs) w = Tcp_OnReadable io now t rs w"
| "run io now (Writable t) w = Some (on_conn t OnWritable w)"
| "run io now (TcpError t) w = Tcp_OnPollError io now t w"
| "run io now (Datagrams t ds) w = Udp_OnReadable io now t ds w"
| "run io now (Tick t) w = Udp_Periodic io now t w"
| "run io now (UdpError t) w = Udp_OnPollError io now t w"
| "run io now (Remote t ep) w = Some (on_end t (SetRemote ep) w)"
| "run io now (Joins k mode sys sock) w = Some (snd (StartBfcpServer k mode sys sock w))"
| "run io now (Leaves k) w = removeParticipant io now k w"
| "run io now Reaps w = Reap io now w"

lemma OnPeriodic_user [simp]: "e_userId (snd (Udp_OnPeriodic now e)) = e_userId e"
proof -
  have "e_userId (fold (\<lambda>d e. snd (SendDatagramLocked d e)) ds x) = e_userId x" for ds x
    by (induction ds arbitrary: x) simp_all
  then show ?thesis by (simp add: Udp_OnPeriodic_def case_prod_beta Let_def)
qed

lemma Dispatch_user:
  assumes "Udp_Dispatch io d e = (m, e')"
  shows "e_userId e' = e_userId e" "m = Some msg \<Longrightarrow> m_userId msg = e_userId e \<and> IsValid (m_body msg)"
  using assms Parse_IsValid [of io d]
  by (auto simp: Udp_Dispatch_def Let_def split: option.splits if_splits)

lemma OnDatagram_ok:
  assumes "conf_inv w"
  shows "\<exists>w'. Udp_OnDatagram io now t x w = Some w' \<and> conf_inv w'"
proof -
  obtain source data where x: "x = (source, data)" by (cases x)
  show ?thesis
  proof (cases "map_of (cf_udp w) t")
    case (Some e)
    show ?thesis
    proof (cases "Udp_receive source e")
      case rcv: (Some r)
      obtain ours e1 where r: "r = (ours, e1)" by (cases r)
      have e1: "e_userId e1 = e_userId e" using rcv r by (auto simp: Udp_receive_def split: if_splits)
      obtain m e2 where d: "Udp_Dispatch io (take MaxDatagramLen data) e1 = (m, e2)" by fastforce
      have same: "same_objects w (on_end t (\<lambda>_. e1) w)" "same_objects w (on_end t (\<lambda>_. e2) w)"
        using Some e1 Dispatch_user(1) [OF d] by (simp_all add: same_on_end_const)
      have "\<exists>w'. hand_up io now msg t (on_end t (\<lambda>_. e2) w) = Some w' \<and> conf_inv w'" if "m = Some msg" for msg
        using hand_up_ok [OF inv_on_end [OF assms same(2)], of t msg io now] Dispatch_user [OF d] that Some e1
        by (auto simp: allowed_def)
      with Some rcv r d inv_on_end [OF assms] same show ?thesis
        by (cases m) (auto simp: Udp_OnDatagram_def x)
    qed (use assms Some in \<open>simp add: Udp_OnDatagram_def x\<close>)
  qed (use assms in \<open>simp add: Udp_OnDatagram_def x\<close>)
qed

lemma foldM_ok:
  assumes "P s" and "\<And>x s. P s \<Longrightarrow> \<exists>s'. f x s = Some s' \<and> P s'"
  shows "\<exists>s'. foldM f xs s = Some s' \<and> P s'"
  using assms(1)
proof (induction xs arbitrary: s)
  case (Cons x xs)
  from assms(2) [OF Cons.prems] obtain s' where "f x s = Some s'" "P s'" by blast
  with Cons.IH show ?case by simp
qed simp

lemma run_ok:
  assumes "conf_inv w" and "op = Reaps \<Longrightarrow> unshared (cf_server w)"
  shows "\<exists>w'. run io now op w = Some w' \<and> conf_inv w'"
proof (cases op)
  case (Chair c)
  from carry_out_ok [OF assms(1) within_chair inv_call [OF chair_step conf_invD(1) [OF assms(1)]], of io now "transports_of io now w" c]
    Chair show ?thesis by auto
next
  case (Accepted clients)
  have "conf_inv (Accept clients w)"
    unfolding Accept_def by (rule fold_inv [where P = conf_inv]) (use assms(1) in \<open>auto intro: accept_ok\<close>)
  with Accepted show ?thesis by simp
next
  case (Readable t rs)
  show ?thesis
  proof (cases "map_of (cf_tcp w) t")
    case (Some c)
    obtain ok c' where d: "drain rs c = (ok, c')" by fastforce
    note i = inv_on_conn [OF assms(1), of t "\<lambda>_. c'"]
    from deliver_ok [OF i, of io now t] tell_closed_ok [OF i, of io now t] d Some Readable show ?thesis
      by (cases ok) (auto simp: Tcp_OnReadable_def)
  qed (use assms(1) Readable in \<open>simp add: Tcp_OnReadable_def\<close>)
next
  case (TcpError t)
  from tell_closed_ok [OF inv_on_conn [OF assms(1), of t Finish], of io now t] TcpError show ?thesis
    by (auto simp: Tcp_OnPollError_def)
next
  case (Datagrams t ds)
  have "\<exists>w'. foldM (Udp_OnDatagram io now t) ds w = Some w' \<and> conf_inv w'"
    by (rule foldM_ok [where P = conf_inv, OF assms(1) OnDatagram_ok])
  with Datagrams show ?thesis by (simp add: Udp_OnReadable_def)
next
  case (Tick t)
  show ?thesis
  proof (cases "map_of (cf_udp w) t")
    case (Some e)
    obtain g e' where p: "Udp_OnPeriodic now e = (g, e')" by fastforce
    then have "e_userId e' = e_userId e" using OnPeriodic_user [of now e] by simp
    then have i: "conf_inv (on_end t (\<lambda>_. e') w)" using Some by (intro inv_on_end [OF assms(1)] same_on_end_const) simp
    from tell_closed_ok [OF i, of io now t] i p Some Tick show ?thesis
      by (cases g) (auto simp: Udp_Periodic_def)
  qed (use assms(1) Tick in \<open>simp add: Udp_Periodic_def\<close>)
next
  case (UdpError t)
  have "conf_inv (on_end t Udp_Finish w)"
    by (intro inv_on_end [OF assms(1)] same_on_end) (simp add: Udp_Finish_def)
  from tell_closed_ok [OF this, of io now t] UdpError show ?thesis by (auto simp: Udp_OnPollError_def)
next
  case (Remote t ep)
  have "conf_inv (on_end t (SetRemote ep) w)"
    by (intro inv_on_end [OF assms(1)] same_on_end) (simp add: SetRemote_def)
  with Remote show ?thesis by simp
next
  case Reaps
  with Reap_ok [OF assms(1), of io now] assms(2) show ?thesis by auto
qed (use assms(1) removeParticipant_ok StartBfcpServer_ok inv_on_conn in auto)

text \<open>
  \<open>sharing_free io ops w\<close>: in the course of the operations, no two users share a transport when the
  listener reaps.
\<close>

fun sharing_free :: "medkit \<Rightarrow> (int \<times> conf_op) list \<Rightarrow> conference \<Rightarrow> bool" where
  "sharing_free io [] w = True"
| "sharing_free io ((now, op) # ops) w =
    ((op = Reaps \<longrightarrow> unshared (cf_server w)) \<and> (case run io now op w of None \<Rightarrow> True | Some w' \<Rightarrow> sharing_free io ops w'))"

lemma conf_inv_new: "conf_inv (conference_new c)"
proof -
  have "server_inv (snd (AddFloor TheFloorId (BFCPFloorControlServer_new c)))"
    using inv_call [OF chair_step [of _ _ "CallAddFloor TheFloorId"] srv.init_inv] by auto
  moreover have "s_users (snd (AddFloor TheFloorId (BFCPFloorControlServer_new c))) = []"
    by (simp add: AddFloor_def BFCPFloorControlServer_new_def)
  ultimately show ?thesis
    by (simp add: conf_inv_def conference_new_def settled_def exists_transport_def)
qed

lemma runs_ok:
  assumes "conf_inv w" and "sharing_free io ops w"
  shows "\<exists>w'. foldM (\<lambda>(now, op). run io now op) ops w = Some w' \<and> conf_inv w'"
  using assms
proof (induction ops arbitrary: w)
  case (Cons x ops)
  obtain now op where x: "x = (now, op)" by (cases x)
  from run_ok [OF Cons.prems(1), of op io now] Cons.prems(2) obtain w' where w': "run io now op w = Some w'" "conf_inv w'"
    by (auto simp: x)
  with Cons show ?case by (simp add: x)
qed simp


definition sample_ops :: "(int \<times> conf_op) list" where
  "sample_ops = [(0, Joins 2 BFCP_UDP (Some (5, Some 40000)) []), (0, Accepted [(6, [])]), (0, TcpError 1), (0, Reaps)]"

lemma unconnected_unshared: "list_all (\<lambda>(k, u). u_transport u = None) (s_users s) \<Longrightarrow> unshared s"
  by (auto simp: unshared_def GetUserLocked_def list_all_iff dest!: om_find_in)


section \<open>Stopping with an endpoint\<close>

lemma perform_None: "\<not> exists_transport w (target e) \<Longrightarrow> perform io now e w = None"
  by (cases e) (simp_all add: exists_transport_def)

lemma perform_keeps:
  assumes "perform io now e w = Some w'"
  shows "exists_transport w' t = exists_transport w t"
proof (cases "exists_transport w (target e)")
  case True
  with perform_ok [OF True, of io now] assms same_lookup(3) show ?thesis by fastforce
qed (use assms perform_None in fastforce)

lemma foldM_perform_None:
  assumes "e \<in> set es" and "\<not> exists_transport w (target e)"
  shows "foldM (perform io now) es w = None"
  using assms by (induction es arbitrary: w) (auto simp: perform_None perform_keeps split: option.split)

lemma end_users_new:
  assumes "(k, u) \<in> set us" and "u_transport u = Some t"
  shows "\<exists>es. s_sent (fold (end_user tr) us s) = s_sent s @ es \<and> Closed t \<in> set es"
proof -
  have grows: "\<exists>es. s_sent (fold (end_user tr) us s) = s_sent s @ es" for us s
  proof (induction us arbitrary: s)
    case (Cons x us)
    obtain i where "s_sent (end_user tr x s) = s_sent s @ i"
      using end_user_sent [of tr "fst x" "snd x" s] by auto
    with Cons.IH [of "end_user tr x s"] show ?case by auto
  qed simp
  from assms(1) obtain as bs where us: "us = as @ (k, u) # bs" by (meson split_list)
  let ?a = "fold (end_user tr) as s"
  from end_user_sent [of tr k u ?a] assms(2) obtain i where "s_sent (end_user tr (k, u) ?a) = s_sent ?a @ i" "Closed t \<in> set i"
    by auto
  with grows [of as s] grows [of bs "end_user tr (k, u) ?a"] show ?thesis by (auto simp: us)
qed

lemma End_new:
  assumes "\<not> s_ending s" and "(k, u) \<in> set (s_users s)" and "u_transport u = Some t"
  shows "\<exists>es. s_sent (End tr s) = s_sent s @ es \<and> Closed t \<in> set es"
proof -
  let ?s1 = "fold (end_request tr (str ''conference ended'')) (om_keys (s_floorRequests s)) (s\<lparr>s_ending := True\<rparr>)"
  have "within (\<lambda>_. UNIV) (s\<lparr>s_ending := True\<rparr>) ?s1" by (simp add: within_fold within_end_request)
  then obtain a where a: "s_sent ?s1 = s_sent s @ a" by (auto simp: within_def settled_def user_in_def)
  from end_users_new [of k u "s_users s" t tr "?s1\<lparr>s_floorRequests := []\<rparr>"] assms a show ?thesis
    by (auto simp: End_def Let_def Fire_def)
qed

lemma TransportClosed_other:
  assumes "server_inv s" and "GetUserLocked k s = Some u" and "u_transport u = Some t" and "t \<noteq> t'"
  shows "\<exists>u. GetUserLocked k (TransportClosed tr t' s) = Some u \<and> u_transport u = Some t"
proof (cases "filter (\<lambda>(_, user). u_transport user = Some t') (s_users s)")
  case (Cons x rest)
  obtain j v where x: "x = (j, v)" by (cases x)
  have "x \<in> set (filter (\<lambda>(_, user). u_transport user = Some t') (s_users s))" by (simp add: Cons)
  then have v: "GetUserLocked j s = Some v" "u_transport v = Some t'"
    using listed_user [OF assms(1)] by (auto simp: x)
  with assms have "k \<noteq> j" by auto
  moreover have "\<not> s_ending s" using assms(1) v(1) by (auto simp: server_inv_def GetUserLocked_def)
  ultimately have "GetUserLocked k (TransportClosed tr t' s) = GetUserLocked k s"
    using v by (simp add: TransportClosed_def Cons x DetachTransportLocked_def Let_def Fire_def)
      (simp add: GetUserLocked_def set_user_def omap_simps)
  with assms show ?thesis by simp
qed (use assms in \<open>simp add: TransportClosed_def\<close>)

lemma foldM_let_go_attached:
  assumes "conf_inv w" and "GetUserLocked k (cf_server w) = Some u" and "u_transport u = Some t" and "t \<notin> set ts"
    and "foldM (let_go io now) ts w = Some w'"
  shows "conf_inv w' \<and> map fst (cf_tcp w') = map fst (cf_tcp w) \<and> (\<exists>u. GetUserLocked k (cf_server w') = Some u \<and> u_transport u = Some t)"
  using assms
proof (induction ts arbitrary: w u)
  case (Cons x ts)
  from tell_closed_ok [OF Cons.prems(1), of io now x] obtain v where v: "tell_closed io now x w = Some v" "same_objects w v" "conf_inv v"
    "cf_server v = TransportClosed (transports_of io now w) x (cf_server w)" by blast
  let ?v = "v\<lparr>cf_reactor := removeAll x (cf_reactor v)\<rparr>"
  have i: "conf_inv ?v"
    using v(3) allowed_cong [of ?v v] by (auto simp: conf_inv_def exists_transport_def)
  from TransportClosed_other [OF conf_invD(1) [OF Cons.prems(1)] Cons.prems(2,3), of x] Cons.prems(4) v(4)
  obtain u' where "GetUserLocked k (cf_server ?v) = Some u'" "u_transport u' = Some t" by auto
  from Cons.IH [OF i this] Cons.prems(4,5) v(1,2) show ?case
    by (simp add: let_go_def same_objects_def)
qed auto

text \<open>
  C30. \<open>StopBfcpServer\<close> is not safe. It destroys the endpoints before it ends the server, and the
  destructor of an endpoint does not tell the server: if a participant is connected over UDP,
  \<open>End\<close> sends the Goodbye and closes the transport through the pointer to the destroyed endpoint.
\<close>

theorem StopBfcpServer_dangles:
  assumes "conf_inv w" and "GetUserLocked k (cf_server w) = Some u" and "u_transport u = Some t"
    and "map_of (cf_udp w) t \<noteq> None"
  shows "StopBfcpServer io now w = None"
proof (cases "Listener_Close io now w")
  case (Some v)
  have tcp: "map_of (cf_tcp w) t = None" using conf_invD(3) [OF assms(1), of t] assms(4) by blast
  then have t: "t \<notin> set (map fst (cf_tcp w))" by (simp add: map_of_eq_None_iff)
  have "server_inv (cf_server v') \<and> map_of (cf_tcp v') t = None \<and> (\<exists>u. GetUserLocked k (cf_server v') = Some u \<and> u_transport u = Some t)"
    if "foldM (let_go io now) (map fst (cf_tcp w)) w = Some v'" for v'
    using foldM_let_go_attached [OF assms(1-3) t that] t by (metis conf_invD(1) map_of_eq_None_iff list.set_map)
  with Some assms tcp have v: "server_inv (cf_server v)" "\<exists>u. GetUserLocked k (cf_server v) = Some u \<and> u_transport u = Some t" "map_of (cf_tcp v) t = None"
    by (auto simp: Listener_Close_def Let_def destroy_def map_of_filter_key conf_invD(1) split: if_splits)
  let ?w = "clear_endpoints v"
  let ?s = "End (transports_of io now ?w) (cf_server ?w)"
  from v(2) obtain u' where u': "GetUserLocked k (cf_server v) = Some u'" "u_transport u' = Some t" by blast
  then have "\<not> s_ending (cf_server v)" using v(1) by (auto simp: server_inv_def GetUserLocked_def)
  moreover have "(k, u') \<in> set (s_users (cf_server v))" using listed_user [OF v(1)] u' by blast
  moreover have s: "cf_server ?w = cf_server v" by (simp add: clear_endpoints_def)
  ultimately obtain es where es: "s_sent ?s = s_sent (cf_server ?w) @ es" "Closed t \<in> set es"
    using End_new [OF _ _ u'(2), of "cf_server v" k "transports_of io now ?w"] by auto
  have "\<not> exists_transport (?w\<lparr>cf_server := ?s\<rparr>) (target (Closed t))"
    using v(3) by (simp add: exists_transport_def clear_endpoints_def)
  from foldM_perform_None [OF es(2) this] Some es(1) show ?thesis
    by (simp add: StopBfcpServer_def Let_def carry_out_def)
qed (simp add: StopBfcpServer_def)

definition udp_conference :: conference where
  "udp_conference = (conference_new 7)\<lparr>cf_server := the (MessageReceived tcp (greet 11) 100 room), cf_udp := [(100, BFCPUdpEndpoint_new 11 [])],
     cf_next := 101\<rparr>"

theorem StopBfcpServer_dangles_witness:
  "conf_inv udp_conference \<and> StopBfcpServer network_order 0 udp_conference = None"
proof -
  let ?s = "cf_server udp_conference"
  let ?u = "the (GetUserLocked 11 ?s)"
  have "\<exists>s. MessageReceived tcp (greet 11) 100 room = Some s"
    using MessageReceived_valid [of "greet 11" tcp 100 room] by (simp add: greet_def BFCPMessage_new_def)
  then have "server_inv ?s"
    using inv_MessageReceived reachable_server_inv [OF reachable_room] by (auto simp: udp_conference_def)
  moreover have "list_all (\<lambda>(k, u). u_transport u = None \<or> k = 11 \<and> u_transport u = Some 100) (s_users ?s)" by code_simp
  then have "settled (allowed udp_conference) ?s"
    by (intro settledI) (auto simp: list_all_iff allowed_def udp_conference_def BFCPUdpEndpoint_new_def)
  ultimately have c: "conf_inv udp_conference"
    by (auto simp: conf_inv_def exists_transport_def) (auto simp: udp_conference_def conference_new_def split: if_splits)
  moreover have "GetUserLocked 11 ?s = Some ?u" "u_transport ?u = Some 100" by code_simp+
  moreover have "map_of (cf_udp udp_conference) 100 \<noteq> None" by (simp add: udp_conference_def)
  ultimately show ?thesis using StopBfcpServer_dangles [OF c] by blast
qed

end
