(* ===== verification/AddressProfiles.thy ===== *)
theory AddressProfiles
  imports IpAddress "HOL-Library.Multiset"
begin

text \<open>
  The four addressing profiles of the server (\<open>addressprofiles.h\<close>, \<open>addressprofiles.cpp\<close>).

  The static variables are the record \<open>profiles\<close>; an \<open>Id\<close> is an \<open>int\<close>, since the functions check its
  range. A function that returns \<open>false\<close> and fills \<open>error\<close> returns \<open>Some\<close> of the text beside the state,
  \<open>None\<close> being success. What \<open>getifaddrs\<close> reports is a parameter.
\<close>

section \<open>State\<close>

definition PublicV4 :: int where "PublicV4 = 0"
definition PublicV6 :: int where "PublicV6 = 1"
definition InternalV4 :: int where "InternalV4 = 2"
definition InternalV6 :: int where "InternalV6 = 3"
definition Count :: int where "Count = 4"

lemmas ids = PublicV4_def PublicV6_def InternalV4_def InternalV6_def Count_def

record Profile =
  p_bind :: IPAddress
  p_announced :: IPAddress
  p_set :: bool

record profiles =
  ap_profiles :: "Profile list"
  ap_natAddress :: IPAddress
  ap_defaultId :: int
  ap_defaultSet :: bool
  ap_frozen :: bool

record ifaddr =
  ifa_addr :: "sockaddr option"
  ifa_up :: bool
  ifa_running :: bool

definition Profile_new :: Profile where
  "Profile_new = \<lparr>p_bind = IPAddress_new, p_announced = IPAddress_new, p_set = False\<rparr>"

definition Reset :: profiles where
  "Reset = \<lparr>ap_profiles = replicate 4 Profile_new, ap_natAddress = IPAddress_new, ap_defaultId = PublicV4,
     ap_defaultSet = False, ap_frozen = False\<rparr>"

definition kNames :: "string list" where
  "kNames = [''publicv4'', ''publicv6'', ''internalv4'', ''internalv6'']"

definition profile :: "int \<Rightarrow> profiles \<Rightarrow> Profile" where
  "profile i s = ap_profiles s ! nat i"

definition set_profile :: "int \<Rightarrow> Profile \<Rightarrow> profiles \<Rightarrow> profiles" where
  "set_profile i p s = s\<lparr>ap_profiles := (ap_profiles s)[nat i := p]\<rparr>"

definition IdFor :: "IPAddress \<Rightarrow> bool \<Rightarrow> int" where
  "IdFor addr internal =
    (if internal then (if IsV6 addr then InternalV6 else InternalV4)
     else if IsV6 addr then PublicV6 else PublicV4)"

section \<open>Interfaces of the machine\<close>

fun inet_sockaddr :: "sockaddr \<Rightarrow> bool" where
  "inet_sockaddr (SockaddrIn b port) = True"
| "inet_sockaddr (SockaddrIn6 b port scope) = True"
| "inet_sockaddr SockaddrOther = False"

definition IsLocallyAttached :: "ifaddr list option \<Rightarrow> IPAddress \<Rightarrow> bool" where
  "IsLocallyAttached ifs addr =
    (if \<not> IsSet addr then False
     else case ifs of
       None \<Rightarrow> False
     | Some l \<Rightarrow> list_ex (\<lambda>p. case ifa_addr p of
         None \<Rightarrow> False
       | Some sa \<Rightarrow> inet_sockaddr sa \<and> ip_eq (FromSockaddr (Some sa)) addr) l)"

fun sa_family :: "sockaddr \<Rightarrow> family" where
  "sa_family (SockaddrIn b port) = AF_INET"
| "sa_family (SockaddrIn6 b port scope) = AF_INET6"
| "sa_family SockaddrOther = AF_UNSPEC"

text \<open>The loop of \<open>FirstAnnounceableLocal\<close>, with the pair (preferred, fallback) it ends with.\<close>

fun first_local :: "family \<Rightarrow> ifaddr list \<Rightarrow> IPAddress \<Rightarrow> IPAddress \<times> IPAddress" where
  "first_local fam [] fallback = (IPAddress_new, fallback)"
| "first_local fam (p # l) fallback =
    (case ifa_addr p of
       None \<Rightarrow> first_local fam l fallback
     | Some sa \<Rightarrow>
         if \<not> ifa_up p \<or> \<not> ifa_running p then first_local fam l fallback
         else if \<not> inet_sockaddr sa then first_local fam l fallback
         else let addr = FromSockaddr (Some sa) in
           if \<not> IsAnnounceable addr then first_local fam l fallback
           else if sa_family sa = fam then (addr, fallback)
           else first_local fam l (if \<not> IsSet fallback then addr else fallback))"

definition FirstAnnounceableLocal :: "ifaddr list option \<Rightarrow> family \<Rightarrow> IPAddress" where
  "FirstAnnounceableLocal ifs fam =
    (case ifs of
       None \<Rightarrow> IPAddress_new
     | Some l \<Rightarrow>
         let (preferred, fallback) = first_local fam l IPAddress_new
         in if IsSet preferred then preferred else fallback)"

section \<open>Names\<close>

definition NameOf :: "int \<Rightarrow> string" where
  "NameOf i = (if i < 0 \<or> i \<ge> Count then [] else kNames ! nat i)"

fun find_name :: "string \<Rightarrow> string list \<Rightarrow> int \<Rightarrow> int option" where
  "find_name name [] i = None"
| "find_name name (k # ks) i = (if name = k then Some i else find_name name ks (i + 1))"

definition ParseId :: "string option \<Rightarrow> int option" where
  "ParseId arg =
    (case arg of
       None \<Rightarrow> None
     | Some name \<Rightarrow> if name = [] then None else find_name name kNames 0)"

section \<open>Configuration\<close>

definition msg_frozen :: string where
  "msg_frozen = ''la table d'adressage est deja figee''"

definition CheckBindAddress ::
  "posix \<Rightarrow> ifaddr list option \<Rightarrow> IPAddress \<Rightarrow> bool \<Rightarrow> bool \<Rightarrow> profiles \<Rightarrow> string option" where
  "CheckBindAddress px ifs addr internal requireAttached s =
    (if ap_frozen s then Some msg_frozen
     else if \<not> IsSet addr then Some ''adresse invalide''
     else if \<not> IsAnnounceable addr then
       Some (''adresse '' @ ToString px addr @ '' non annoncable (loopback, multicast, link-local ou non specifiee)'')
     else if internal \<and> IsV4 addr \<and> \<not> IsPrivateV4 addr then
       Some (''adresse interne '' @ ToString px addr
         @ '' hors des plages privees v4 (10/8, 172.16/12, 192.168/16, 100.64/10, 169.254/16)'')
     else if requireAttached \<and> \<not> IsLocallyAttached ifs addr then
       Some (''adresse '' @ ToString px addr @ '' attachee a aucune interface locale : elle ne pourra jamais etre liee'')
     else let i = IdFor addr internal in
       if p_set (profile i s) then
         Some (''profil '' @ kNames ! nat i @ '' deja renseigne ('' @ ToString px (p_bind (profile i s))
           @ '') : une seule adresse par profil'')
       else None)"

definition AddPublic :: "posix \<Rightarrow> ifaddr list option \<Rightarrow> IPAddress \<Rightarrow> profiles \<Rightarrow> string option \<times> profiles" where
  "AddPublic px ifs addr s =
    (case CheckBindAddress px ifs addr False False s of
       Some error \<Rightarrow> (Some error, s)
     | None \<Rightarrow>
         (None, set_profile (IdFor addr False)
            \<lparr>p_bind = (if IsLocallyAttached ifs addr then addr else IPAddress_new), p_announced = addr, p_set = True\<rparr> s))"

definition AddInternal :: "posix \<Rightarrow> ifaddr list option \<Rightarrow> IPAddress \<Rightarrow> profiles \<Rightarrow> string option \<times> profiles" where
  "AddInternal px ifs addr s =
    (case CheckBindAddress px ifs addr True True s of
       Some error \<Rightarrow> (Some error, s)
     | None \<Rightarrow> (None, set_profile (IdFor addr True) \<lparr>p_bind = addr, p_announced = addr, p_set = True\<rparr> s))"

definition SetNat :: "posix \<Rightarrow> IPAddress \<Rightarrow> profiles \<Rightarrow> string option \<times> profiles" where
  "SetNat px announced s =
    (if ap_frozen s then (Some msg_frozen, s)
     else if \<not> IsSet announced then (Some ''adresse NAT invalide'', s)
     else if \<not> IsV4 announced then
       (Some ''--nat n'accepte qu'une adresse IPv4 : le NAT IPv6 n'est pas supporte'', s)
     else if \<not> IsAnnounceable announced then
       (Some (''adresse NAT '' @ ToString px announced @ '' non annoncable''), s)
     else if IsSet (ap_natAddress s) then
       (Some (''--nat deja renseigne ('' @ ToString px (ap_natAddress s) @ '')''), s)
     else (None, s\<lparr>ap_natAddress := announced\<rparr>))"

definition SetDefault :: "int \<Rightarrow> profiles \<Rightarrow> string option \<times> profiles" where
  "SetDefault i s =
    (if ap_frozen s then (Some msg_frozen, s)
     else if i < 0 \<or> i \<ge> Count then (Some ''profil par defaut inconnu'', s)
     else (None, s\<lparr>ap_defaultId := i, ap_defaultSet := True\<rparr>))"

definition AvailableCount :: "profiles \<Rightarrow> nat" where
  "AvailableCount s = length (filter p_set (ap_profiles s))"

definition Freeze :: "profiles \<Rightarrow> string option \<times> profiles" where
  "Freeze s =
    (if ap_frozen s then (Some msg_frozen, s)
     else if IsSet (ap_natAddress s) \<and> \<not> p_set (profile PublicV4 s) then
       (Some ''--nat donne sans adresse publique v4 : preciser --public-ip <adresse locale>'', s)
     else let s = (if IsSet (ap_natAddress s)
                   then set_profile PublicV4 ((profile PublicV4 s)\<lparr>p_announced := ap_natAddress s\<rparr>) s else s) in
       if AvailableCount s = 0 then (Some ''aucun profil d'adressage disponible'', s)
       else if \<not> p_set (profile (ap_defaultId s) s) then
         (Some (''profil par defaut '' @ kNames ! nat (ap_defaultId s) @ '' indisponible''
            @ (if ap_defaultSet s then [] else '' (defaut historique : preciser --default-profile)'')), s)
       else (None, s\<lparr>ap_frozen := True\<rparr>))"

section \<open>Reading\<close>

definition IsAvailable :: "int \<Rightarrow> profiles \<Rightarrow> bool" where
  "IsAvailable i s = (if i < 0 \<or> i \<ge> Count then False else p_set (profile i s))"

definition BindAddress :: "int \<Rightarrow> profiles \<Rightarrow> IPAddress" where
  "BindAddress i s = (if i < 0 \<or> i \<ge> Count \<or> \<not> p_set (profile i s) then IPAddress_new else p_bind (profile i s))"

definition AnnouncedAddress :: "int \<Rightarrow> profiles \<Rightarrow> IPAddress" where
  "AnnouncedAddress i s =
    (if i < 0 \<or> i \<ge> Count \<or> \<not> p_set (profile i s) then IPAddress_new else p_announced (profile i s))"

definition Default :: "profiles \<Rightarrow> int" where
  "Default s = ap_defaultId s"

definition describe_profile :: "posix \<Rightarrow> profiles \<Rightarrow> int \<Rightarrow> string" where
  "describe_profile px s i =
    kNames ! nat i @ '' : '' @
    (let p = profile i s in
     if \<not> p_set p then ''indisponible''
     else (if IsSet (p_bind p) then ''bind '' @ ToString px (p_bind p) else ''bind toutes interfaces'')
       @ (if \<not> ip_eq (p_announced p) (p_bind p)
          then '', annoncee '' @ ToString px (p_announced p) @ (if IsSet (p_bind p) then '' (NAT)'' else []) else [])
       @ (if i = InternalV6 \<and> \<not> IsUniqueLocalV6 (p_bind p)
          then '', unicast global (protection par filtrage uniquement)'' else []))
    @ (if i = ap_defaultId s then '' [defaut]'' else []) @ [CHR 0x0A]"

definition Describe :: "posix \<Rightarrow> profiles \<Rightarrow> string" where
  "Describe px s = concat (map (describe_profile px s) [0, 1, 2, 3])"

section \<open>What the table holds\<close>

inductive profile_step :: "posix \<Rightarrow> profiles \<Rightarrow> profiles \<Rightarrow> bool" for px where
  profile_public: "AddPublic px ifs addr s = (err, s') \<Longrightarrow> profile_step px s s'"
| profile_internal: "AddInternal px ifs addr s = (err, s') \<Longrightarrow> profile_step px s s'"
| profile_nat: "SetNat px addr s = (err, s') \<Longrightarrow> profile_step px s s'"
| profile_default: "SetDefault i s = (err, s') \<Longrightarrow> profile_step px s s'"
| profile_freeze: "Freeze s = (err, s') \<Longrightarrow> profile_step px s s'"

inductive_cases profile_stepE: "profile_step px s s'"

definition profile_ok :: "IPAddress \<Rightarrow> int \<Rightarrow> Profile \<Rightarrow> bool" where
  "profile_ok natAddress i p \<longleftrightarrow> p_set p \<longrightarrow>
     IsAnnounceable (p_announced p)
     \<and> (IsV6 (p_announced p) \<longleftrightarrow> i = PublicV6 \<or> i = InternalV6)
     \<and> (i = InternalV4 \<or> i = InternalV6 \<longrightarrow> p_bind p = p_announced p)
     \<and> (i = InternalV4 \<longrightarrow> IsPrivateV4 (p_bind p))
     \<and> (p_bind p = IPAddress_new \<or> p_bind p = p_announced p \<or> i = PublicV4 \<and> IsSet natAddress \<and> p_announced p = natAddress)"

definition profiles_inv :: "profiles \<Rightarrow> bool" where
  "profiles_inv s \<longleftrightarrow> length (ap_profiles s) = 4 \<and> 0 \<le> ap_defaultId s \<and> ap_defaultId s < Count
     \<and> (IsSet (ap_natAddress s) \<longrightarrow> IsV4 (ap_natAddress s) \<and> IsAnnounceable (ap_natAddress s))
     \<and> (\<forall>i. 0 \<le> i \<and> i < Count \<longrightarrow> profile_ok (ap_natAddress s) i (profile i s))
     \<and> (ap_frozen s \<longrightarrow> p_set (profile (ap_defaultId s) s)
          \<and> (IsSet (ap_natAddress s) \<longrightarrow> p_set (profile PublicV4 s) \<and> p_announced (profile PublicV4 s) = ap_natAddress s))"

lemma IdFor_range: "0 \<le> IdFor addr internal" "IdFor addr internal < Count"
  by (simp_all add: IdFor_def ids)

lemma profile_set_profile:
  assumes "length (ap_profiles s) = 4" and "0 \<le> i" and "i < Count" and "0 \<le> j" and "j < Count"
  shows "profile j (set_profile i p s) = (if i = j then p else profile j s)"
  using assms by (auto simp: profile_def set_profile_def Count_def nth_list_update eq_nat_nat_iff)

lemma set_profile_fields [simp]:
  "ap_natAddress (set_profile i p s) = ap_natAddress s" "ap_defaultId (set_profile i p s) = ap_defaultId s"
  "ap_defaultSet (set_profile i p s) = ap_defaultSet s" "ap_frozen (set_profile i p s) = ap_frozen s"
  "length (ap_profiles (set_profile i p s)) = length (ap_profiles s)"
  by (simp_all add: set_profile_def)

lemma inv_set_profile:
  assumes "profiles_inv s" and "\<not> ap_frozen s" and "0 \<le> i" and "i < Count" and "profile_ok (ap_natAddress s) i p"
  shows "profiles_inv (set_profile i p s)"
  using assms by (auto simp: profiles_inv_def profile_set_profile)

lemma Check_None:
  assumes "CheckBindAddress px ifs addr internal requireAttached s = None"
  shows "\<not> ap_frozen s" "IsAnnounceable addr" "internal \<Longrightarrow> IsV4 addr \<Longrightarrow> IsPrivateV4 addr"
    "requireAttached \<Longrightarrow> IsLocallyAttached ifs addr" "\<not> p_set (profile (IdFor addr internal) s)"
  using assms by (auto simp: CheckBindAddress_def Let_def split: if_splits)

lemma v4_or_v6: "IsAnnounceable addr \<Longrightarrow> \<not> IsV6 addr \<Longrightarrow> IsV4 addr"
  by (cases "ip_family addr") (auto simp: IsAnnounceable_def IsSet_def IsV4_def IsV6_def)

lemma inv_AddPublic: "profiles_inv s \<Longrightarrow> AddPublic px ifs addr s = (err, s') \<Longrightarrow> profiles_inv s'"
  using IdFor_range [of addr False]
  by (auto simp: AddPublic_def split: option.splits intro!: inv_set_profile dest: Check_None)
     (auto simp: profile_ok_def IdFor_def ids dest: Check_None)

lemma inv_AddInternal: "profiles_inv s \<Longrightarrow> AddInternal px ifs addr s = (err, s') \<Longrightarrow> profiles_inv s'"
  using IdFor_range [of addr True]
  by (auto simp: AddInternal_def split: option.splits intro!: inv_set_profile dest: Check_None)
     (auto simp: profile_ok_def IdFor_def ids dest: Check_None v4_or_v6)

lemma inv_SetNat: "profiles_inv s \<Longrightarrow> SetNat px addr s = (err, s') \<Longrightarrow> profiles_inv s'"
  by (auto simp: SetNat_def profiles_inv_def profile_ok_def profile_def split: if_splits)

lemma inv_SetDefault: "profiles_inv s \<Longrightarrow> SetDefault i s = (err, s') \<Longrightarrow> profiles_inv s'"
  by (auto simp: SetDefault_def profiles_inv_def profile_def split: if_splits)

definition with_nat :: "profiles \<Rightarrow> profiles" where
  "with_nat s = (if IsSet (ap_natAddress s)
     then set_profile PublicV4 ((profile PublicV4 s)\<lparr>p_announced := ap_natAddress s\<rparr>) s else s)"

lemma with_nat_fields [simp]:
  "ap_natAddress (with_nat s) = ap_natAddress s" "ap_defaultId (with_nat s) = ap_defaultId s"
  "ap_frozen (with_nat s) = ap_frozen s"
  by (simp_all add: with_nat_def)

lemma inv_with_nat:
  assumes "profiles_inv s" and "\<not> ap_frozen s" and "IsSet (ap_natAddress s) \<longrightarrow> p_set (profile PublicV4 s)"
  shows "profiles_inv (with_nat s)"
proof (cases "IsSet (ap_natAddress s)")
  case True
  with assms(1) have n: "IsV4 (ap_natAddress s)" "IsAnnounceable (ap_natAddress s)" by (auto simp: profiles_inv_def)
  have "profile_ok (ap_natAddress s) PublicV4 ((profile PublicV4 s)\<lparr>p_announced := ap_natAddress s\<rparr>)"
    using n True by (auto simp: profile_ok_def ids IsV4_def IsV6_def)
  with assms(1,2) True show ?thesis
    by (auto simp: with_nat_def ids intro!: inv_set_profile)
qed (use assms(1) in \<open>simp add: with_nat_def\<close>)

lemma inv_Freeze:
  assumes "profiles_inv s" and "Freeze s = (err, s')"
  shows "profiles_inv s'"
proof (cases "ap_frozen s \<or> IsSet (ap_natAddress s) \<and> \<not> p_set (profile PublicV4 s)")
  case True
  with assms show ?thesis by (auto simp: Freeze_def split: if_splits)
next
  case False
  with assms(1) have i: "profiles_inv (with_nat s)" by (intro inv_with_nat) auto
  have nat: "p_set (profile PublicV4 (with_nat s)) \<and> p_announced (profile PublicV4 (with_nat s)) = ap_natAddress s"
    if "IsSet (ap_natAddress s)"
    using that False assms(1) by (simp add: with_nat_def profiles_inv_def profile_set_profile ids)
  have "s' = with_nat s \<or> p_set (profile (ap_defaultId s) (with_nat s)) \<and> s' = (with_nat s)\<lparr>ap_frozen := True\<rparr>"
    using assms(2) False unfolding Freeze_def with_nat_def [symmetric] by (auto simp: Let_def split: if_splits)
  then show ?thesis
  proof
    assume "p_set (profile (ap_defaultId s) (with_nat s)) \<and> s' = (with_nat s)\<lparr>ap_frozen := True\<rparr>"
    with i nat show ?thesis by (simp add: profiles_inv_def profile_def)
  qed (use i in simp)
qed

lemma inv_Reset: "profiles_inv Reset"
  by (auto simp: profiles_inv_def Reset_def profile_ok_def profile_def Profile_new_def IsSet_def ids nth_Cons')

lemmas inv_profile_ops = inv_AddPublic inv_AddInternal inv_SetNat inv_SetDefault inv_Freeze

interpretation ap: invariant_system "\<lambda>s. s = Reset" "profile_step px" profiles_inv for px
  by unfold_locales (auto simp: inv_Reset elim!: profile_stepE intro: inv_profile_ops)

text \<open>
  C29. Whatever options were given, in whatever order, every available profile announces an
  address a peer can use, of the family of the profile; an internal profile binds what it
  announces, and an internal IPv4 address is private; a public profile binds what it announces
  or nothing, unless it is the IPv4 one behind a NAT. Once frozen, the default profile is
  available and the NAT address is what the public IPv4 profile announces.
\<close>

theorem profiles_valid:
  assumes "(profile_step px)\<^sup>*\<^sup>* Reset s" and "IsAvailable i s"
  shows "IsAnnounceable (AnnouncedAddress i s)
    \<and> (IsV6 (AnnouncedAddress i s) \<longleftrightarrow> i = PublicV6 \<or> i = InternalV6)
    \<and> (i = InternalV4 \<or> i = InternalV6 \<longrightarrow> BindAddress i s = AnnouncedAddress i s)
    \<and> (i = InternalV4 \<longrightarrow> IsPrivateV4 (BindAddress i s))
    \<and> (BindAddress i s \<noteq> IPAddress_new \<and> BindAddress i s \<noteq> AnnouncedAddress i s \<longrightarrow>
        i = PublicV4 \<and> AnnouncedAddress i s = ap_natAddress s)
    \<and> (ap_frozen s \<longrightarrow> IsAvailable (Default s) s
        \<and> (IsSet (ap_natAddress s) \<longrightarrow> AnnouncedAddress PublicV4 s = ap_natAddress s))"
proof -
  have inv: "profiles_inv s" using ap.reachable_inv [OF refl assms(1)] .
  have i: "0 \<le> i" "i < Count" "p_set (profile i s)"
    using assms(2) by (auto simp: IsAvailable_def split: if_splits)
  with inv have "profile_ok (ap_natAddress s) i (profile i s)" by (simp add: profiles_inv_def)
  moreover have "AnnouncedAddress i s = p_announced (profile i s)" "BindAddress i s = p_bind (profile i s)"
    using i by (simp_all add: AnnouncedAddress_def BindAddress_def)
  moreover have "ap_frozen s \<longrightarrow> IsAvailable (Default s) s
      \<and> (IsSet (ap_natAddress s) \<longrightarrow> AnnouncedAddress PublicV4 s = ap_natAddress s)"
    using inv by (auto simp: profiles_inv_def IsAvailable_def Default_def AnnouncedAddress_def ids)
  ultimately show ?thesis
    using i(3) by (auto simp: profile_ok_def)
qed

definition behind_nat :: profiles where
  "behind_nat = snd (Freeze (snd (SetNat small_posix (v4net 198 100 0 1)
     (snd (AddPublic small_posix (Some [\<lparr>ifa_addr = Some (SockaddrIn [10, 0, 0, 5] 0), ifa_up = True, ifa_running = True\<rparr>])
        (v4net 10 0 0 5) Reset)))))"

lemma behind_nat_steps: "(profile_step px)\<^sup>*\<^sup>* Reset s \<Longrightarrow> (profile_step px)\<^sup>*\<^sup>* Reset (snd (Freeze s))"
  "(profile_step px)\<^sup>*\<^sup>* Reset s \<Longrightarrow> (profile_step px)\<^sup>*\<^sup>* Reset (snd (SetNat px addr s))"
  "(profile_step px)\<^sup>*\<^sup>* Reset s \<Longrightarrow> (profile_step px)\<^sup>*\<^sup>* Reset (snd (AddPublic px ifs addr s))"
  by (auto intro: rtranclp.rtrancl_into_rtrancl profile_step.intros prod.collapse [symmetric])

theorem profiles_valid_witness:
  "AnnouncedAddress PublicV4 behind_nat = v4net 198 100 0 1 \<and> BindAddress PublicV4 behind_nat = v4net 10 0 0 5
    \<and> ap_frozen behind_nat \<and> IsAnnounceable (AnnouncedAddress PublicV4 behind_nat)"
proof -
  have "(profile_step small_posix)\<^sup>*\<^sup>* Reset behind_nat"
    unfolding behind_nat_def by (intro behind_nat_steps) simp
  moreover have "IsAvailable PublicV4 behind_nat" by code_simp
  moreover have "AnnouncedAddress PublicV4 behind_nat = v4net 198 100 0 1" "BindAddress PublicV4 behind_nat = v4net 10 0 0 5"
    "ap_frozen behind_nat"
    by code_simp+
  ultimately show ?thesis
    using profiles_valid [of small_posix behind_nat PublicV4] by blast
qed

section \<open>The order of the options\<close>

datatype option_line =
    PublicIp IPAddress
  | InternalIp IPAddress
  | NatIp IPAddress
  | DefaultProfile int

fun configure :: "posix \<Rightarrow> ifaddr list option \<Rightarrow> option_line \<Rightarrow> profiles \<Rightarrow> string option \<times> profiles" where
  "configure px ifs (PublicIp addr) s = AddPublic px ifs addr s"
| "configure px ifs (InternalIp addr) s = AddInternal px ifs addr s"
| "configure px ifs (NatIp addr) s = SetNat px addr s"
| "configure px ifs (DefaultProfile i) s = SetDefault i s"

text \<open>The start of the server stops at the first option that is refused.\<close>

definition accept :: "posix \<Rightarrow> ifaddr list option \<Rightarrow> option_line \<Rightarrow> profiles \<Rightarrow> profiles option" where
  "accept px ifs l s = (case configure px ifs l s of (None, s') \<Rightarrow> Some s' | (Some error, s') \<Rightarrow> None)"

text \<open>The profile an address option fills, if the address is acceptable at all.\<close>

fun fills :: "ifaddr list option \<Rightarrow> option_line \<Rightarrow> (int \<times> Profile) option" where
  "fills ifs (PublicIp addr) = (if IsAnnounceable addr
     then Some (IdFor addr False, \<lparr>p_bind = (if IsLocallyAttached ifs addr then addr else IPAddress_new), p_announced = addr, p_set = True\<rparr>)
     else None)"
| "fills ifs (InternalIp addr) = (if IsAnnounceable addr \<and> (IsV4 addr \<longrightarrow> IsPrivateV4 addr) \<and> IsLocallyAttached ifs addr
     then Some (IdFor addr True, \<lparr>p_bind = addr, p_announced = addr, p_set = True\<rparr>) else None)"
| "fills ifs _ = None"

lemma IsAnnounceable_IsSet: "IsAnnounceable addr \<Longrightarrow> IsSet addr"
  by (simp add: IsAnnounceable_def split: if_splits)

lemma accept_address:
  assumes "l = PublicIp addr \<or> l = InternalIp addr"
  shows "accept px ifs l s = Some t \<longleftrightarrow> (\<exists>i p. fills ifs l = Some (i, p) \<and> \<not> ap_frozen s \<and> \<not> p_set (profile i s) \<and> t = set_profile i p s)"
  using assms IsAnnounceable_IsSet [of addr]
  by (auto simp: accept_def AddPublic_def AddInternal_def CheckBindAddress_def Let_def split: option.splits if_splits)

lemma accept_nat:
  "accept px ifs (NatIp addr) s = Some t \<longleftrightarrow> \<not> ap_frozen s \<and> IsV4 addr \<and> IsAnnounceable addr \<and> \<not> IsSet (ap_natAddress s)
     \<and> t = s\<lparr>ap_natAddress := addr\<rparr>"
  using IsAnnounceable_IsSet [of addr] by (auto simp: accept_def SetNat_def split: if_splits)

lemma accept_default:
  "accept px ifs (DefaultProfile i) s = Some t \<longleftrightarrow> \<not> ap_frozen s \<and> 0 \<le> i \<and> i < Count
     \<and> t = s\<lparr>ap_defaultId := i, ap_defaultSet := True\<rparr>"
  by (auto simp: accept_def SetDefault_def split: if_splits)

lemma fills_range: "fills ifs l = Some (i, p) \<Longrightarrow> 0 \<le> i \<and> i < Count \<and> p_set p"
  by (cases l) (auto split: if_splits simp: IdFor_range)

lemma set_profile_swap: "nat i \<noteq> nat j \<Longrightarrow> set_profile i p (set_profile j q s) = set_profile j q (set_profile i p s)"
  by (simp add: set_profile_def list_update_swap)

lemma profile_updates [simp]:
  "profile i (s\<lparr>ap_natAddress := a\<rparr>) = profile i s" "profile i (s\<lparr>ap_defaultId := d, ap_defaultSet := b\<rparr>) = profile i s"
  by (simp_all add: profile_def)

lemma accept_swap:
  assumes "length (ap_profiles s) = 4" and "accept px ifs x s = Some s1" and "accept px ifs y s1 = Some s2"
    and "\<And>i j. x = DefaultProfile i \<Longrightarrow> y = DefaultProfile j \<Longrightarrow> i = j"
  shows "\<exists>s1'. accept px ifs y s = Some s1' \<and> accept px ifs x s1' = Some s2"
proof -
  consider (a) a where "x = PublicIp a \<or> x = InternalIp a" | (n) a where "x = NatIp a" | (d) i where "x = DefaultProfile i"
    by (cases x) auto
  note x = this
  consider (a) a where "y = PublicIp a \<or> y = InternalIp a" | (n) a where "y = NatIp a" | (d) i where "y = DefaultProfile i"
    by (cases y) auto
  note y = this
  show ?thesis
  proof (cases rule: x)
    case (a addr)
    note xa = accept_address [OF a, of px ifs]
    from assms(2) obtain i p where x1: "fills ifs x = Some (i, p)" "\<not> ap_frozen s" "\<not> p_set (profile i s)" "s1 = set_profile i p s"
      using xa by blast
    show ?thesis
    proof (cases rule: y)
      case (a addr')
      note ya = accept_address [OF a, of px ifs]
      from assms(3) obtain j q where y1: "fills ifs y = Some (j, q)" "\<not> p_set (profile j s1)" "s2 = set_profile j q s1"
        using ya by blast
      note r = fills_range [OF x1(1)] fills_range [OF y1(1)]
      have "i \<noteq> j" using y1(2) x1(4) r assms(1) by (auto simp: profile_set_profile)
      with r assms(1) x1 y1 show ?thesis
        by (auto simp: xa ya profile_set_profile set_profile_swap eq_nat_nat_iff)
    qed (use assms(3) x1 in \<open>auto simp: xa accept_nat accept_default, auto simp: set_profile_def\<close>)
  next
    case (n addr)
    show ?thesis
    proof (cases rule: y)
      case (a addr')
      note ya = accept_address [OF a, of px ifs]
      show ?thesis using assms(2,3) n by (auto simp: accept_nat ya) (auto simp: set_profile_def)
    qed (use assms(2,3) n in \<open>auto simp: accept_nat accept_default dest: IsAnnounceable_IsSet\<close>)
  next
    case (d i)
    show ?thesis
    proof (cases rule: y)
      case (a addr')
      note ya = accept_address [OF a, of px ifs]
      show ?thesis using assms(2,3) d by (auto simp: accept_default ya) (auto simp: set_profile_def)
    qed (use assms(2-4) d in \<open>auto simp: accept_nat accept_default\<close>)
  qed
qed

lemma accept_length: "accept px ifs l s = Some t \<Longrightarrow> length (ap_profiles s) = 4 \<Longrightarrow> length (ap_profiles t) = 4"
  by (cases l) (auto simp: accept_address accept_nat accept_default)

text \<open>If neighbours in a loop can be swapped, an element can be moved to the front, and the order does not matter.\<close>

lemma foldM_front:
  assumes "foldM f (ys @ x # zs) s = Some t" and "P s"
    and "\<And>y s s1. y \<in> set ys \<Longrightarrow> P s \<Longrightarrow> f y s = Some s1 \<Longrightarrow> P s1"
    and "\<And>y s s1 s2. y \<in> set ys \<Longrightarrow> P s \<Longrightarrow> f y s = Some s1 \<Longrightarrow> f x s1 = Some s2 \<Longrightarrow>
      \<exists>s1'. f x s = Some s1' \<and> f y s1' = Some s2"
  shows "foldM f (x # ys @ zs) s = Some t"
  using assms
proof (induction ys arbitrary: s)
  case (Cons y ys)
  from Cons.prems(1) obtain s1 where s1: "f y s = Some s1" "foldM f (ys @ x # zs) s1 = Some t"
    by (auto simp del: foldM_append split: option.splits)
  have "P s1" using Cons.prems(3) [of y s s1] Cons.prems(2) s1(1) by simp
  from Cons.IH [OF s1(2) this] Cons.prems(3,4) have "foldM f (x # ys @ zs) s1 = Some t" by auto
  then obtain s2 where s2: "f x s1 = Some s2" "foldM f (ys @ zs) s2 = Some t"
    by (auto simp del: foldM_append split: option.splits)
  from Cons.prems(4) [of y s s1 s2] Cons.prems(2) s1(1) s2(1) obtain s1' where "f x s = Some s1'" "f y s1' = Some s2"
    by auto
  with s2(2) show ?case by (simp del: foldM_append)
qed simp

lemma foldM_permute:
  assumes "mset xs = mset ys" and "foldM f xs s = Some t" and "P s"
    and "\<And>x s s1. x \<in> set xs \<Longrightarrow> P s \<Longrightarrow> f x s = Some s1 \<Longrightarrow> P s1"
    and "\<And>x y s s1 s2. x \<in> set xs \<Longrightarrow> y \<in> set xs \<Longrightarrow> P s \<Longrightarrow> f y s = Some s1 \<Longrightarrow> f x s1 = Some s2 \<Longrightarrow>
      \<exists>s1'. f x s = Some s1' \<and> f y s1' = Some s2"
  shows "foldM f ys s = Some t"
  using assms
proof (induction ys arbitrary: xs s)
  case (Cons y ys)
  have "y \<in> set xs" using Cons.prems(1) by (metis list.set_intros(1) set_mset_mset)
  then obtain as bs where xs: "xs = as @ y # bs" by (meson split_list)
  have sub: "set as \<subseteq> set xs" "set (as @ bs) \<subseteq> set xs" by (auto simp: xs)
  have "foldM f (y # as @ bs) s = Some t"
  proof (rule foldM_front [where P = P])
    show "foldM f (as @ y # bs) s = Some t" using Cons.prems(2) xs by (simp del: foldM_append)
    show "P s" by (rule Cons.prems(3))
    show "P v'" if "u \<in> set as" "P v" "f u v = Some v'" for u v v'
      using Cons.prems(4) [of u] that sub(1) by blast
    show "\<exists>s1'. f y v = Some s1' \<and> f u s1' = Some v2"
      if "u \<in> set as" "P v" "f u v = Some v1" "f y v1 = Some v2" for u v v1 v2
      using Cons.prems(5) [of y u] that sub(1) \<open>y \<in> set xs\<close> by blast
  qed
  then obtain s1 where s1: "f y s = Some s1" "foldM f (as @ bs) s1 = Some t"
    by (auto simp del: foldM_append split: option.splits)
  have "foldM f ys s1 = Some t"
  proof (rule Cons.IH [OF _ s1(2)])
    show "mset (as @ bs) = mset ys" using Cons.prems(1) xs by simp
    show "P s1" by (rule Cons.prems(4) [OF \<open>y \<in> set xs\<close> Cons.prems(3) s1(1)])
    show "P v'" if "u \<in> set (as @ bs)" "P v" "f u v = Some v'" for u v v'
      using Cons.prems(4) [of u] that sub(2) by blast
    show "\<exists>s1'. f w v = Some s1' \<and> f u s1' = Some v2"
      if "w \<in> set (as @ bs)" "u \<in> set (as @ bs)" "P v" "f u v = Some v1" "f w v1 = Some v2" for u w v v1 v2
      using Cons.prems(5) [of w u] that sub(2) by blast
  qed
  with s1(1) show ?case by simp
qed simp

text \<open>
  The order of the options does not matter: if the server starts with some options, it starts
  with the same options in any other order, with the same table. The only option for which the
  order counts is \<open>--default-profile\<close> given twice with different profiles, where the last one
  wins.
\<close>

theorem option_order:
  assumes "mset ls = mset ls'" and "foldM (accept px ifs) ls Reset = Some s"
    and "\<And>i j. DefaultProfile i \<in> set ls \<Longrightarrow> DefaultProfile j \<in> set ls \<Longrightarrow> i = j"
  shows "foldM (accept px ifs) ls' Reset = Some s"
proof (rule foldM_permute [OF assms(1,2), where P = "\<lambda>s. length (ap_profiles s) = 4"])
  show "length (ap_profiles Reset) = 4" by (simp add: Reset_def)
qed (use accept_length accept_swap assms(3) in blast)+

definition start_lines :: "option_line list" where
  "start_lines = [NatIp (v4net 198 100 0 1), PublicIp (v4net 10 0 0 5), DefaultProfile PublicV6, PublicIp (v6net [0x2A, 0x01])]"

theorem option_order_witness:
  "foldM (accept small_posix None) (rev start_lines) Reset = foldM (accept small_posix None) start_lines Reset
    \<and> foldM (accept small_posix None) start_lines Reset \<noteq> None"
proof -
  have s: "foldM (accept small_posix None) start_lines Reset \<noteq> None" by code_simp
  then obtain s where "foldM (accept small_posix None) start_lines Reset = Some s" by blast
  with option_order [of start_lines "rev start_lines" small_posix None s] show ?thesis
    by (simp add: start_lines_def)
qed

end
