(* ===== verification/Reactor.thy ===== *)
theory Reactor
  imports Prelude
begin

text \<open>
  The reactor that drives the transports: \<open>RtpSessionSet\<close> (\<open>rtpsessionset.cpp\<close>), one thread and one
  \<open>poll\<close> for a group of \<open>PollHandler\<close>s.

  Handlers are numbers. The first part is the table of one turn: which descriptors go to \<open>poll\<close>,
  with which timeout, and which part of the table each handler gets back. The second part is the
  interleaving of the reactor thread with the threads that add and remove handlers: a step is what
  one thread does under the mutex, or the call of one method of a handler. \<open>g_gone\<close> is not in the
  code; it holds the handlers whose \<open>Remove\<close> has returned and that were not added again, so that
  their owner may have destroyed them.
\<close>

section \<open>One turn\<close>

type_synonym hid = nat

type_synonym pfd = "int \<times> int"

record Entry =
  en_handler :: hid
  en_offset :: nat
  en_count :: nat
  en_alive :: bool

definition MaxPollFds :: nat where
  "MaxPollFds = 4"

text \<open>The snapshot at the start of a turn.\<close>

definition snapshot :: "hid list \<Rightarrow> Entry list" where
  "snapshot handlers = map (\<lambda>h. \<lparr>en_handler = h, en_offset = 0, en_count = 0, en_alive = True\<rparr>) handlers"

text \<open>
  The loop that asks every handler for its descriptors and its timeout. \<open>GetPollFds\<close> writes at most
  \<open>MaxPollFds\<close> of them; a larger answer is cut.
\<close>

fun collect :: "(hid \<Rightarrow> pfd list) \<Rightarrow> (hid \<Rightarrow> int) \<Rightarrow> Entry list \<Rightarrow> pfd list \<Rightarrow> int \<Rightarrow> Entry list \<times> pfd list \<times> int" where
  "collect GetPollFds GetNextTimeoutMs [] fds timeout = ([], fds, timeout)"
| "collect GetPollFds GetNextTimeoutMs (e # es) fds timeout =
    (let mine = take MaxPollFds (GetPollFds (en_handler e));
         t = GetNextTimeoutMs (en_handler e);
         (es', fds', timeout') = collect GetPollFds GetNextTimeoutMs es (fds @ mine)
            (if 0 \<le> t \<and> (timeout < 0 \<or> t < timeout) then t else timeout)
     in (e\<lparr>en_offset := length fds, en_count := length mine\<rparr> # es', fds', timeout'))"

text \<open>The descriptor that wakes the reactor comes first; without a timeout \<open>poll\<close> waits for ever.\<close>

definition poll_table :: "pfd \<Rightarrow> (hid \<Rightarrow> pfd list) \<Rightarrow> (hid \<Rightarrow> int) \<Rightarrow> hid list \<Rightarrow> Entry list \<times> pfd list \<times> int" where
  "poll_table wake GetPollFds GetNextTimeoutMs handlers =
    collect GetPollFds GetNextTimeoutMs (snapshot handlers) [wake] (-1)"

text \<open>What \<open>OnPollEvents\<close> is given: \<open>count\<close> results from \<open>offset\<close> on.\<close>

definition own_results :: "'r list \<Rightarrow> Entry \<Rightarrow> 'r list" where
  "own_results revents e = take (en_count e) (drop (en_offset e) revents)"

lemma collect_spec:
  "collect g n es fds timeout = (es', fds', timeout') \<Longrightarrow>
    (\<exists>more. fds' = fds @ more \<and> more = concat (map (\<lambda>e. take MaxPollFds (g (en_handler e))) es))
    \<and> list_all2 (\<lambda>e e'. en_handler e' = en_handler e \<and> en_alive e' = en_alive e
        \<and> own_results fds' e' = take MaxPollFds (g (en_handler e))) es es'"
proof (induction g n es fds timeout arbitrary: es' fds' timeout' rule: collect.induct)
  case (2 g n e es fds timeout)
  define mine where "mine = take MaxPollFds (g (en_handler e))"
  obtain a b c where c: "collect g n es (fds @ mine)
      (if 0 \<le> n (en_handler e) \<and> (timeout < 0 \<or> n (en_handler e) < timeout) then n (en_handler e) else timeout) = (a, b, c)"
    by (metis prod_cases3)
  from 2(1) [OF mine_def refl c] 2(2) c show ?case
    by (auto simp: Let_def mine_def [symmetric]) (simp add: own_results_def)
qed (simp add: own_results_def)

lemma collect_timeout:
  "collect g n es fds timeout = (es', fds', timeout') \<Longrightarrow>
    (timeout' < 0 \<longleftrightarrow> timeout < 0 \<and> (\<forall>e \<in> set es. n (en_handler e) < 0))
    \<and> (timeout < 0 \<or> timeout' \<le> timeout)
    \<and> (\<forall>e \<in> set es. 0 \<le> n (en_handler e) \<longrightarrow> timeout' \<le> n (en_handler e))
    \<and> (timeout' = timeout \<or> (\<exists>e \<in> set es. timeout' = n (en_handler e) \<and> 0 \<le> timeout'))"
proof (induction g n es fds timeout arbitrary: es' fds' timeout' rule: collect.induct)
  case (2 g n e es fds timeout)
  let ?mine = "take MaxPollFds (g (en_handler e))"
  let ?t = "if 0 \<le> n (en_handler e) \<and> (timeout < 0 \<or> n (en_handler e) < timeout) then n (en_handler e) else timeout"
  obtain a b c where c: "collect g n es (fds @ ?mine) ?t = (a, b, c)"
    by (metis prod_cases3)
  from 2(2) c have "timeout' = c" by (simp add: Let_def)
  with 2(1) [OF refl refl c] show ?case
    by (auto split: if_splits)
qed simp

text \<open>
  The table of a turn. Every handler of the group is asked once, in order, and gets back exactly
  the results of its own descriptors, in the order it gave them, whatever the others ask for; the
  first descriptor is the one that wakes the reactor; the timeout of \<open>poll\<close> is the smallest one a
  handler asks for, and there is none only if no handler asks for one.
\<close>

theorem turn_table:
  assumes "poll_table wake GetPollFds GetNextTimeoutMs handlers = (inUse, fds, timeout)" and "length revents = length fds"
  shows "map en_handler inUse = handlers \<and> hd fds = wake
    \<and> (\<forall>e \<in> set inUse. map fst (own_results (zip fds revents) e) = take MaxPollFds (GetPollFds (en_handler e))
        \<and> map snd (own_results (zip fds revents) e) = own_results revents e)
    \<and> (if \<forall>h \<in> set handlers. GetNextTimeoutMs h < 0 then timeout = -1
       else timeout = Min (set (filter (\<lambda>t. 0 \<le> t) (map GetNextTimeoutMs handlers))))"
proof -
  have s: "map en_handler (snapshot handlers) = handlers" by (simp add: snapshot_def comp_def)
  from collect_spec [of GetPollFds GetNextTimeoutMs "snapshot handlers" "[wake]" "-1"] assms(1)
  have c: "\<exists>more. fds = [wake] @ more"
    and l: "list_all2 (\<lambda>e e'. en_handler e' = en_handler e \<and> en_alive e' = en_alive e
        \<and> own_results fds e' = take MaxPollFds (GetPollFds (en_handler e))) (snapshot handlers) inUse"
    by (auto simp: poll_table_def)
  have h: "map en_handler inUse = handlers"
    using l s by (simp add: list_all2_conv_all_nth) (metis nth_equalityI length_map nth_map)
  have o: "\<forall>e \<in> set inUse. own_results fds e = take MaxPollFds (GetPollFds (en_handler e))"
    using l by (auto simp: list_all2_conv_all_nth in_set_conv_nth)
  have z: "map fst (own_results (zip fds revents) e) = own_results fds e" "map snd (own_results (zip fds revents) e) = own_results revents e" for e
    using assms(2) by (simp_all add: own_results_def take_map [symmetric] drop_map [symmetric])
  have "timeout < 0 \<longleftrightarrow> (\<forall>e \<in> set (snapshot handlers). GetNextTimeoutMs (en_handler e) < 0)"
    "\<forall>e \<in> set (snapshot handlers). 0 \<le> GetNextTimeoutMs (en_handler e) \<longrightarrow> timeout \<le> GetNextTimeoutMs (en_handler e)"
    "timeout = -1 \<or> (\<exists>e \<in> set (snapshot handlers). timeout = GetNextTimeoutMs (en_handler e) \<and> 0 \<le> timeout)"
    using collect_timeout [OF assms(1) [unfolded poll_table_def]] by simp_all
  then have t: "timeout < 0 \<longleftrightarrow> (\<forall>h \<in> set handlers. GetNextTimeoutMs h < 0)"
    "\<forall>h \<in> set handlers. 0 \<le> GetNextTimeoutMs h \<longrightarrow> timeout \<le> GetNextTimeoutMs h"
    "timeout = -1 \<or> timeout \<in> GetNextTimeoutMs ` set handlers \<and> 0 \<le> timeout"
    by (auto simp: snapshot_def)
  have "timeout = Min (set (filter (\<lambda>t. 0 \<le> t) (map GetNextTimeoutMs handlers)))" if "\<not> (\<forall>h \<in> set handlers. GetNextTimeoutMs h < 0)"
    using t that by (intro Min_eqI [symmetric]) auto
  moreover have "timeout = -1" if "\<forall>h \<in> set handlers. GetNextTimeoutMs h < 0"
    using that t by auto
  ultimately show ?thesis
    using h o z c by auto
qed

definition sample_fds :: "hid \<Rightarrow> pfd list" where
  "sample_fds h = (if h = 3 then [(30, 1), (31, 1)] else if h = 5 then [] else [(70, 3)])"

theorem turn_table_witness:
  "poll_table (9, 1) sample_fds (\<lambda>h. if h = 5 then 40 else -1) [3, 5, 7] =
     ([\<lparr>en_handler = 3, en_offset = 1, en_count = 2, en_alive = True\<rparr>, \<lparr>en_handler = 5, en_offset = 3, en_count = 0, en_alive = True\<rparr>,
       \<lparr>en_handler = 7, en_offset = 3, en_count = 1, en_alive = True\<rparr>], [(9, 1), (30, 1), (31, 1), (70, 3)], 40)
   \<and> own_results [0, 1, 0, 4 :: int] \<lparr>en_handler = 7, en_offset = 3, en_count = 1, en_alive = True\<rparr> = [4]"
proof -
  have p: "poll_table (9, 1) sample_fds (\<lambda>h. if h = 5 then 40 else -1) [3, 5, 7] =
     ([\<lparr>en_handler = 3, en_offset = 1, en_count = 2, en_alive = True\<rparr>, \<lparr>en_handler = 5, en_offset = 3, en_count = 0, en_alive = True\<rparr>,
       \<lparr>en_handler = 7, en_offset = 3, en_count = 1, en_alive = True\<rparr>], [(9, 1), (30, 1), (31, 1), (70, 3)], 40)"
    by code_simp
  from turn_table [OF p, of "[0, 1, 0, 4 :: int]"] p show ?thesis
    by (simp add: own_results_def)
qed

section \<open>The threads\<close>

datatype callback = OnPollEvents | OnPeriodic | OnPollError

text \<open>
  Where the reactor thread is. \<open>InCall\<close> and \<open>Repairing i True\<close> are inside a method of the handler of
  entry \<open>i\<close>.
\<close>

datatype phase =
    Stopped
  | Top
  | Collecting nat
  | Polling
  | Repairing nat bool
  | Dispatching nat callback
  | InCall nat callback

record reactor =
  rs_handlers :: "hid list"
  rs_inUse :: "Entry list"
  rs_running :: bool
  rs_revents :: "(bool \<times> bool) list"
  rs_phase :: phase
  rs_waiting :: "hid list"
  g_gone :: "hid set"

definition RtpSessionSet_new :: reactor where
  "RtpSessionSet_new = \<lparr>rs_handlers = [], rs_inUse = [], rs_running = False, rs_revents = [], rs_phase = Stopped,
     rs_waiting = [], g_gone = {}\<rparr>"

definition IsLiveLocked :: "hid \<Rightarrow> reactor \<Rightarrow> bool" where
  "IsLiveLocked h r = list_ex (\<lambda>e. en_handler e = h \<and> en_alive e) (rs_inUse r)"

definition KillInUseLocked :: "hid \<Rightarrow> reactor \<Rightarrow> reactor" where
  "KillInUseLocked h r = r\<lparr>rs_inUse := map (\<lambda>e. if en_handler e = h then e\<lparr>en_alive := False\<rparr> else e) (rs_inUse r)\<rparr>"

definition ForgetLocked :: "hid \<Rightarrow> reactor \<Rightarrow> reactor" where
  "ForgetLocked h r = r\<lparr>rs_handlers := removeAll h (rs_handlers r)\<rparr>"

definition GetHandlerCount :: "reactor \<Rightarrow> nat" where
  "GetHandlerCount r = length (rs_handlers r)"

definition Add :: "hid \<Rightarrow> reactor \<Rightarrow> reactor" where
  "Add h r = (if h \<in> set (rs_handlers r) then r
     else r\<lparr>rs_handlers := rs_handlers r @ [h], g_gone := g_gone r - {h}\<rparr>)"

text \<open>\<open>Remove\<close> returns: the caller may destroy the handler, unless somebody added it again meanwhile.\<close>

definition removed :: "hid \<Rightarrow> reactor \<Rightarrow> reactor" where
  "removed h r = (if h \<in> set (rs_handlers r) then r else r\<lparr>g_gone := insert h (g_gone r)\<rparr>)"

text \<open>\<open>Remove\<close> up to its return, or up to the wait for \<open>quiesced\<close>; \<open>here\<close> says that the reactor thread calls it.\<close>

definition Remove :: "bool \<Rightarrow> hid \<Rightarrow> reactor \<Rightarrow> reactor" where
  "Remove here h r =
    (let r = ForgetLocked h r in
     if here \<or> \<not> rs_running r then removed h (KillInUseLocked h r)
     else r\<lparr>rs_waiting := h # rs_waiting r\<rparr>)"

definition lower :: "nat \<Rightarrow> reactor \<Rightarrow> reactor" where
  "lower i r = r\<lparr>rs_inUse := (rs_inUse r)[i := (rs_inUse r ! i)\<lparr>en_alive := False\<rparr>]\<rparr>"

definition in_callback :: "phase \<Rightarrow> bool" where
  "in_callback p = (case p of InCall _ _ \<Rightarrow> True | Repairing _ called \<Rightarrow> called | _ \<Rightarrow> False)"

text \<open>
  The steps of the reactor thread in \<open>Run\<close>. The label is the handler one of whose methods the step
  calls. \<open>poll\<close> answers for every entry whether there is an event, and whether it is an error.
\<close>

inductive reactor_step :: "reactor \<Rightarrow> hid option \<Rightarrow> reactor \<Rightarrow> bool" where
  start: "rs_phase r = Stopped \<Longrightarrow> reactor_step r None (r\<lparr>rs_running := True, rs_phase := Top\<rparr>)"
| stop: "rs_phase r = Top \<Longrightarrow> reactor_step r None (r\<lparr>rs_running := False, rs_inUse := [], rs_phase := Stopped\<rparr>)"
| turn: "rs_phase r = Top \<Longrightarrow> reactor_step r None (r\<lparr>rs_inUse := snapshot (rs_handlers r), rs_phase := Collecting 0\<rparr>)"
| ask: "rs_phase r = Collecting i \<Longrightarrow> i < length (rs_inUse r) \<Longrightarrow>
    reactor_step r (Some (en_handler (rs_inUse r ! i))) (r\<lparr>rs_phase := Collecting (i + 1)\<rparr>)"
| asked: "rs_phase r = Collecting (length (rs_inUse r)) \<Longrightarrow> reactor_step r None (r\<lparr>rs_phase := Polling\<rparr>)"
| poll_again: "rs_phase r = Polling \<Longrightarrow> reactor_step r None (r\<lparr>rs_phase := Top\<rparr>)"
| poll_bad: "rs_phase r = Polling \<Longrightarrow> length revents = length (rs_inUse r) \<Longrightarrow>
    reactor_step r None (r\<lparr>rs_revents := revents, rs_phase := Repairing 0 False\<rparr>)"
| repair_skip: "rs_phase r = Repairing i False \<Longrightarrow> i < length (rs_inUse r) \<Longrightarrow>
    \<not> snd (rs_revents r ! i) \<or> \<not> en_alive (rs_inUse r ! i) \<Longrightarrow>
    reactor_step r None (r\<lparr>rs_phase := Repairing (i + 1) False\<rparr>)"
| repair: "rs_phase r = Repairing i False \<Longrightarrow> i < length (rs_inUse r) \<Longrightarrow>
    snd (rs_revents r ! i) \<and> en_alive (rs_inUse r ! i) \<Longrightarrow>
    reactor_step r (Some (en_handler (rs_inUse r ! i))) (r\<lparr>rs_phase := Repairing i True\<rparr>)"
| repair_return: "rs_phase r = Repairing i True \<Longrightarrow>
    reactor_step r None ((lower i (ForgetLocked (en_handler (rs_inUse r ! i)) r))\<lparr>rs_phase := Repairing (i + 1) False\<rparr>)"
| repaired: "rs_phase r = Repairing (length (rs_inUse r)) False \<Longrightarrow> reactor_step r None (r\<lparr>rs_phase := Top\<rparr>)"
| poll_ready: "rs_phase r = Polling \<Longrightarrow> length revents = length (rs_inUse r) \<Longrightarrow>
    reactor_step r None (r\<lparr>rs_revents := revents, rs_phase := Dispatching 0 OnPollEvents\<rparr>)"
| dead: "rs_phase r = Dispatching i cb \<Longrightarrow> i < length (rs_inUse r) \<Longrightarrow> \<not> en_alive (rs_inUse r ! i) \<Longrightarrow>
    reactor_step r None (r\<lparr>rs_phase := Dispatching (i + 1) OnPollEvents\<rparr>)"
| quiet: "rs_phase r = Dispatching i OnPollEvents \<Longrightarrow> i < length (rs_inUse r) \<Longrightarrow> en_alive (rs_inUse r ! i) \<Longrightarrow>
    \<not> fst (rs_revents r ! i) \<Longrightarrow> reactor_step r None (r\<lparr>rs_phase := Dispatching i OnPeriodic\<rparr>)"
| fine: "rs_phase r = Dispatching i OnPollError \<Longrightarrow> i < length (rs_inUse r) \<Longrightarrow> en_alive (rs_inUse r ! i) \<Longrightarrow>
    \<not> snd (rs_revents r ! i) \<Longrightarrow> reactor_step r None (r\<lparr>rs_phase := Dispatching (i + 1) OnPollEvents\<rparr>)"
| call: "rs_phase r = Dispatching i cb \<Longrightarrow> i < length (rs_inUse r) \<Longrightarrow> en_alive (rs_inUse r ! i) \<Longrightarrow>
    (cb = OnPollEvents \<longrightarrow> fst (rs_revents r ! i)) \<Longrightarrow> (cb = OnPollError \<longrightarrow> snd (rs_revents r ! i)) \<Longrightarrow>
    reactor_step r (Some (en_handler (rs_inUse r ! i))) (r\<lparr>rs_phase := InCall i cb\<rparr>)"
| events_return: "rs_phase r = InCall i OnPollEvents \<Longrightarrow> reactor_step r None (r\<lparr>rs_phase := Dispatching i OnPeriodic\<rparr>)"
| periodic_return: "rs_phase r = InCall i OnPeriodic \<Longrightarrow> reactor_step r None (r\<lparr>rs_phase := Dispatching i OnPollError\<rparr>)"
| error_return: "rs_phase r = InCall i OnPollError \<Longrightarrow>
    reactor_step r None ((lower i (ForgetLocked (en_handler (rs_inUse r ! i)) r))\<lparr>rs_phase := Dispatching (i + 1) OnPollEvents\<rparr>)"
| end_turn: "rs_phase r = Dispatching (length (rs_inUse r)) OnPollEvents \<Longrightarrow>
    reactor_step r None (r\<lparr>rs_inUse := [], rs_phase := Top\<rparr>)"

text \<open>
  The other steps: \<open>Add\<close> and \<open>Remove\<close> from any other thread, the end of a \<open>Remove\<close> that waits, and \<open>Add\<close>
  and \<open>Remove\<close> from inside \<open>OnPollEvents\<close>, \<open>OnPeriodic\<close> or \<open>OnPollError\<close>, on the reactor thread.
  \<open>GetPollFds\<close> and \<open>GetNextTimeoutMs\<close> only answer.
\<close>

inductive other_step :: "reactor \<Rightarrow> reactor \<Rightarrow> bool" where
  add: "other_step r (Add h r)"
| remove: "other_step r (Remove False h r)"
| remove_return: "h \<in> set (rs_waiting r) \<Longrightarrow> \<not> IsLiveLocked h r \<Longrightarrow>
    other_step r (removed h (r\<lparr>rs_waiting := remove1 h (rs_waiting r)\<rparr>))"
| remove_here: "in_callback (rs_phase r) \<Longrightarrow> other_step r (Remove True h r)"

inductive_cases reactor_stepE: "reactor_step r l r'"
inductive_cases other_stepE: "other_step r r'"

definition any_step :: "reactor \<Rightarrow> reactor \<Rightarrow> bool" where
  "any_step r r' \<longleftrightarrow> other_step r r' \<or> (\<exists>l. reactor_step r l r')"

section \<open>A removed handler is left alone\<close>

definition placed :: "phase \<Rightarrow> nat \<Rightarrow> bool" where
  "placed p n = (case p of
     Collecting i \<Rightarrow> i \<le> n
   | Repairing i called \<Rightarrow> i \<le> n \<and> (called \<longrightarrow> i < n)
   | Dispatching i cb \<Rightarrow> i \<le> n \<and> (i = n \<longrightarrow> cb = OnPollEvents)
   | InCall i cb \<Rightarrow> i < n
   | _ \<Rightarrow> True)"

definition reactor_inv :: "reactor \<Rightarrow> bool" where
  "reactor_inv r \<longleftrightarrow> placed (rs_phase r) (length (rs_inUse r)) \<and> g_gone r \<inter> set (rs_handlers r) = {}
     \<and> (\<forall>e \<in> set (rs_inUse r). en_alive e \<longrightarrow> en_handler e \<notin> g_gone r)
     \<and> (rs_running r \<longleftrightarrow> rs_phase r \<noteq> Stopped)
     \<and> ((\<exists>i. rs_phase r = Collecting i) \<or> rs_phase r = Polling \<longrightarrow> list_all en_alive (rs_inUse r))"

lemma lower_entries: "e \<in> set (rs_inUse (lower i r)) \<Longrightarrow> en_alive e \<Longrightarrow> e \<in> set (rs_inUse r)"
  using subsetD [OF set_update_subset_insert, of e "rs_inUse r" i "(rs_inUse r ! i)\<lparr>en_alive := False\<rparr>"]
  unfolding lower_def by force

lemma reactor_step_inv:
  assumes "reactor_inv r" and "reactor_step r l r'"
  shows "reactor_inv r'"
  using assms(2,1)
proof cases
  case (repair_return i)
  with assms(1) show ?thesis
    using lower_entries [of _ i "ForgetLocked (en_handler (rs_inUse r ! i)) r"]
    by (auto simp: reactor_inv_def ForgetLocked_def placed_def) (auto simp: lower_def)
next
  case (error_return i)
  with assms(1) show ?thesis
    using lower_entries [of _ i "ForgetLocked (en_handler (rs_inUse r ! i)) r"]
    by (auto simp: reactor_inv_def ForgetLocked_def placed_def) (auto simp: lower_def)
qed (auto simp: reactor_inv_def placed_def snapshot_def list_all_iff)

lemma other_step_inv:
  assumes "reactor_inv r" and "other_step r r'"
  shows "reactor_inv r'"
  using assms(2,1)
proof cases
  case (add h)
  with assms(1) show ?thesis by (auto simp: reactor_inv_def Add_def)
next
  case (remove h)
  with assms(1) show ?thesis
    by (auto simp: reactor_inv_def Remove_def removed_def ForgetLocked_def KillInUseLocked_def Let_def)
next
  case (remove_return h)
  with assms(1) show ?thesis
    by (auto simp: reactor_inv_def removed_def IsLiveLocked_def list_ex_iff)
next
  case (remove_here h)
  with assms(1) show ?thesis
    by (auto simp: reactor_inv_def Remove_def removed_def ForgetLocked_def KillInUseLocked_def Let_def in_callback_def)
qed

interpretation rs: invariant_system "\<lambda>r. r = RtpSessionSet_new" any_step reactor_inv
proof
  show "reactor_inv r" if "r = RtpSessionSet_new" for r
    using that by (simp add: reactor_inv_def placed_def RtpSessionSet_new_def)
  show "reactor_inv r'" if "reactor_inv r" "any_step r r'" for r r'
    using that(2) reactor_step_inv [OF that(1)] other_step_inv [OF that(1)] unfolding any_step_def by blast
qed

text \<open>
  C8. What \<open>Remove\<close> promises: once it has returned, and until the handler is added again, the reactor
  calls none of its methods, however the threads interleave and whatever the callbacks add and
  remove; so the owner may close its descriptors and destroy it.
\<close>

theorem remove_quiesces:
  assumes "any_step\<^sup>*\<^sup>* RtpSessionSet_new r" and "reactor_step r (Some h) r'"
  shows "h \<notin> g_gone r"
proof -
  have i: "reactor_inv r" by (rule rs.reachable_inv [OF refl assms(1)])
  from assms(2) show ?thesis
    by cases (use i in \<open>auto simp: reactor_inv_def list_all_iff\<close>)
qed

definition at_work :: reactor where
  "at_work = RtpSessionSet_new\<lparr>rs_handlers := [3], g_gone := {5}, rs_running := True,
     rs_inUse := snapshot [3], rs_phase := Collecting 0\<rparr>"

text \<open>A handler is added, another one removed, and the reactor has taken its first snapshot.\<close>

lemma at_work_reachable: "any_step\<^sup>*\<^sup>* RtpSessionSet_new at_work"
proof -
  let ?a = "Add 3 RtpSessionSet_new" and ?b = "Remove False 5 (Add 3 RtpSessionSet_new)"
  let ?c = "?b\<lparr>rs_running := True, rs_phase := Top\<rparr>"
  have "any_step RtpSessionSet_new ?a" "any_step ?a ?b"
    unfolding any_step_def by (blast intro: other_step.intros)+
  moreover have "any_step ?b ?c"
    unfolding any_step_def by (intro disjI2 exI [of _ None] start)
      (simp add: Add_def RtpSessionSet_new_def Remove_def removed_def KillInUseLocked_def ForgetLocked_def)
  moreover have "any_step ?c (?c\<lparr>rs_inUse := snapshot (rs_handlers ?c), rs_phase := Collecting 0\<rparr>)"
    unfolding any_step_def by (intro disjI2 exI [of _ None] turn) simp
  moreover have "?c\<lparr>rs_inUse := snapshot (rs_handlers ?c), rs_phase := Collecting 0\<rparr> = at_work"
    by (simp add: at_work_def Add_def RtpSessionSet_new_def Remove_def removed_def KillInUseLocked_def ForgetLocked_def)
  ultimately show ?thesis
    by (metis converse_rtranclp_into_rtranclp rtranclp.rtrancl_refl)
qed

theorem remove_quiesces_witness:
  "5 \<in> g_gone at_work \<and> (\<exists>r'. reactor_step at_work (Some 3) r') \<and> 3 \<notin> g_gone at_work"
proof -
  have s: "reactor_step at_work (Some 3) (at_work\<lparr>rs_phase := Collecting 1\<rparr>)"
    using ask [of at_work 0] by (simp add: at_work_def snapshot_def)
  from remove_quiesces [OF at_work_reachable s] s show ?thesis by (auto simp: at_work_def)
qed

section \<open>The wait in \<open>Remove\<close> ends\<close>

text \<open>How many steps the reactor thread takes at most until the end of its turn.\<close>

definition phase_left :: "phase \<Rightarrow> nat \<Rightarrow> nat" where
  "phase_left p n = (case p of
     Stopped \<Rightarrow> 1
   | Top \<Rightarrow> 0
   | Collecting i \<Rightarrow> 7 * n + 9 + (n - i)
   | Polling \<Rightarrow> 7 * n + 8
   | Repairing i called \<Rightarrow> 1 + 2 * (n - i) + (if called then 0 else 1)
   | Dispatching i cb \<Rightarrow> 1 + 7 * (n - i) + (case cb of OnPollEvents \<Rightarrow> 6 | OnPeriodic \<Rightarrow> 4 | OnPollError \<Rightarrow> 2)
   | InCall i cb \<Rightarrow> 1 + 7 * (n - i) + (case cb of OnPollEvents \<Rightarrow> 5 | OnPeriodic \<Rightarrow> 3 | OnPollError \<Rightarrow> 1))"

definition steps_left :: "reactor \<Rightarrow> nat" where
  "steps_left r = phase_left (rs_phase r) (length (rs_inUse r))"

lemma length_lower [simp]: "length (rs_inUse (lower i r)) = length (rs_inUse r)" "rs_handlers (lower i r) = rs_handlers r"
  by (simp_all add: lower_def)

lemma live_lower:
  assumes "IsLiveLocked h ((lower i (ForgetLocked g r))\<lparr>rs_phase := p\<rparr>)"
  shows "IsLiveLocked h r"
proof -
  obtain e where "e \<in> set (rs_inUse (lower i (ForgetLocked g r)))" and e: "en_handler e = h" "en_alive e"
    using assms by (auto simp: IsLiveLocked_def list_ex_iff)
  from lower_entries [OF this(1) e(2)] e show ?thesis
    by (auto simp: IsLiveLocked_def list_ex_iff ForgetLocked_def)
qed

lemma reactor_enabled:
  assumes "reactor_inv r"
  shows "\<exists>l r'. reactor_step r l r'"
proof -
  have p: "placed (rs_phase r) (length (rs_inUse r))" using assms by (simp add: reactor_inv_def)
  show ?thesis
  proof (cases "rs_phase r")
    case Stopped
    then show ?thesis using start [of r] by blast
  next
    case Top
    then show ?thesis using turn [of r] by blast
  next
    case (Collecting i)
    with p have "i < length (rs_inUse r) \<or> rs_phase r = Collecting (length (rs_inUse r))" by (auto simp: placed_def)
    with Collecting show ?thesis using ask [of r i] asked [of r] by blast
  next
    case Polling
    then show ?thesis using poll_again [of r] by blast
  next
    case (Repairing i called)
    show ?thesis
    proof (cases called)
      case True
      with Repairing have "rs_phase r = Repairing i True" by simp
      from repair_return [OF this] show ?thesis by blast
    next
      case False
      with Repairing p have "i < length (rs_inUse r) \<or> rs_phase r = Repairing (length (rs_inUse r)) False"
        by (auto simp: placed_def)
      moreover have "rs_phase r = Repairing i False" using False Repairing by simp
      ultimately show ?thesis
        using repaired [of r] repair [of r i] repair_skip [of r i] by blast
    qed
  next
    case (Dispatching i cb)
    show ?thesis
    proof (cases "i < length (rs_inUse r) \<and> en_alive (rs_inUse r ! i)")
      case True
      then show ?thesis
        using Dispatching quiet [of r i] fine [of r i] call [of r i cb] by (cases cb; simp) blast+
    next
      case False
      with Dispatching p have "i < length (rs_inUse r) \<or> rs_phase r = Dispatching (length (rs_inUse r)) OnPollEvents"
        by (auto simp: placed_def)
      then show ?thesis using False Dispatching end_turn [of r] dead [of r i cb] by blast
    qed
  next
    case (InCall i cb)
    then show ?thesis
      using events_return [of r i] periodic_return [of r i] error_return [of r i] by (cases cb; simp) blast+
  qed
qed

lemma lowered_progress:
  assumes "h \<notin> set (rs_handlers r)" and "r' = (lower i (ForgetLocked g r))\<lparr>rs_phase := p\<rparr>"
    and "phase_left p (length (rs_inUse r)) < steps_left r"
  shows "h \<notin> set (rs_handlers r') \<and> (IsLiveLocked h r' \<longrightarrow> IsLiveLocked h r \<and> steps_left r' < steps_left r)"
proof (intro conjI impI)
  have "rs_inUse (ForgetLocked g r) = rs_inUse r" by (simp add: ForgetLocked_def)
  then show "steps_left r' < steps_left r"
    using assms(2,3) by (simp add: steps_left_def)
  show "h \<notin> set (rs_handlers r')"
    using assms(1,2) by (simp add: ForgetLocked_def)
  show "IsLiveLocked h r" if "IsLiveLocked h r'"
    using that unfolding assms(2) by (rule live_lower)
qed

lemma reactor_progress:
  assumes "reactor_inv r" and "h \<notin> set (rs_handlers r)" and "reactor_step r l r'"
  shows "h \<notin> set (rs_handlers r') \<and> (IsLiveLocked h r' \<longrightarrow> IsLiveLocked h r \<and> steps_left r' < steps_left r)"
  using assms(3,1,2)
proof cases
  case (repair_return i)
  then have "phase_left (Repairing (i + 1) False) (length (rs_inUse r)) < steps_left r"
    using assms(1) by (auto simp: reactor_inv_def placed_def steps_left_def phase_left_def)
  with assms(2) repair_return(2) show ?thesis by (rule lowered_progress)
next
  case (error_return i)
  then have "phase_left (Dispatching (i + 1) OnPollEvents) (length (rs_inUse r)) < steps_left r"
    using assms(1) by (auto simp: reactor_inv_def placed_def steps_left_def phase_left_def)
  with assms(2) error_return(2) show ?thesis by (rule lowered_progress)
qed (auto simp: reactor_inv_def placed_def steps_left_def phase_left_def IsLiveLocked_def snapshot_def list_ex_iff split: callback.splits)



end
