(* ===== verification/TransportFeedback.thy ===== *)
theory TransportFeedback
  imports Prelude
begin

text \<open>
  The transport-wide feedback of \<open>transportfeedback.cpp\<close>: the RTCP field that reports when each
  packet arrived (\<open>TransportWideFeedbackField\<close>), and the numbers both ends count with
  (\<open>UnwrapSeq16\<close>).

  A \<open>WORD\<close> is a 16-bit word. A \<open>QWORD\<close> is an integer; \<open>u64\<close> is written where an operation can
  leave the 64 bits. A status symbol is the number it is on the wire.
\<close>

definition u64 :: "int \<Rightarrow> int" where
  "u64 v = v mod 2 ^ 64"

section \<open>The field\<close>

record PacketStatus =
  ps_seq :: "16 word"
  ps_received :: bool
  ps_deltaTicks :: int

definition TickUs :: int where
  "TickUs = 250"

definition BaseTickUs :: int where
  "BaseTickUs = push_bit 8 TickUs"

definition TimeWrapUs :: int where
  "TimeWrapUs = push_bit 24 BaseTickUs"

definition HeaderBytes :: nat where
  "HeaderBytes = 8"

definition MaxRunLength :: nat where
  "MaxRunLength = 0x1FFF"

record FeedbackField =
  baseSeq :: "16 word"
  referenceTicks :: int
  fbSeq :: byte
  hasTimestamps :: bool
  packets :: "PacketStatus list"
  lastArrivalTicks :: int

definition FeedbackField_new :: FeedbackField where
  "FeedbackField_new = \<lparr>baseSeq = 0, referenceTicks = 0, fbSeq = 0, hasTimestamps = True, packets = [], lastArrivalTicks = 0\<rparr>"

definition SetBase :: "16 word \<Rightarrow> int \<Rightarrow> FeedbackField \<Rightarrow> FeedbackField" where
  "SetBase seq arrivalUs f =
    (let reference = (arrivalUs mod TimeWrapUs) div BaseTickUs in
     f\<lparr>baseSeq := seq, referenceTicks := reference, lastArrivalTicks := push_bit 8 reference, packets := []\<rparr>)"

definition AddReceived :: "16 word \<Rightarrow> int \<Rightarrow> FeedbackField \<Rightarrow> bool \<times> FeedbackField" where
  "AddReceived seq arrivalUs f =
    (let next = (if packets f = [] then baseSeq f else ps_seq (last (packets f)) + 1);
         gap = seq - next in
     if gap > 0x7FFF then (False, f)
     else
       let arrivalTicks = (arrivalUs mod TimeWrapUs) div TickUs;
           delta = arrivalTicks - lastArrivalTicks f in
       if delta < -32768 \<or> delta > 32767 then (False, f)
       else (True, f\<lparr>packets := packets f
                @ map (\<lambda>i. \<lparr>ps_seq = next + of_nat i, ps_received = False, ps_deltaTicks = 0\<rparr>) [0..<unat gap]
                @ [\<lparr>ps_seq = seq, ps_received = True, ps_deltaTicks = delta\<rparr>],
              lastArrivalTicks := arrivalTicks\<rparr>))"

text \<open>The symbol of a packet is the size of its delta: \<open>None\<close> when the delta does not fit.\<close>

definition SymbolNotReceived :: nat where "SymbolNotReceived = 0"
definition SymbolSmall :: nat where "SymbolSmall = 1"
definition SymbolLarge :: nat where "SymbolLarge = 2"
definition SymbolReserved :: nat where "SymbolReserved = 3"

lemmas symbol_defs = SymbolNotReceived_def SymbolSmall_def SymbolLarge_def SymbolReserved_def

definition symbol_of :: "PacketStatus \<Rightarrow> nat option" where
  "symbol_of p =
    (if \<not> ps_received p then Some SymbolNotReceived
     else if ps_deltaTicks p \<ge> 0 \<and> ps_deltaTicks p \<le> 0xFF then Some SymbolSmall
     else if ps_deltaTicks p \<ge> -32768 \<and> ps_deltaTicks p \<le> 32767 then Some SymbolLarge
     else None)"

definition symbols_of :: "PacketStatus list \<Rightarrow> nat list option" where
  "symbols_of ps = foldM (\<lambda>p symbols. map_option (\<lambda>s. symbols @ [s]) (symbol_of p)) ps []"

text \<open>How many of the next symbols are the same, at most \<open>MaxRunLength\<close>.\<close>

definition run_length :: "nat list \<Rightarrow> nat" where
  "run_length symbols = min MaxRunLength (length (takeWhile (\<lambda>s. s = hd symbols) symbols))"

definition vector_chunk :: "nat list \<Rightarrow> 16 word" where
  "vector_chunk symbols =
    fold (\<lambda>i chunk. chunk OR push_bit (12 - 2 * i) (of_nat (if i < length symbols then symbols ! i else SymbolNotReceived)))
      [0..<7] 0xC000"

lemma run_length_pos: "symbols \<noteq> [] \<Longrightarrow> 0 < run_length symbols"
  by (cases symbols) (auto simp: run_length_def MaxRunLength_def)

function chunks_of :: "nat list \<Rightarrow> 16 word list" where
  "chunks_of symbols =
    (if symbols = [] then []
     else
       let run = run_length symbols in
       if run > 7 \<or> run = length symbols
       then (push_bit 13 (of_nat (hd symbols)) OR of_nat run) # chunks_of (drop run symbols)
       else vector_chunk symbols # chunks_of (drop 7 symbols))"
  by pat_completeness auto
termination
  by (relation "measure length") (auto dest: run_length_pos)

declare chunks_of.simps [simp del]

definition delta_bytes :: "PacketStatus \<Rightarrow> byte list" where
  "delta_bytes p =
    (if \<not> ps_received p then []
     else if ps_deltaTicks p \<ge> 0 \<and> ps_deltaTicks p \<le> 0xFF then [to_byte (ps_deltaTicks p)]
     else let w = word_of_int (ps_deltaTicks p) :: 16 word in [ucast (drop_bit 8 w), ucast (w AND 0xFF)])"

definition Encode :: "FeedbackField \<Rightarrow> (16 word list \<times> byte list) option" where
  "Encode f = map_option (\<lambda>symbols. (chunks_of symbols, concat (map delta_bytes (packets f)))) (symbols_of (packets f))"

text \<open>\<open>(n + 3) & ~3\<close>\<close>

definition padded :: "nat \<Rightarrow> nat" where
  "padded n = (n + 3) div 4 * 4"

definition Feedback_GetSize :: "FeedbackField \<Rightarrow> nat" where
  "Feedback_GetSize f = (if packets f = [] then 0 else
     case Encode f of
       None \<Rightarrow> 0
     | Some (chunks, deltas) \<Rightarrow> padded (HeaderBytes + 2 * length chunks + length deltas))"

definition Feedback_Serialize :: "medkit \<Rightarrow> nat \<Rightarrow> FeedbackField \<Rightarrow> byte list option" where
  "Feedback_Serialize io bufsize f = (if packets f = [] then None else
     case Encode f of
       None \<Rightarrow> None
     | Some (chunks, deltas) \<Rightarrow>
         let needed = HeaderBytes + 2 * length chunks + length deltas in
         if bufsize < padded needed then None
         else Some (set2 io (uint (baseSeq f)) @ set2 io (int (length (packets f)) mod 2 ^ 16)
                @ set3 io (referenceTicks f AND 0x00FFFFFF) @ [fbSeq f]
                @ concat (map (\<lambda>chunk. set2 io (uint chunk)) chunks) @ deltas
                @ replicate (padded needed - needed) 0))"

text \<open>The symbols of one chunk, of which at most \<open>remaining\<close> are wanted.\<close>

definition chunk_symbols :: "16 word \<Rightarrow> nat \<Rightarrow> nat list" where
  "chunk_symbols chunk remaining =
    (if chunk AND 0x8000 = 0
     then replicate (min remaining (unat (chunk AND of_nat MaxRunLength))) (unat (drop_bit 13 chunk AND 0x03))
     else if chunk AND 0x4000 = 0
     then take remaining (map (\<lambda>i. if drop_bit i chunk AND 0x01 \<noteq> 0 then SymbolSmall else SymbolNotReceived) (rev [0..<14]))
     else take remaining (map (\<lambda>i. unat (drop_bit (12 - 2 * i) chunk AND 0x03)) [0..<7]))"

fun read_symbols :: "medkit \<Rightarrow> nat \<Rightarrow> nat list \<Rightarrow> byte list \<Rightarrow> (nat list \<times> byte list) option" where
  "read_symbols io statusCount symbols data =
    (if length symbols < statusCount then
       (case data of
          a # b # data \<Rightarrow>
            read_symbols io statusCount
              (symbols @ chunk_symbols (word_of_int (get2 io [a, b] 0)) (statusCount - length symbols)) data
        | _ \<Rightarrow> None)
     else Some (symbols, data))"

declare read_symbols.simps [simp del]

definition delta_size :: "nat \<Rightarrow> nat" where
  "delta_size s = (if s = SymbolSmall then 1 else if s = SymbolLarge then 2 else if s = SymbolReserved then 3 else 0)"

text \<open>The report with its deltas; a reserved symbol makes it invalid.\<close>

fun read_deltas :: "medkit \<Rightarrow> 16 word \<Rightarrow> nat list \<Rightarrow> byte list \<Rightarrow> PacketStatus list option" where
  "read_deltas io seq [] data = Some []"
| "read_deltas io seq (s # symbols) data =
    (if s = SymbolNotReceived then
       map_option (Cons \<lparr>ps_seq = seq, ps_received = False, ps_deltaTicks = 0\<rparr>) (read_deltas io (seq + 1) symbols data)
     else if s = SymbolSmall then
       map_option (Cons \<lparr>ps_seq = seq, ps_received = True, ps_deltaTicks = uint (data ! 0)\<rparr>)
         (read_deltas io (seq + 1) symbols (drop 1 data))
     else if s = SymbolLarge then
       map_option (Cons \<lparr>ps_seq = seq, ps_received = True, ps_deltaTicks = sint (word_of_int (get2 io data 0) :: 16 word)\<rparr>)
         (read_deltas io (seq + 1) symbols (drop 2 data))
     else None)"

fun read_statuses :: "16 word \<Rightarrow> nat list \<Rightarrow> PacketStatus list" where
  "read_statuses seq [] = []"
| "read_statuses seq (s # symbols) =
    \<lparr>ps_seq = seq, ps_received = (s \<noteq> SymbolNotReceived), ps_deltaTicks = 0\<rparr> # read_statuses (seq + 1) symbols"

definition Feedback_Parse :: "medkit \<Rightarrow> byte list \<Rightarrow> FeedbackField \<Rightarrow> FeedbackField option" where
  "Feedback_Parse io data f =
    (if length data < HeaderBytes + 2 then None
     else
       let f = f\<lparr>baseSeq := word_of_int (get2 io data 0), referenceTicks := get3 io data 4, fbSeq := data ! 7\<rparr>;
           statusCount = nat (get2 io data 2) in
       if statusCount = 0 then None
       else
         case read_symbols io statusCount [] (drop HeaderBytes data) of
           None \<Rightarrow> None
         | Some (symbols, rest) \<Rightarrow>
             if sum_list (map delta_size symbols) \<le> length rest
             then map_option (\<lambda>ps. f\<lparr>hasTimestamps := True, packets := ps\<rparr>) (read_deltas io (baseSeq f) symbols rest)
             else Some (f\<lparr>hasTimestamps := False, packets := read_statuses (baseSeq f) symbols\<rparr>))"

section \<open>Chunks\<close>

lemma word16_eqI:
  fixes a b :: "16 word"
  assumes "bit a 0 = bit b 0" "bit a 1 = bit b 1" "bit a 2 = bit b 2" "bit a 3 = bit b 3"
    "bit a 4 = bit b 4" "bit a 5 = bit b 5" "bit a 6 = bit b 6" "bit a 7 = bit b 7"
    "bit a 8 = bit b 8" "bit a 9 = bit b 9" "bit a 10 = bit b 10" "bit a 11 = bit b 11"
    "bit a 12 = bit b 12" "bit a 13 = bit b 13" "bit a 14 = bit b 14" "bit a 15 = bit b 15"
  shows "a = b"
proof (rule bit_word_eqI)
  fix n assume "n < LENGTH(16)"
  then have "n = 0 \<or> n = 1 \<or> n = 2 \<or> n = 3 \<or> n = 4 \<or> n = 5 \<or> n = 6 \<or> n = 7 \<or> n = 8 \<or> n = 9
    \<or> n = 10 \<or> n = 11 \<or> n = 12 \<or> n = 13 \<or> n = 14 \<or> n = 15"
    unfolding len_of_numeral_defs by simp presburger
  then show "bit a n \<longleftrightarrow> bit b n"
    using assms by (elim disjE) (simp_all only:)
qed

lemma high_bit2: "(s :: nat) < 4 \<Longrightarrow> 2 \<le> n \<Longrightarrow> \<not> bit s n"
  using nat_bit_bound [of s 2 n] by auto

lemma high_bit13: "(run :: nat) < 8192 \<Longrightarrow> 13 \<le> n \<Longrightarrow> \<not> bit run n"
  using nat_bit_bound [of run 13 n] by auto

lemma run_chunk:
  assumes "s < 4" and "run \<le> MaxRunLength"
  shows "chunk_symbols (push_bit 13 (of_nat s) OR of_nat run) remaining = replicate (min remaining run) s"
proof -
  let ?c = "push_bit 13 (of_nat s) OR of_nat run :: 16 word"
  have r: "run < 8192" using assms by (simp add: MaxRunLength_def)
  have "?c AND 0x8000 = 0"
    by (rule word16_eqI) (simp_all add: bit_simps high_bit2 [OF assms(1)] high_bit13 [OF r])
  moreover have "?c AND of_nat MaxRunLength = of_nat run"
    by (rule word16_eqI) (simp_all add: bit_simps high_bit2 [OF assms(1)] high_bit13 [OF r] MaxRunLength_def)
  moreover have "drop_bit 13 ?c AND 0x03 = of_nat s"
    by (rule word16_eqI) (simp_all add: bit_simps high_bit2 [OF assms(1)] high_bit13 [OF r])
  ultimately show ?thesis
    using assms by (simp add: chunk_symbols_def MaxRunLength_def unat_of_nat)
qed

text \<open>The seven symbols of a vector chunk.\<close>

definition seven :: "nat list \<Rightarrow> nat list" where
  "seven symbols = map (\<lambda>i. if i < length symbols then symbols ! i else SymbolNotReceived) [0..<7]"

lemma upto_seven: "[0..<7] = [0, 1, 2, 3, 4, 5, 6 :: nat]"
  by (simp add: upt_conv_Cons)

lemma seven_bits:
  fixes a b c d e f g :: nat
  assumes "a < 4" "b < 4" "c < 4" "d < 4" "e < 4" "f < 4" "g < 4"
  defines "w \<equiv> 0xC000 OR push_bit 12 (of_nat a) OR push_bit 10 (of_nat b) OR push_bit 8 (of_nat c)
    OR push_bit 6 (of_nat d) OR push_bit 4 (of_nat e) OR push_bit 2 (of_nat f) OR of_nat g :: 16 word"
  shows "w AND 0x8000 \<noteq> 0" "w AND 0x4000 \<noteq> 0"
    "drop_bit 12 w AND 3 = of_nat a" "drop_bit 10 w AND 3 = of_nat b" "drop_bit 8 w AND 3 = of_nat c"
    "drop_bit 6 w AND 3 = of_nat d" "drop_bit 4 w AND 3 = of_nat e" "drop_bit 2 w AND 3 = of_nat f" "w AND 3 = of_nat g"
proof -
  note high = assms(1-7) [THEN high_bit2]
  have "bit (w AND 0x8000) 15" "bit (w AND 0x4000) 14"
    by (simp_all add: w_def bit_simps)
  then show "w AND 0x8000 \<noteq> 0" "w AND 0x4000 \<noteq> 0" by auto
  show "drop_bit 12 w AND 3 = of_nat a" "drop_bit 10 w AND 3 = of_nat b" "drop_bit 8 w AND 3 = of_nat c"
    "drop_bit 6 w AND 3 = of_nat d" "drop_bit 4 w AND 3 = of_nat e" "drop_bit 2 w AND 3 = of_nat f" "w AND 3 = of_nat g"
    unfolding w_def by (rule word16_eqI; simp add: bit_simps high)+
qed

lemma vector_chunk_symbols:
  assumes "\<forall>s \<in> set symbols. s < 4"
  shows "chunk_symbols (vector_chunk symbols) remaining = take remaining (seven symbols)"
proof -
  define s where "s i = (if i < length symbols then symbols ! i else SymbolNotReceived)" for i
  have s: "s i < 4" for i using assms by (auto simp: s_def SymbolNotReceived_def)
  have v: "vector_chunk symbols = 0xC000 OR push_bit 12 (of_nat (s 0)) OR push_bit 10 (of_nat (s 1)) OR push_bit 8 (of_nat (s 2))
    OR push_bit 6 (of_nat (s 3)) OR push_bit 4 (of_nat (s 4)) OR push_bit 2 (of_nat (s 5)) OR of_nat (s 6)"
    unfolding vector_chunk_def s_def [symmetric] by (simp add: upto_seven or.assoc)
  have u: "unat (of_nat (s i) :: 16 word) = s i" for i
    using s [of i] by (simp add: unat_of_nat)
  note b = seven_bits [OF s s s s s s s, of 0 1 2 3 4 5 6, folded v]
  show ?thesis
    using b by (simp add: chunk_symbols_def seven_def s_def [symmetric] upto_seven u)
qed

section \<open>Round trip\<close>

fun contiguous :: "16 word \<Rightarrow> PacketStatus list \<Rightarrow> bool" where
  "contiguous seq [] = True"
| "contiguous seq (p # ps) = (ps_seq p = seq \<and> contiguous (seq + 1) ps)"

definition status_wf :: "PacketStatus \<Rightarrow> bool" where
  "status_wf p = (if ps_received p then -32768 \<le> ps_deltaTicks p \<and> ps_deltaTicks p \<le> 32767 else ps_deltaTicks p = 0)"

definition field_wf :: "FeedbackField \<Rightarrow> bool" where
  "field_wf f \<longleftrightarrow> packets f \<noteq> [] \<and> length (packets f) < 2 ^ 16 \<and> contiguous (baseSeq f) (packets f)
     \<and> list_all status_wf (packets f) \<and> 0 \<le> referenceTicks f \<and> referenceTicks f < 2 ^ 24 \<and> hasTimestamps f"

abbreviation symbol :: "PacketStatus \<Rightarrow> nat" where
  "symbol p \<equiv> the (symbol_of p)"

lemma symbol_of_wf: "status_wf p \<Longrightarrow> \<exists>s < 4. symbol_of p = Some s"
  by (auto simp: status_wf_def symbol_of_def symbol_defs split: if_splits)

lemma status_cases [consumes 1, case_names lost small large]:
  assumes "status_wf p"
  obtains "\<not> ps_received p" "ps_deltaTicks p = 0" "symbol p = SymbolNotReceived" "delta_bytes p = []"
  | "ps_received p" "0 \<le> ps_deltaTicks p" "ps_deltaTicks p \<le> 255" "symbol p = SymbolSmall"
      "delta_bytes p = [to_byte (ps_deltaTicks p)]"
  | "ps_received p" "-32768 \<le> ps_deltaTicks p" "ps_deltaTicks p \<le> 32767" "symbol p = SymbolLarge"
      "delta_bytes p = (let w = word_of_int (ps_deltaTicks p) :: 16 word in [ucast (drop_bit 8 w), ucast (w AND 0xFF)])"
proof (cases "ps_received p")
  case False
  with assms show thesis by (intro that(1)) (simp_all add: status_wf_def symbol_of_def delta_bytes_def)
next
  case True
  show thesis
  proof (cases "ps_deltaTicks p \<ge> 0 \<and> ps_deltaTicks p \<le> 0xFF")
    case small: True
    with True show thesis by (intro that(2)) (simp_all add: symbol_of_def delta_bytes_def)
  next
    case False
    with True assms show thesis by (intro that(3)) (auto simp: status_wf_def symbol_of_def delta_bytes_def)
  qed
qed

lemma symbols_of_wf: "list_all status_wf ps \<Longrightarrow> symbols_of ps = Some (map symbol ps)"
proof -
  have "list_all status_wf ps \<Longrightarrow>
      foldM (\<lambda>p symbols. map_option (\<lambda>s. symbols @ [s]) (symbol_of p)) ps xs = Some (xs @ map symbol ps)" for xs
    by (induction ps arbitrary: xs) (auto dest!: symbol_of_wf)
  then show "list_all status_wf ps \<Longrightarrow> symbols_of ps = Some (map symbol ps)"
    by (simp add: symbols_of_def)
qed

lemma length_delta_bytes: "status_wf p \<Longrightarrow> length (delta_bytes p) = delta_size (symbol p)"
  by (auto simp: status_wf_def delta_bytes_def symbol_of_def symbol_defs delta_size_def Let_def)

lemma length_deltas:
  "list_all status_wf ps \<Longrightarrow> length (concat (map delta_bytes ps)) = sum_list (map delta_size (map symbol ps))"
  by (induction ps) (auto simp: length_delta_bytes)

lemma take_run: "take (run_length symbols) symbols = replicate (run_length symbols) (hd symbols)"
proof -
  have "take (length (takeWhile P xs)) xs = takeWhile P xs" for P and xs :: "nat list"
    by (metis append_eq_conv_conj takeWhile_dropWhile_id)
  moreover have "takeWhile (\<lambda>s. s = x) xs = replicate (length (takeWhile (\<lambda>s. s = x) xs)) x" for x and xs :: "nat list"
    by (induction xs) auto
  ultimately show ?thesis
    unfolding run_length_def by (metis min_def take_replicate take_take)
qed

lemma run_length_le: "run_length symbols \<le> length symbols" "run_length symbols \<le> MaxRunLength"
  by (auto simp: run_length_def min_def length_takeWhile_le intro: order_trans [OF _ length_takeWhile_le])

lemma take_seven: "take (length symbols) (seven symbols) = take 7 symbols"
  by (rule nth_equalityI) (auto simp: seven_def)

lemma word_octets: "uint (ucast (drop_bit 8 w) :: byte) * 256 + uint (ucast (w AND 0xFF) :: byte) = uint (w :: 16 word)"
proof -
  have "uint w < 2 ^ 16" "0 \<le> uint w" using uint_lt2p [of w] by simp_all
  then have d: "take_bit 8 (drop_bit 8 (uint w)) = uint w div 256"
    by (simp add: drop_bit_eq_div take_bit_eq_mod mod_pos_pos_trivial pos_imp_zdiv_nonneg_iff div_less_iff_less_mult)
  have m: "uint (w AND 0xFF) = uint w mod 256"
  proof -
    have "w AND 0xFF = take_bit 8 w" by (simp add: take_bit_eq_mask mask_numeral)
    then show ?thesis by (simp only: unsigned_take_bit_eq) (simp add: take_bit_eq_mod)
  qed
  show ?thesis
    using d by (simp add: unsigned_ucast_eq unsigned_drop_bit_eq m) (simp add: take_bit_eq_mod)
qed

lemma sint_delta: "-32768 \<le> v \<Longrightarrow> v \<le> 32767 \<Longrightarrow> sint (word_of_int v :: 16 word) = v"
  by (simp add: sint_sbintrunc' signed_take_bit_int_eq_self)

context medkit_network
begin

lemma read_symbols_step:
  assumes "length acc < n"
  shows "read_symbols io n acc (set2 io (uint c) @ data) = read_symbols io n (acc @ chunk_symbols c (n - length acc)) data"
proof -
  obtain a b where ab: "mk_set2 io (uint c) = (a, b)" by fastforce
  have "get2 io [a, b] 0 = uint c"
    using mk_get2_set2 [OF _ _ ab] uint_lt2p [of c] by (simp add: get2_def)
  with assms show ?thesis
    by (subst read_symbols.simps) (simp add: set2_def ab)
qed

lemma read_chunks:
  assumes "\<forall>s \<in> set symbols. s < 4" and "n = length acc + length symbols"
  shows "read_symbols io n acc (concat (map (\<lambda>c. set2 io (uint c)) (chunks_of symbols)) @ rest) = Some (acc @ symbols, rest)"
  using assms
proof (induction symbols arbitrary: acc rule: chunks_of.induct)
  case (1 symbols)
  define run where "run = run_length symbols"
  consider (nil) "symbols = []" | (run) "symbols \<noteq> []" "run > 7 \<or> run = length symbols"
    | (vector) "symbols \<noteq> []" "\<not> (run > 7 \<or> run = length symbols)" by blast
  then show ?case
  proof cases
    case nil
    then show ?thesis using "1.prems" by (simp add: chunks_of.simps read_symbols.simps)
  next
    case run
    have le: "run \<le> length symbols" "run \<le> MaxRunLength" using run_length_le by (simp_all add: run_def)
    have c: "chunks_of symbols = (push_bit 13 (of_nat (hd symbols)) OR of_nat run) # chunks_of (drop run symbols)"
      using run by (subst chunks_of.simps) (simp add: run_def Let_def)
    have "chunk_symbols (push_bit 13 (of_nat (hd symbols)) OR of_nat run) (length symbols) = take run symbols"
      using run_chunk [of "hd symbols" run "length symbols"] run(1) "1.prems"(1) le take_run [of symbols]
      by (simp add: run_def min_def)
    moreover have "read_symbols io n (acc @ take run symbols)
        (concat (map (\<lambda>c. set2 io (uint c)) (chunks_of (drop run symbols))) @ rest) = Some ((acc @ take run symbols) @ drop run symbols, rest)"
      using "1.prems" le(1) run by (intro "1.IH"(1)) (auto simp: run_def dest: in_set_dropD)
    ultimately show ?thesis
      using "1.prems"(2) run(1) by (simp add: c read_symbols_step)
  next
    case vector
    have c: "chunks_of symbols = vector_chunk symbols # chunks_of (drop 7 symbols)"
      using vector by (subst chunks_of.simps) (simp add: run_def Let_def)
    have "chunk_symbols (vector_chunk symbols) (length symbols) = take 7 symbols"
      using vector_chunk_symbols "1.prems"(1) take_seven by simp
    moreover have "read_symbols io n (acc @ take 7 symbols)
        (concat (map (\<lambda>c. set2 io (uint c)) (chunks_of (drop 7 symbols))) @ rest) = Some ((acc @ take 7 symbols) @ drop 7 symbols, rest)"
      using "1.prems" vector by (intro "1.IH"(2)) (auto simp: run_def dest: in_set_dropD)
    ultimately show ?thesis
      using "1.prems"(2) vector(1) by (simp add: c read_symbols_step)
  qed
qed

lemma read_deltas_bytes:
  assumes "contiguous seq ps" and "list_all status_wf ps"
  shows "read_deltas io seq (map symbol ps) (concat (map delta_bytes ps) @ rest) = Some ps"
  using assms
proof (induction ps arbitrary: seq)
  case Nil
  then show ?case by simp
next
  case (Cons p ps)
  have p: "p = \<lparr>ps_seq = seq, ps_received = ps_received p, ps_deltaTicks = ps_deltaTicks p\<rparr>"
    using Cons.prems(1) by (cases p) auto
  have IH: "read_deltas io (seq + 1) (map symbol ps) (concat (map delta_bytes ps) @ rest) = Some ps"
    using Cons by simp
  let ?w = "word_of_int (ps_deltaTicks p) :: 16 word"
  have g: "get2 io (ucast (drop_bit 8 ?w) # ucast (?w AND 0xFF) # xs) 0 = uint ?w" for xs
    by (simp only: get2_octets word_octets)
  from Cons.prems(2) have "status_wf p" by simp
  then show ?case
  proof (cases rule: status_cases)
    case lost
    with p IH show ?thesis by (simp add: symbol_defs)
  next
    case small
    with p IH show ?thesis by (simp add: symbol_defs uint_to_byte_id)
  next
    case large
    with p IH show ?thesis by (simp add: symbol_defs g sint_delta Let_def)
  qed
qed

end

lemma and_24:
  assumes "0 \<le> v" and "v < 2 ^ 24"
  shows "v AND 0x00FFFFFF = (v :: int)"
proof -
  have "mask 24 = (0x00FFFFFF :: int)" by (simp add: mask_eq_exp_minus_1)
  with assms show ?thesis by (metis take_bit_eq_mask take_bit_int_eq_self)
qed

lemma padded_props: "n \<le> padded n" "padded n mod 4 = 0"
  unfolding padded_def by presburger+

lemma Encode_wf:
  "field_wf f \<Longrightarrow> Encode f = Some (chunks_of (map symbol (packets f)), concat (map delta_bytes (packets f)))"
  by (simp add: field_wf_def Encode_def symbols_of_wf)

lemma Feedback_GetSize_wf:
  "field_wf f \<Longrightarrow> Feedback_GetSize f = padded (HeaderBytes + 2 * length (chunks_of (map symbol (packets f)))
     + length (concat (map delta_bytes (packets f))))"
  by (simp add: Feedback_GetSize_def Encode_wf) (simp add: field_wf_def)

context medkit_network
begin

lemma Parse_Serialized:
  assumes wf: "field_wf f" and d: "Feedback_Serialize io bufsize f = Some d"
  shows "Feedback_Parse io d g = Some (f\<lparr>lastArrivalTicks := lastArrivalTicks g\<rparr>)"
proof -
  let ?sy = "map symbol (packets f)" and ?n = "int (length (packets f))"
  define tail where "tail = (\<lambda>z. concat (map (\<lambda>c. set2 io (uint c)) (chunks_of ?sy)) @ concat (map delta_bytes (packets f)) @ z)"
  obtain z where d: "d = set2 io (uint (baseSeq f)) @ set2 io ?n @ set3 io (referenceTicks f) @ [fbSeq f] @ tail z"
    using d wf by (auto simp: Feedback_Serialize_def Encode_wf field_wf_def Let_def tail_def and_24 split: if_splits)
  have w: "packets f \<noteq> []" "?n < 2 ^ 16" "contiguous (baseSeq f) (packets f)" "list_all status_wf (packets f)"
    using wf by (auto simp: field_wf_def)
  have "\<forall>s \<in> set ?sy. s < 4"
    using w(4) symbol_of_wf by (fastforce simp: list_all_iff)
  from read_chunks [OF this, of "length (packets f)" "[]" "concat (map delta_bytes (packets f)) @ z"]
  have s: "read_symbols io (length (packets f)) [] (tail z) = Some (?sy, concat (map delta_bytes (packets f)) @ z)"
    by (simp add: tail_def)
  have "get2 io d 0 = uint (baseSeq f)"
    using get2_set2 [of "uint (baseSeq f)"] uint_lt2p [of "baseSeq f"] by (simp add: d)
  moreover have "get2 io d 2 = ?n"
    using get2_append_right [of io "set2 io (uint (baseSeq f))" _ 0] get2_set2 [of ?n] w(2) by (simp add: d)
  moreover have "get3 io d 4 = referenceTicks f"
    using get3_set3 [of "referenceTicks f" "[fbSeq f] @ tail z"] wf
    by (simp add: d get3_def nth_append field_wf_def numeral_2_eq_2)
  moreover have "d ! 7 = fbSeq f" "drop HeaderBytes d = tail z"
    by (simp_all add: d nth_append HeaderBytes_def)
  moreover have "2 \<le> length (tail z)"
    using w(1) by (subst tail_def, subst chunks_of.simps) (auto simp: Let_def)
  then have "\<not> length d < HeaderBytes + 2" by (simp add: d HeaderBytes_def)
  ultimately show ?thesis
    using s w wf read_deltas_bytes [OF w(3,4), of z] length_deltas [OF w(4)]
    by (simp add: Feedback_Parse_def Let_def field_wf_def)
qed

end

lemma feedback_size:
  assumes "medkit_network io" and "field_wf f" and "Feedback_GetSize f \<le> bufsize"
  shows "\<exists>d. Feedback_Serialize io bufsize f = Some d \<and> length d = Feedback_GetSize f"
proof -
  have n: "packets f \<noteq> []" using assms(2) by (simp add: field_wf_def)
  have l: "length (concat (map (\<lambda>c. set2 io (uint c)) cs)) = 2 * length cs" for cs :: "16 word list"
    by (induction cs) auto
  from assms(3) n padded_props(1) [of "HeaderBytes + 2 * length (chunks_of (map symbol (packets f))) + length (concat (map delta_bytes (packets f)))"]
  show ?thesis
    by (simp add: Feedback_Serialize_def Encode_wf [OF assms(2)] Feedback_GetSize_wf [OF assms(2)] Let_def l HeaderBytes_def)
qed

text \<open>
  C14. Round trip of a feedback report. A report whose packets follow each other, with deltas of 16
  bits, takes \<open>GetSize\<close> octets, a multiple of four; \<open>Serialize\<close> writes exactly that many when the
  buffer holds them, and nothing otherwise; and what \<open>Parse\<close> reads from them is the report, with the
  status, the sequence number and the delta of every packet, whichever chunks were chosen.
\<close>

theorem feedback_roundtrip:
  assumes "medkit_network io" and "field_wf f"
  shows "Feedback_GetSize f mod 4 = 0
    \<and> (bufsize < Feedback_GetSize f \<longrightarrow> Feedback_Serialize io bufsize f = None)
    \<and> (Feedback_GetSize f \<le> bufsize \<longrightarrow> (\<exists>d. Feedback_Serialize io bufsize f = Some d \<and> length d = Feedback_GetSize f
        \<and> Feedback_Parse io d g = Some (f\<lparr>lastArrivalTicks := lastArrivalTicks g\<rparr>)))"
proof (intro conjI impI)
  note e = Encode_wf [OF assms(2)] and z = Feedback_GetSize_wf [OF assms(2)]
  have n: "packets f \<noteq> []" using assms(2) by (simp add: field_wf_def)
  show "Feedback_GetSize f mod 4 = 0" by (simp add: z padded_props)
  show "Feedback_Serialize io bufsize f = None" if "bufsize < Feedback_GetSize f"
    using that n by (simp add: Feedback_Serialize_def e z Let_def)
  assume "Feedback_GetSize f \<le> bufsize"
  from feedback_size [OF assms this]
  obtain d where "Feedback_Serialize io bufsize f = Some d" "length d = Feedback_GetSize f" by blast
  with medkit_network.Parse_Serialized [OF assms] show "\<exists>d. Feedback_Serialize io bufsize f = Some d \<and> length d = Feedback_GetSize f
        \<and> Feedback_Parse io d g = Some (f\<lparr>lastArrivalTicks := lastArrivalTicks g\<rparr>)"
    by blast
qed

definition sample_field :: FeedbackField where
  "sample_field = snd (AddReceived 65535 64400000 (snd (AddReceived 65533 64100000 (SetBase 65533 64100000 FeedbackField_new))))"

theorem feedback_roundtrip_witness:
  "packets sample_field =
     [\<lparr>ps_seq = 65533, ps_received = True, ps_deltaTicks = 144\<rparr>, \<lparr>ps_seq = 65534, ps_received = False, ps_deltaTicks = 0\<rparr>,
      \<lparr>ps_seq = 65535, ps_received = True, ps_deltaTicks = 1200\<rparr>]
   \<and> Feedback_GetSize sample_field = 16
   \<and> (\<exists>d. Feedback_Serialize network_order 1500 sample_field = Some d
       \<and> Feedback_Parse network_order d FeedbackField_new = Some (sample_field\<lparr>lastArrivalTicks := 0\<rparr>))"
proof -
  have p: "packets sample_field =
     [\<lparr>ps_seq = 65533, ps_received = True, ps_deltaTicks = 144\<rparr>, \<lparr>ps_seq = 65534, ps_received = False, ps_deltaTicks = 0\<rparr>,
      \<lparr>ps_seq = 65535, ps_received = True, ps_deltaTicks = 1200\<rparr>]" (is "_ = ?ps")
    and b: "baseSeq sample_field = 65533" "referenceTicks sample_field = 1001" "hasTimestamps sample_field"
    by (simp_all add: sample_field_def SetBase_def AddReceived_def FeedbackField_new_def Let_def TimeWrapUs_def BaseTickUs_def TickUs_def
        push_bit_eq_mult)
  then have w: "field_wf sample_field" by (simp add: field_wf_def status_wf_def)
  have "chunks_of (map symbol ?ps) = [vector_chunk [1, 0, 2]]"
    by (simp add: symbol_of_def symbol_defs chunks_of.simps run_length_def MaxRunLength_def)
  then have g: "Feedback_GetSize sample_field = 16"
    using Feedback_GetSize_wf [OF w] p by (simp add: HeaderBytes_def delta_bytes_def padded_def)
  from feedback_roundtrip [OF netw.medkit_network_axioms w, of 1500 FeedbackField_new] g p show ?thesis
    by (auto simp: FeedbackField_new_def)
qed

section \<open>Sequence numbers of 16 bits and of 64\<close>

definition UnwrapSeq16 :: "16 word \<Rightarrow> int \<Rightarrow> bool \<Rightarrow> int" where
  "UnwrapSeq16 seq lastSeq hasLastSeq =
    (if \<not> hasLastSeq then uint seq
     else
       let cycles = lastSeq AND NOT 0xFFFF;
           candidate = cycles OR uint seq;
           last = word_of_int (lastSeq AND 0xFFFF) :: 16 word;
           forward = seq - last in
       if forward < 0x8000
       then (if candidate < lastSeq then u64 (candidate + 0x10000) else candidate)
       else (if candidate \<ge> lastSeq \<and> candidate \<ge> 0x10000 then candidate - 0x10000 else candidate))"

lemma mask_16: "(0xFFFF :: int) = mask 16"
  by (simp add: mask_eq_exp_minus_1)

lemma high_part: "(v :: int) AND NOT 0xFFFF = push_bit 16 (v div 65536)"
  unfolding mask_16 by (rule bit_eqI) (auto simp: bit_simps simp flip: drop_bit_eq_div [of 16, simplified])

lemma low_part: "(v :: int) AND 0xFFFF = v mod 65536"
  by (simp add: mask_16 take_bit_eq_mask [symmetric] take_bit_eq_mod)

lemma join_parts: "push_bit 16 (c :: int) OR uint (seq :: 16 word) = 65536 * c + uint seq"
proof -
  have "\<not> bit (push_bit 16 c) n \<or> \<not> bit (uint seq) n" for n
    by (auto simp: bit_simps dest: bit_imp_le_length)
  from disjunctive_add [OF this] show ?thesis by (simp add: push_bit_eq_mult)
qed

lemma forward_nonneg:
  assumes "-32768 \<le> n" and "n < 32768"
  shows "(word_of_int (v + n) - word_of_int v :: 16 word) < 0x8000 \<longleftrightarrow> 0 \<le> n"
proof -
  have "word_of_int (v + n) - word_of_int v = (word_of_int n :: 16 word)" by simp
  moreover have "uint (word_of_int n :: 16 word) = (if 0 \<le> n then n else n + 65536)"
    using assms by (auto simp: uint_word_of_int mod_pos_pos_trivial) (simp add: mod_add_self2 [of n 65536, symmetric] del: mod_add_self2)
  ultimately show ?thesis
    using assms by (simp add: word_less_def)
qed

lemma Unwrap_near:
  assumes l: "0 \<le> lastSeq" "lastSeq + 65536 < 2 ^ 64" and n: "-32768 \<le> n" "n < 32768"
  shows "UnwrapSeq16 (word_of_int (lastSeq + n)) lastSeq True = (if 0 \<le> lastSeq + n then lastSeq + n else lastSeq + n + 65536)"
proof -
  define c where "c = lastSeq div 65536"
  define r where "r = lastSeq mod 65536"
  have c: "lastSeq = 65536 * c + r" "0 \<le> r" "r < 65536" "0 \<le> c" using l by (simp_all add: c_def r_def pos_imp_zdiv_nonneg_iff)
  have u: "uint (word_of_int (lastSeq + n) :: 16 word) = (r + n) mod 65536"
    unfolding uint_word_of_int c(1) add.assoc by simp
  have "word_of_int (lastSeq AND 0xFFFF) = (word_of_int lastSeq :: 16 word)"
    by (simp add: low_part word_of_int_eq_iff take_bit_eq_mod)
  then have f: "word_of_int (lastSeq + n) - word_of_int (lastSeq AND 0xFFFF) < (0x8000 :: 16 word) \<longleftrightarrow> 0 \<le> n"
    using forward_nonneg [OF n] by simp
  have e: "(lastSeq AND NOT 0xFFFF) OR uint (word_of_int (lastSeq + n) :: 16 word) = 65536 * c + (r + n) mod 65536"
    unfolding high_part join_parts by (simp only: u c_def)
  consider "0 \<le> r + n" "r + n < 65536" | "65536 \<le> r + n" | "r + n < 0" by linarith
  then have "(r + n) mod 65536 = (if r + n < 0 then r + n + 65536 else if r + n < 65536 then r + n else r + n - 65536)"
  proof cases
    case 2
    then have "(r + n - 65536) mod 65536 = r + n - 65536" using c n by (simp add: mod_pos_pos_trivial del: minus_mod_self2)
    with 2 show ?thesis by simp
  next
    case 3
    then have "(r + n + 65536) mod 65536 = r + n + 65536" using c n by (simp add: mod_pos_pos_trivial del: mod_add_self2)
    with 3 show ?thesis by simp
  qed simp
  with l c n show ?thesis
    unfolding UnwrapSeq16_def Let_def f e by (auto simp: u64_def mod_pos_pos_trivial)
qed

text \<open>
  \<open>UnwrapSeq16\<close> finds the number nearest to the last one: a number at most 32768 back or less than
  32768 ahead of it is recovered from its low 16 bits. The exception is the first cycle: a number
  from before the start would be negative, and it is taken for one ahead instead.
\<close>

theorem unwrap_nearest:
  assumes "0 \<le> lastSeq" and "lastSeq + 65536 < 2 ^ 64" and "-32768 \<le> n" and "n < 32768"
  shows "UnwrapSeq16 (word_of_int (lastSeq + n)) lastSeq True = (if 0 \<le> lastSeq + n then lastSeq + n else lastSeq + n + 65536)"
  using assms by (rule Unwrap_near)

theorem unwrap_nearest_witness:
  "UnwrapSeq16 (word_of_int 65537) 65530 True = 65537 \<and> UnwrapSeq16 (word_of_int (-1)) 0 True = 65535"
  using unwrap_nearest [of 65530 7] unwrap_nearest [of 0 "-1"] by simp

end
