(* ===== verification/FeedbackGenerator.thy ===== *)
theory FeedbackGenerator
  imports TransportFeedback
begin

text \<open>
  \<open>TransportWideFeedbackGenerator\<close> (\<open>transportfeedback.cpp\<close>): what was received is remembered under
  its unwrapped sequence number, and leaves in reports.
\<close>

section \<open>Model\<close>

definition MinIntervalUs :: int where "MinIntervalUs = 50000"
definition MaxIntervalUs :: int where "MaxIntervalUs = 250000"
definition DefaultIntervalUs :: int where "DefaultIntervalUs = 100000"
definition BackWindowUs :: int where "BackWindowUs = 500000"
definition ReportBytes :: int where "ReportBytes = 20 + 8 + 10 + 30"
definition MaxStatusPerReport :: int where "MaxStatusPerReport = 400"

record Generator =
  arrivals :: "int omap"
  lastSeq :: int
  hasLastSeq :: bool
  windowStart :: int
  hasWindowStart :: bool
  lastSendUs :: int
  intervalUs :: int
  mediaSSRC :: int
  nextFbSeq :: byte

definition Generator_new :: Generator where
  "Generator_new = \<lparr>arrivals = [], lastSeq = 0, hasLastSeq = False, windowStart = 0, hasWindowStart = False,
     lastSendUs = 0, intervalUs = DefaultIntervalUs, mediaSSRC = 0, nextFbSeq = 0\<rparr>"

fun purge :: "int \<Rightarrow> bool \<Rightarrow> int omap \<Rightarrow> int \<Rightarrow> int omap \<times> int" where
  "purge nowUs has [] ws = ([], ws)"
| "purge nowUs has ((old, arrival) # m) ws =
    (if u64 (arrival + BackWindowUs) < nowUs
     then purge nowUs has m (if has \<and> ws \<le> old then u64 (old + 1) else ws)
     else ((old, arrival) # m, ws))"

definition OnPacketReceived :: "int \<Rightarrow> 16 word \<Rightarrow> int \<Rightarrow> Generator \<Rightarrow> Generator" where
  "OnPacketReceived ssrc seq nowUs g =
    (let g = g\<lparr>mediaSSRC := ssrc\<rparr>;
         unwrapped = UnwrapSeq16 seq (lastSeq g) (hasLastSeq g);
         g = (if \<not> hasLastSeq g \<or> unwrapped > lastSeq g then g\<lparr>lastSeq := unwrapped, hasLastSeq := True\<rparr> else g);
         g = (if om_find unwrapped (arrivals g) = None then g\<lparr>arrivals := om_put unwrapped nowUs (arrivals g)\<rparr> else g);
         g = (if \<not> hasWindowStart g \<or> unwrapped < windowStart g then g\<lparr>windowStart := unwrapped, hasWindowStart := True\<rparr> else g);
         (m, ws) = purge nowUs (hasWindowStart g) (arrivals g) (windowStart g) in
     g\<lparr>arrivals := m, windowStart := ws\<rparr>)"

text \<open>From \<open>arrivals.lower_bound(windowStart)\<close> to the end.\<close>

definition lower_bound :: "int \<Rightarrow> int omap \<Rightarrow> int omap" where
  "lower_bound k m = dropWhile (\<lambda>e. fst e < k) m"

definition Generator_GetPendingCount :: "Generator \<Rightarrow> nat" where
  "Generator_GetPendingCount g = (if \<not> hasWindowStart g then 0 else length (lower_bound (windowStart g) (arrivals g)))"

definition HasPending :: "Generator \<Rightarrow> bool" where
  "HasPending g \<longleftrightarrow> hasWindowStart g \<and> lower_bound (windowStart g) (arrivals g) \<noteq> []"

definition ShouldSend :: "int \<Rightarrow> Generator \<Rightarrow> bool" where
  "ShouldSend nowUs g \<longleftrightarrow> HasPending g \<and> nowUs \<ge> u64 (lastSendUs g + intervalUs g)"

fun fill :: "int \<Rightarrow> int omap \<Rightarrow> FeedbackField \<Rightarrow> int \<Rightarrow> bool \<Rightarrow> FeedbackField \<times> int \<times> bool" where
  "fill base [] f covered any = (f, covered, any)"
| "fill base ((k, arrival) # m) f covered any =
    (if k - base + 1 > MaxStatusPerReport then (f, covered, any)
     else case AddReceived (word_of_int k) arrival f of
       (False, f) \<Rightarrow> (f, covered, any)
     | (True, f) \<Rightarrow> fill base m f k True)"

definition BuildFeedback :: "FeedbackField \<Rightarrow> int \<Rightarrow> Generator \<Rightarrow> bool \<times> FeedbackField \<times> Generator" where
  "BuildFeedback f nowUs g =
    (if \<not> hasWindowStart g then (False, f, g)
     else case lower_bound (windowStart g) (arrivals g) of
       [] \<Rightarrow> (False, f, g)
     | (base, first) # m \<Rightarrow>
         let f = (SetBase (word_of_int base) first f)\<lparr>fbSeq := nextFbSeq g\<rparr>;
             g = g\<lparr>nextFbSeq := nextFbSeq g + 1\<rparr>;
             (f, covered, any) = fill base ((base, first) # m) f base False in
         if \<not> any then (False, f, g\<lparr>windowStart := u64 (base + 1)\<rparr>)
         else (True, f, g\<lparr>windowStart := u64 (covered + 1), lastSendUs := nowUs\<rparr>))"

definition SetSendBitrate :: "int \<Rightarrow> Generator \<Rightarrow> Generator" where
  "SetSendBitrate bitrate g =
    (let twccBps = bitrate div 20 in
     if twccBps = 0 then g\<lparr>intervalUs := MaxIntervalUs\<rparr>
     else
       let interval = (ReportBytes * 8 * 1000000) div twccBps;
           interval = (if interval < MinIntervalUs then MinIntervalUs else interval);
           interval = (if interval > MaxIntervalUs then MaxIntervalUs else interval) in
       g\<lparr>intervalUs := interval\<rparr>)"

section \<open>What a report says\<close>

text \<open>
  The arrivals a reader gets from a report: the sequence numbers count from \<open>k\<close>, the deltas add up
  from \<open>ticks\<close>.
\<close>

fun arrived :: "int \<Rightarrow> int \<Rightarrow> PacketStatus list \<Rightarrow> (int \<times> int) list" where
  "arrived k ticks [] = []"
| "arrived k ticks (p # ps) =
    (if ps_received p then (k, ticks + ps_deltaTicks p) # arrived (k + 1) (ticks + ps_deltaTicks p) ps
     else arrived (k + 1) ticks ps)"

definition ticks_of :: "int \<Rightarrow> int" where
  "ticks_of arrivalUs = (arrivalUs mod TimeWrapUs) div TickUs"

fun final_ticks :: "int \<Rightarrow> PacketStatus list \<Rightarrow> int" where
  "final_ticks ticks [] = ticks"
| "final_ticks ticks (p # ps) = final_ticks (if ps_received p then ticks + ps_deltaTicks p else ticks) ps"

lemma arrived_append: "arrived k t (xs @ ys) = arrived k t xs @ arrived (k + int (length xs)) (final_ticks t xs) ys"
  by (induction xs arbitrary: k t) (auto simp: algebra_simps)

lemma final_ticks_append: "final_ticks t (xs @ ys) = final_ticks (final_ticks t xs) ys"
  by (induction xs arbitrary: t) auto

lemma contiguous_append: "contiguous seq (xs @ ys) \<longleftrightarrow> contiguous seq xs \<and> contiguous (seq + of_nat (length xs)) ys"
  by (induction xs arbitrary: seq) (auto simp: algebra_simps)

definition holes :: "16 word \<Rightarrow> nat \<Rightarrow> PacketStatus list" where
  "holes next n = map (\<lambda>i. \<lparr>ps_seq = next + of_nat i, ps_received = False, ps_deltaTicks = 0\<rparr>) [0..<n]"

lemma holes_Suc: "holes next (Suc n) = \<lparr>ps_seq = next, ps_received = False, ps_deltaTicks = 0\<rparr> # holes (next + 1) n"
  by (simp add: holes_def map_upt_Suc algebra_simps del: upt_Suc)

lemma length_holes [simp]: "length (holes next n) = n"
  by (simp add: holes_def)

lemma holes_props: "contiguous next (holes next n)" "arrived k t (holes next n) = []" "final_ticks t (holes next n) = t"
  "list_all status_wf (holes next n)"
  by (induction n arbitrary: "next" k t)
    (auto simp: holes_Suc status_wf_def, auto simp: holes_def)

lemma contiguous_last:
  assumes "contiguous seq ps" and "ps \<noteq> []"
  shows "ps_seq (last ps) + 1 = seq + of_nat (length ps)"
  using assms
proof (induction ps arbitrary: seq)
  case (Cons p ps)
  then show ?case
    using Cons.IH [of "seq + 1"] by (cases "ps = []") (auto simp: ac_simps)
qed simp

text \<open>A field under construction: it says what arrived, from \<open>base\<close> on.\<close>

definition building :: "int \<Rightarrow> int omap \<Rightarrow> FeedbackField \<Rightarrow> bool" where
  "building base m f \<longleftrightarrow> baseSeq f = word_of_int base \<and> contiguous (baseSeq f) (packets f) \<and> list_all status_wf (packets f)
     \<and> arrived base (256 * referenceTicks f) (packets f) = map (\<lambda>(k, t). (k, ticks_of t)) m
     \<and> final_ticks (256 * referenceTicks f) (packets f) = lastArrivalTicks f"

lemma AddReceived_building:
  assumes b: "building base m f" and a: "AddReceived (word_of_int k) arrival f = (True, f')"
    and k: "base + int (length (packets f)) \<le> k" "k - base < 32768"
  shows "building base (m @ [(k, arrival)]) f' \<and> int (length (packets f')) = k - base + 1
    \<and> referenceTicks f' = referenceTicks f \<and> fbSeq f' = fbSeq f \<and> hasTimestamps f' = hasTimestamps f"
proof -
  let ?ps = "packets f"
  define d where "d = nat (k - (base + int (length ?ps)))"
  define nxt where "nxt = baseSeq f + of_nat (length ?ps)"
  define delta where "delta = ticks_of arrival - lastArrivalTicks f"
  have n: "(if ?ps = [] then baseSeq f else ps_seq (last ?ps) + 1) = nxt"
    using b contiguous_last [of "baseSeq f" ?ps] by (auto simp: building_def nxt_def)
  have "word_of_int k - nxt = (of_nat d :: 16 word)"
    using b k(1) by (simp add: nxt_def building_def d_def)
  moreover have "d < 32768" using k by (simp add: d_def)
  ultimately have g: "unat (word_of_int k - nxt) = d" "\<not> word_of_int k - nxt > 0x7FFF"
    by (simp_all add: unat_of_nat word_less_nat_alt)
  have f': "f' = f\<lparr>packets := ?ps @ holes nxt d @ [\<lparr>ps_seq = word_of_int k, ps_received = True, ps_deltaTicks = delta\<rparr>],
      lastArrivalTicks := ticks_of arrival\<rparr>" and "-32768 \<le> delta" "delta \<le> 32767"
    using a g unfolding AddReceived_def n by (auto simp: Let_def holes_def ticks_of_def delta_def split: if_splits)
  moreover have "nxt + of_nat d = word_of_int k"
    using b k(1) by (simp add: nxt_def building_def d_def)
  ultimately show ?thesis
    using b k by (auto simp: building_def contiguous_append arrived_append final_ticks_append holes_props status_wf_def
        nxt_def delta_def d_def)
qed

section \<open>A report is a prefix of what is pending\<close>

lemma lower_bound_filter: "om_sorted m \<Longrightarrow> lower_bound k m = filter (\<lambda>e. k \<le> fst e) m"
proof (induction m)
  case (Cons e m)
  obtain x t where e: "e = (x, t)" by (cases e)
  from Cons.prems have s: "om_sorted m" "\<forall>e \<in> set m. x < fst e" by (simp_all add: e om_sorted_Cons)
  then have "\<not> x < k \<Longrightarrow> filter (\<lambda>e. k \<le> fst e) m = m" by (auto simp: filter_id_conv)
  with Cons.IH [OF s(1)] show ?case by (auto simp: lower_bound_def e)
qed (simp add: lower_bound_def)

lemma lower_bound_after:
  assumes "om_sorted m" and "lower_bound w m = pre @ post" and "pre \<noteq> []"
  shows "lower_bound (fst (last pre) + 1) m = post"
proof -
  let ?k = "fst (last pre) + 1"
  have pp: "filter (\<lambda>e. w \<le> fst e) m = pre @ post" using assms by (simp add: lower_bound_filter)
  have s: "om_sorted (pre @ post)"
    using om_sorted_filter [OF assms(1), of "\<lambda>e. w \<le> fst e"] by (simp add: pp)
  have "last pre \<in> set (filter (\<lambda>e. w \<le> fst e) m)"
    using assms(3) by (simp add: pp)
  then have "filter (\<lambda>e. ?k \<le> fst e) m = filter (\<lambda>e. ?k \<le> fst e) (pre @ post)"
    unfolding pp [symmetric] by (auto intro: filter_cong)
  moreover have "filter (\<lambda>e. ?k \<le> fst e) pre = []"
  proof -
    obtain xs x where "pre = xs @ [x]" using assms(3) by (cases pre rule: rev_cases) auto
    with s show ?thesis by (fastforce simp: filter_empty_conv om_sorted_append)
  qed
  moreover have "\<forall>e \<in> set post. ?k \<le> fst e"
    using s last_in_set [OF assms(3)] by (auto simp: om_sorted_append zless_imp_add1_zle)
  then have "filter (\<lambda>e. ?k \<le> fst e) post = post" by (simp add: filter_id_conv)
  ultimately show ?thesis
    using assms(1) by (simp add: lower_bound_filter)
qed

lemma fill_building:
  assumes "building base before f" and "om_sorted m" and "\<forall>e \<in> set m. base + int (length (packets f)) \<le> fst e"
    and "fill base m f covered any = (f', covered', any')"
  shows "\<exists>pre post. m = pre @ post \<and> building base (before @ pre) f'
    \<and> referenceTicks f' = referenceTicks f \<and> fbSeq f' = fbSeq f \<and> hasTimestamps f' = hasTimestamps f
    \<and> (if pre = [] then f' = f \<and> any' = any \<and> covered' = covered
       else any' \<and> covered' = fst (last pre) \<and> int (length (packets f')) = covered' - base + 1 \<and> covered' - base + 1 \<le> 400)"
  using assms
proof (induction m arbitrary: before f covered any)
  case Nil
  then show ?case by auto
next
  case (Cons e m)
  obtain k arrival where e: "e = (k, arrival)" by (cases e)
  show ?case
  proof (cases "k - base + 1 > MaxStatusPerReport \<or> \<not> fst (AddReceived (word_of_int k) arrival f)")
    case True
    moreover have "\<not> fst (AddReceived (word_of_int k) arrival f) \<Longrightarrow> AddReceived (word_of_int k) arrival f = (False, f)"
      by (auto simp: AddReceived_def Let_def split: if_splits)
    ultimately have "f' = f \<and> any' = any \<and> covered' = covered" using Cons.prems(4) by (auto simp: e split: if_splits)
    with Cons.prems(1) show ?thesis by (intro exI [of _ "[]"] exI [of _ "e # m"]) simp
  next
    case False
    then obtain f1 where a: "AddReceived (word_of_int k) arrival f = (True, f1)" and k: "k - base + 1 \<le> 400"
      by (cases "AddReceived (word_of_int k) arrival f") (auto simp: MaxStatusPerReport_def)
    from AddReceived_building [OF Cons.prems(1) a] Cons.prems(3) k
    have f1: "building base (before @ [(k, arrival)]) f1" "int (length (packets f1)) = k - base + 1"
      "referenceTicks f1 = referenceTicks f" "fbSeq f1 = fbSeq f" "hasTimestamps f1 = hasTimestamps f" by (auto simp: e)
    have m: "om_sorted m" "\<forall>x \<in> set m. base + int (length (packets f1)) \<le> fst x"
      using Cons.prems(2) f1(2) by (auto simp: e om_sorted_Cons)
    have "fill base m f1 k True = (f', covered', any')"
      using Cons.prems(4) k a by (simp add: e MaxStatusPerReport_def)
    from Cons.IH [OF f1(1) m this] obtain pre post where "m = pre @ post" "building base ((before @ [(k, arrival)]) @ pre) f'"
      "referenceTicks f' = referenceTicks f1" "fbSeq f' = fbSeq f1" "hasTimestamps f' = hasTimestamps f1"
      "if pre = [] then f' = f1 \<and> any' = True \<and> covered' = k
         else any' \<and> covered' = fst (last pre) \<and> int (length (packets f')) = covered' - base + 1 \<and> covered' - base + 1 \<le> 400" by blast
    then show ?thesis
      using f1 k by (intro exI [of _ "e # pre"] exI [of _ post]) (auto simp: e split: if_splits)
  qed
qed

lemma SetBase_building: "building base [] ((SetBase (word_of_int base) arrival f)\<lparr>fbSeq := b\<rparr>)"
  by (simp add: building_def SetBase_def Let_def push_bit_eq_mult)

lemma ticks_split: "ticks_of arrival - 256 * ((arrival mod TimeWrapUs) div BaseTickUs) = ticks_of arrival mod 256"
proof -
  have "(arrival mod TimeWrapUs) div BaseTickUs = ticks_of arrival div 256"
    by (simp add: ticks_of_def BaseTickUs_def TickUs_def push_bit_eq_mult div_mult2_eq' zdiv_zmult2_eq [symmetric])
  then show ?thesis by (simp add: minus_mult_div_eq_mod)
qed

lemma SetBase_first: "fst (AddReceived (word_of_int base) arrival ((SetBase (word_of_int base) arrival f)\<lparr>fbSeq := b\<rparr>))"
proof -
  have "ticks_of arrival mod 256 < 256" "0 \<le> ticks_of arrival mod 256" by simp_all
  then show ?thesis
    using ticks_split [of arrival]
    by (auto simp: AddReceived_def SetBase_def Let_def push_bit_eq_mult ticks_of_def)
qed

lemma reference_24: "0 \<le> (arrival mod TimeWrapUs) div BaseTickUs" "(arrival mod TimeWrapUs) div BaseTickUs < 2 ^ 24"
proof -
  have "TimeWrapUs = 64000 * 16777216" "BaseTickUs = 64000"
    by (simp_all add: TimeWrapUs_def BaseTickUs_def TickUs_def push_bit_eq_mult)
  moreover have "arrival mod (64000 * 16777216) = 64000 * (arrival div 64000 mod 16777216) + arrival mod 64000"
    by (rule zmod_zmult2_eq) simp
  ultimately have "(arrival mod TimeWrapUs) div BaseTickUs = arrival div 64000 mod 16777216" by simp
  then show "0 \<le> (arrival mod TimeWrapUs) div BaseTickUs" "(arrival mod TimeWrapUs) div BaseTickUs < 2 ^ 24"
    by simp_all
qed

definition pending :: "Generator \<Rightarrow> int omap" where
  "pending g = (if hasWindowStart g then lower_bound (windowStart g) (arrivals g) else [])"

text \<open>What the generator keeps: the arrivals it remembers stand in order below \<open>bound\<close>.\<close>

definition gen_inv :: "int \<Rightarrow> Generator \<Rightarrow> bool" where
  "gen_inv bound g \<longleftrightarrow> om_sorted (arrivals g) \<and> (\<forall>e \<in> set (arrivals g). 0 \<le> fst e \<and> fst e \<le> lastSeq g)
     \<and> 0 \<le> lastSeq g \<and> lastSeq g < bound \<and> (\<not> hasLastSeq g \<longrightarrow> arrivals g = [])"

lemma BuildFeedback_prefix:
  assumes inv: "gen_inv bound g" "bound < 2 ^ 64" and h: "HasPending g"
  obtains f g' pre post where "BuildFeedback FeedbackField_new nowUs g = (True, f, g')" "pending g = pre @ post" "pre \<noteq> []"
    "building (fst (hd pre)) pre f" "field_wf f" "length (packets f) \<le> 400" "pending g' = post" "gen_inv bound g'"
proof -
  obtain base first m where p: "lower_bound (windowStart g) (arrivals g) = (base, first) # m" and w: "hasWindowStart g"
    using h by (cases "lower_bound (windowStart g) (arrivals g)") (auto simp: HasPending_def)
  have s: "om_sorted ((base, first) # m)"
    using inv p om_sorted_filter [of "arrivals g" "\<lambda>e. windowStart g \<le> fst e"] by (simp add: gen_inv_def lower_bound_filter)
  define f0 where "f0 = (SetBase (word_of_int base) first FeedbackField_new)\<lparr>fbSeq := nextFbSeq g\<rparr>"
  have e0: "packets f0 = []" "hasTimestamps f0" "referenceTicks f0 = (first mod TimeWrapUs) div BaseTickUs"
    by (simp_all add: f0_def SetBase_def Let_def FeedbackField_new_def)
  obtain f1 where a: "AddReceived (word_of_int base) first f0 = (True, f1)"
    using SetBase_first [of base first "nextFbSeq g" FeedbackField_new] by (cases "AddReceived (word_of_int base) first f0") (simp add: f0_def)
  have "building base [] f0" by (simp add: f0_def SetBase_building)
  from AddReceived_building [OF this a] have f1: "building base [(base, first)] f1" "int (length (packets f1)) = 1"
    "referenceTicks f1 = referenceTicks f0" "hasTimestamps f1" by (simp_all add: e0)
  obtain f covered any where f: "fill base m f1 base True = (f, covered, any)"
    by (cases "fill base m f1 base True") auto
  have "\<forall>e \<in> set m. base + int (length (packets f1)) \<le> fst e" "om_sorted m"
    using s f1(2) by (auto simp: om_sorted_Cons)
  from fill_building [OF f1(1) this(2,1) f] obtain pre post where pp: "m = pre @ post" "building base ((base, first) # pre) f"
    "referenceTicks f = referenceTicks f1" "hasTimestamps f = hasTimestamps f1"
    "if pre = [] then f = f1 \<and> any = True \<and> covered = base
       else any \<and> covered = fst (last pre) \<and> int (length (packets f)) = covered - base + 1 \<and> covered - base + 1 \<le> 400"
    by auto
  let ?pre = "(base, first) # pre"
  have c: "any" "covered = fst (last ?pre)" "length (packets f) \<le> 400" "packets f \<noteq> []"
    using pp(5) f1(2) pp(2) by (auto simp: building_def split: if_splits)
  define g' where "g' = g\<lparr>nextFbSeq := nextFbSeq g + 1, windowStart := u64 (covered + 1), lastSendUs := nowUs\<rparr>"
  have "last ?pre \<in> set (lower_bound (windowStart g) (arrivals g))" using p pp(1) by auto
  then have "last ?pre \<in> set (arrivals g)" using set_dropWhileD by (fastforce simp: lower_bound_def)
  with inv c(2) have u: "u64 (covered + 1) = covered + 1" by (auto simp: gen_inv_def u64_def)
  show thesis
  proof
    show "BuildFeedback FeedbackField_new nowUs g = (True, f, g')"
      using w p a f c(1) by (simp add: BuildFeedback_def f0_def [symmetric] MaxStatusPerReport_def g'_def)
    show "pending g = ?pre @ post" using w p pp(1) by (simp add: pending_def)
    show "building (fst (hd ?pre)) ?pre f" using pp(2) by simp
    show "field_wf f"
      using pp c f1 reference_24 [of first] by (auto simp: field_wf_def building_def e0)
    show "gen_inv bound g'" using inv by (simp add: gen_inv_def g'_def)
    show "pending g' = post"
      using lower_bound_after [of "arrivals g" "windowStart g" ?pre post] inv p pp(1) w c(2) u
      by (simp add: gen_inv_def pending_def g'_def)
  qed (use c in simp_all)
qed

section \<open>Receiving\<close>

lemma seq_near:
  obtains n where "-32768 \<le> n" "n < 32768" "seq = (word_of_int (l + n) :: 16 word)"
proof
  let ?n = "sint (seq - word_of_int l)"
  show "-32768 \<le> ?n" "?n < 32768"
    using sint_ge [of "seq - word_of_int l"] sint_lt [of "seq - word_of_int l"] by simp_all
  show "seq = word_of_int (l + ?n)" by simp
qed

lemma Unwrap_bounds:
  assumes "0 \<le> l" and "l + 65536 < 2 ^ 64"
  shows "0 \<le> UnwrapSeq16 seq l has \<and> UnwrapSeq16 seq l has \<le> l + 65535"
proof (cases has)
  case True
  obtain n where n: "-32768 \<le> n" "n < 32768" "seq = word_of_int (l + n)" by (rule seq_near)
  from Unwrap_near [OF assms n(1,2)] n assms True show ?thesis by (auto simp del: of_int_add)
next
  case False
  with assms uint_lt2p [of seq] show ?thesis by (simp add: UnwrapSeq16_def)
qed

lemma purge_suffix: "\<exists>pre. m = pre @ fst (purge nowUs has m ws)"
proof (induction nowUs has m ws rule: purge.induct)
  case (2 nowUs has old arrival m ws)
  then show ?case
  proof (cases "u64 (arrival + BackWindowUs) < nowUs")
    case True
    with 2 obtain pre where "m = pre @ fst (purge nowUs has m (if has \<and> ws \<le> old then u64 (old + 1) else ws))" by blast
    with True have "(old, arrival) # m = ((old, arrival) # pre) @ fst (purge nowUs has ((old, arrival) # m) ws)" by simp
    then show ?thesis by blast
  qed simp
qed simp

lemma OnPacketReceived_inv:
  assumes "gen_inv bound g" and "bound + 65536 \<le> 2 ^ 64"
  shows "gen_inv (bound + 65536) (OnPacketReceived ssrc seq nowUs g)"
proof -
  define u where "u = UnwrapSeq16 seq (lastSeq g) (hasLastSeq g)"
  have u: "0 \<le> u" "u \<le> lastSeq g + 65535"
    using Unwrap_bounds [of "lastSeq g" seq "hasLastSeq g"] assms by (simp_all add: u_def gen_inv_def)
  define m where "m = (if om_find u (arrivals g) = None then om_put u nowUs (arrivals g) else arrivals g)"
  define l where "l = (if \<not> hasLastSeq g \<or> u > lastSeq g then u else lastSeq g)"
  have "\<exists>h w. arrivals (OnPacketReceived ssrc seq nowUs g) = fst (purge nowUs h m w)"
    unfolding OnPacketReceived_def by (auto simp: Let_def case_prod_beta m_def u_def)
  with purge_suffix obtain pre where p: "m = pre @ arrivals (OnPacketReceived ssrc seq nowUs g)" by metis
  have l: "lastSeq (OnPacketReceived ssrc seq nowUs g) = l" "hasLastSeq (OnPacketReceived ssrc seq nowUs g)"
    unfolding OnPacketReceived_def by (auto simp: Let_def case_prod_beta l_def u_def)
  have "om_sorted m" using assms(1) by (simp add: m_def gen_inv_def om_sorted_put)
  moreover have "fst ` set m \<subseteq> insert u (fst ` set (arrivals g))"
    using om_keys_put [of u nowUs "arrivals g"] by (auto simp: m_def om_keys_def)
  then have "\<forall>e \<in> set m. 0 \<le> fst e \<and> fst e \<le> l"
    using assms(1) u by (fastforce simp: gen_inv_def l_def)
  ultimately show ?thesis
    using assms(1) u p l by (auto simp: gen_inv_def om_sorted_append l_def)
qed

text \<open>Every history of the generator: arrivals, reports that leave, changes of the bitrate.\<close>

datatype gen_op = Received int "16 word" int | Reported int | Bitrate int

fun gen_step :: "gen_op \<Rightarrow> Generator \<Rightarrow> Generator" where
  "gen_step (Received ssrc seq nowUs) g = OnPacketReceived ssrc seq nowUs g"
| "gen_step (Reported nowUs) g = snd (snd (BuildFeedback FeedbackField_new nowUs g))"
| "gen_step (Bitrate b) g = SetSendBitrate b g"

lemma BuildFeedback_none: "\<not> HasPending g \<Longrightarrow> BuildFeedback f nowUs g = (False, f, g)"
  by (auto simp: HasPending_def BuildFeedback_def split: list.split)

lemma gen_step_inv:
  assumes "gen_inv bound g" and "bound + 65536 \<le> 2 ^ 64"
  shows "gen_inv (bound + 65536) (gen_step x g)"
proof (cases x)
  case (Received ssrc seq nowUs)
  with OnPacketReceived_inv [OF assms] show ?thesis by simp
next
  case (Reported nowUs)
  show ?thesis
  proof (cases "HasPending g")
    case True
    have "bound < 2 ^ 64" using assms(2) by simp
    from BuildFeedback_prefix [OF assms(1) this True]
    obtain f g' where "BuildFeedback FeedbackField_new nowUs g = (True, f, g')" "gen_inv bound g'" by metis
    with Reported show ?thesis by (auto simp: gen_inv_def)
  next
    case False
    with Reported assms show ?thesis by (auto simp: BuildFeedback_none gen_inv_def)
  qed
next
  case (Bitrate b)
  with assms show ?thesis by (auto simp: SetSendBitrate_def Let_def gen_inv_def)
qed

lemma gen_run_inv:
  assumes "length ops < 2 ^ 47"
  shows "gen_inv (65536 * (int (length ops) + 1)) (fold gen_step ops Generator_new)"
  using assms
proof (induction ops rule: rev_induct)
  case Nil
  then show ?case by (simp add: gen_inv_def Generator_new_def)
next
  case (snoc x ops)
  then have "gen_inv (65536 * (int (length ops) + 1) + 65536) (gen_step x (fold gen_step ops Generator_new))"
    by (intro gen_step_inv) auto
  then show ?case by (simp add: algebra_simps)
qed


text \<open>Two packets with one missing between them, the second 300 ms later.\<close>

definition generator_ops :: "gen_op list" where
  "generator_ops = [Received 7 65534 1000000, Received 7 0 1300000]"

lemma word_65536: "(65536 :: 16 word) = 0"
  by (simp only: word_uint_eq_iff) simp

lemma sample_unwrap: "UnwrapSeq16 0 65534 True = 65536"
  using Unwrap_near [of 65534 2] by (simp add: word_65536)

lemma sample_run:
  "arrivals (fold gen_step generator_ops Generator_new) = [(65534, 1000000), (65536, 1300000)]"
  "windowStart (fold gen_step generator_ops Generator_new) = 65534" "hasWindowStart (fold gen_step generator_ops Generator_new)"
  by (simp_all add: generator_ops_def OnPacketReceived_def Generator_new_def Let_def UnwrapSeq16_def [of 65534] sample_unwrap
      om_find_def u64_def BackWindowUs_def)


text \<open>Reports one after the other, until nothing is pending.\<close>

fun reports :: "nat \<Rightarrow> int \<Rightarrow> Generator \<Rightarrow> FeedbackField list \<times> Generator" where
  "reports 0 nowUs g = ([], g)"
| "reports (Suc n) nowUs g =
    (case BuildFeedback FeedbackField_new nowUs g of
       (True, f, g) \<Rightarrow> (case reports n nowUs g of (fs, g) \<Rightarrow> (f # fs, g))
     | (False, f, g) \<Rightarrow> ([], g))"

definition received_seqs :: "FeedbackField \<Rightarrow> 16 word list" where
  "received_seqs f = map ps_seq (filter ps_received (packets f))"

lemma arrived_seqs:
  "contiguous (word_of_int k) ps \<Longrightarrow> map ps_seq (filter ps_received ps) = map (\<lambda>e. word_of_int (fst e)) (arrived k t ps)"
  by (induction ps arbitrary: k t) (auto simp: algebra_simps)

lemma building_seqs: "building base m f \<Longrightarrow> received_seqs f = map (\<lambda>e. word_of_int (fst e)) m"
  using arrived_seqs [of base "packets f" "256 * referenceTicks f"]
  by (auto simp: building_def received_seqs_def case_prod_beta)

lemma GetPendingCount_pending: "Generator_GetPendingCount g = length (pending g)"
  by (simp add: Generator_GetPendingCount_def pending_def)

lemma HasPending_pending: "HasPending g \<longleftrightarrow> pending g \<noteq> []"
  by (simp add: HasPending_def pending_def)

lemma reports_drain:
  assumes "gen_inv bound g" and "bound < 2 ^ 64" and "length (pending g) \<le> n" and "reports n nowUs g = (fs, g')"
  shows "concat (map received_seqs fs) = map (\<lambda>e. word_of_int (fst e)) (pending g) \<and> pending g' = []
    \<and> (\<forall>f \<in> set fs. field_wf f \<and> length (packets f) \<le> 400)"
  using assms(1,3,4)
proof (induction n arbitrary: g fs)
  case 0
  then show ?case by simp
next
  case (Suc n)
  show ?case
  proof (cases "HasPending g")
    case True
    obtain f g1 pre post where b: "BuildFeedback FeedbackField_new nowUs g = (True, f, g1)" "pending g = pre @ post" "pre \<noteq> []"
      "building (fst (hd pre)) pre f" "field_wf f" "length (packets f) \<le> 400" "pending g1 = post" "gen_inv bound g1"
      by (rule BuildFeedback_prefix [OF Suc.prems(1) assms(2) True])
    obtain fs1 where r: "reports n nowUs g1 = (fs1, g')" "fs = f # fs1"
      using Suc.prems(3) b(1) by (auto split: prod.splits)
    have "length (pending g1) \<le> n" using b(2,3,7) Suc.prems(2) by (cases pre) auto
    from Suc.IH [OF b(8) this r(1)] show ?thesis
      using b r(2) building_seqs [OF b(4)] by auto
  next
    case False
    with Suc.prems show ?thesis by (auto simp: BuildFeedback_none HasPending_pending)
  qed
qed



end
