(* ===== verification/SentHistory.thy ===== *)
theory SentHistory
  imports FeedbackGenerator
begin

text \<open>
  \<open>SentPacketHistory\<close> (\<open>sentpackethistory.cpp\<close>): what was sent, under its unwrapped sequence number,
  and the matching of a report of the peer with it.
\<close>

section \<open>Model\<close>

record Sent =
  sn_timeUs :: int
  sn_size :: int
  sn_acked :: bool

record Result =
  r_sentTimeUs :: int
  r_recvTimeUs :: int
  r_size :: int

definition WindowUs :: int where
  "WindowUs = 60 * 1000000"

record History =
  h_history :: "Sent omap"
  h_lastSeq :: int
  h_hasLastSeq :: bool
  h_lastRecvTicks :: int
  h_hasLastRecvTicks :: bool

definition History_new :: History where
  "History_new = \<lparr>h_history = [], h_lastSeq = 0, h_hasLastSeq = False, h_lastRecvTicks = 0, h_hasLastRecvTicks = False\<rparr>"

definition Unwrap :: "16 word \<Rightarrow> History \<Rightarrow> int" where
  "Unwrap seq h = UnwrapSeq16 seq (h_lastSeq h) (h_hasLastSeq h)"

definition OnPacketSent :: "16 word \<Rightarrow> int \<Rightarrow> int \<Rightarrow> History \<Rightarrow> History" where
  "OnPacketSent seq nowUs sz h =
    (let unwrapped = Unwrap seq h;
         h = (if \<not> h_hasLastSeq h \<or> unwrapped > h_lastSeq h then h\<lparr>h_lastSeq := unwrapped, h_hasLastSeq := True\<rparr> else h);
         m = om_put unwrapped \<lparr>sn_timeUs = nowUs, sn_size = sz, sn_acked = False\<rparr> (h_history h) in
     h\<lparr>h_history := dropWhile (\<lambda>e. u64 (sn_timeUs (snd e) + WindowUs) < nowUs) m\<rparr>)"

definition WrapTicks :: int where
  "WrapTicks = push_bit 32 1"

text \<open>The reference time of the report, at the nearest of the periods around the last arrival seen.\<close>

definition base_ticks :: "int \<Rightarrow> History \<Rightarrow> int" where
  "base_ticks reference h =
    (let baseTicks = push_bit 8 reference in
     if h_hasLastRecvTicks h then
       let cycles = h_lastRecvTicks h div WrapTicks;
           candidate = u64 (cycles * WrapTicks + baseTicks);
           up = u64 (candidate + WrapTicks);
           down = (if candidate \<ge> WrapTicks then candidate - WrapTicks else candidate);
           dist = (\<lambda>v. if v > h_lastRecvTicks h then v - h_lastRecvTicks h else h_lastRecvTicks h - v);
           best = candidate;
           best = (if dist up < dist best then up else best);
           best = (if dist down < dist best then down else best) in
       best
     else baseTicks)"

text \<open>The loop over the packets: results, lost, unknown, \<open>sawReceived\<close>, \<open>arrivalTicks\<close>, history.\<close>

fun match :: "bool \<Rightarrow> PacketStatus list \<Rightarrow> int \<Rightarrow> History \<Rightarrow> Result list \<times> nat \<times> nat \<times> bool \<times> int \<times> History" where
  "match stamped [] ticks h = ([], 0, 0, False, ticks, h)"
| "match stamped (p # ps) ticks h =
    (if \<not> ps_received p then
       (case match stamped ps ticks h of (rs, lost, unknown, saw, t, h) \<Rightarrow> (rs, lost + 1, unknown, saw, t, h))
     else
       let ticks = (if stamped then u64 (ticks + ps_deltaTicks p) else ticks);
           unwrapped = Unwrap (ps_seq p) h in
       case om_find unwrapped (h_history h) of
         None \<Rightarrow> (case match stamped ps ticks h of (rs, lost, unknown, saw, t, h) \<Rightarrow> (rs, lost, unknown + 1, True, t, h))
       | Some s \<Rightarrow>
           if sn_acked s then
             (case match stamped ps ticks h of (rs, lost, unknown, saw, t, h) \<Rightarrow> (rs, lost, unknown, True, t, h))
           else
             (case match stamped ps ticks (h\<lparr>h_history := om_put unwrapped (s\<lparr>sn_acked := True\<rparr>) (h_history h)\<rparr>) of
                (rs, lost, unknown, saw, t, h) \<Rightarrow>
                  (\<lparr>r_sentTimeUs = sn_timeUs s, r_recvTimeUs = u64 (ticks * TickUs), r_size = sn_size s\<rparr> # rs, lost, unknown, True, t, h)))"

definition ProcessFeedback :: "FeedbackField \<Rightarrow> History \<Rightarrow> Result list \<times> nat \<times> nat \<times> History" where
  "ProcessFeedback f h =
    (case match (hasTimestamps f) (packets f) (base_ticks (referenceTicks f) h) h of
       (results, lost, unknown, sawReceived, arrivalTicks, h) \<Rightarrow>
         (results, lost, unknown,
          if hasTimestamps f \<and> sawReceived then h\<lparr>h_lastRecvTicks := arrivalTicks, h_hasLastRecvTicks := True\<rparr> else h))"

section \<open>The reference time\<close>

lemma base_ticks_nearest:
  assumes b: "0 \<le> b" "b < 2 ^ 62" "b mod 2 ^ 32 = 256 * reference" and l: "0 \<le> h_lastRecvTicks h" "h_lastRecvTicks h < 2 ^ 62"
    and n: "h_hasLastRecvTicks h" "\<bar>b - h_lastRecvTicks h\<bar> < 2 ^ 31"
  shows "base_ticks reference h = b"
proof -
  define l where "l = h_lastRecvTicks h"
  define c where "c = l div 2 ^ 32"
  define q where "q = b div 2 ^ 32"
  have q: "b = 2 ^ 32 * q + 256 * reference" "0 \<le> q" using b(1) by (simp_all add: q_def pos_imp_zdiv_nonneg_iff flip: b(3))
  have c: "2 ^ 32 * c \<le> l" "l < 2 ^ 32 * c + 2 ^ 32" "0 \<le> c" using l by (simp_all add: c_def l_def pos_imp_zdiv_nonneg_iff)
  have r: "0 \<le> 256 * reference" "256 * reference < 2 ^ 32" using b(3) by (metis pos_mod_sign pos_mod_bound zero_less_numeral zero_less_power)+
  have d: "q = c - 1 \<or> q = c \<or> q = c + 1"
    using q(1) c r n(2) unfolding l_def [symmetric] by (simp; linarith)
  define cand where "cand = 2 ^ 32 * c + 256 * reference"
  have k: "u64 (h_lastRecvTicks h div WrapTicks * WrapTicks + push_bit 8 reference) = cand"
    "u64 (cand + WrapTicks) = cand + 2 ^ 32" "WrapTicks = 2 ^ 32"
    using c r l by (simp_all add: u64_def WrapTicks_def push_bit_eq_mult l_def c_def cand_def)
  have a: "(\<lambda>v. if v > h_lastRecvTicks h then v - h_lastRecvTicks h else h_lastRecvTicks h - v) = (\<lambda>v. \<bar>v - l\<bar>)"
    by (auto simp: fun_eq_iff l_def)
  have t: "base_ticks reference h =
      (let best = (if \<bar>cand + 2 ^ 32 - l\<bar> < \<bar>cand - l\<bar> then cand + 2 ^ 32 else cand);
           down = (if cand \<ge> 2 ^ 32 then cand - 2 ^ 32 else cand) in
       if \<bar>down - l\<bar> < \<bar>best - l\<bar> then down else best)"
    unfolding base_ticks_def Let_def a k(1) unfolding k(2) unfolding k(3) by (simp only: n(1) if_True)
  have e: "b = cand + 2 ^ 32 * (q - c)" and near: "\<bar>b - l\<bar> < 2 ^ 31"
    using q(1) n(2) by (simp_all add: cand_def l_def algebra_simps)
  from d show ?thesis
  proof (elim disjE)
    assume "q = c - 1"
    with e have "cand = b + 2 ^ 32" by simp
    with near b(1) show ?thesis by (simp add: t Let_def)
  next
    assume "q = c"
    with e have "cand = b" by simp
    with near b(1) show ?thesis by (simp add: t Let_def) linarith
  next
    assume "q = c + 1"
    with e have "cand = b - 2 ^ 32" by simp
    with near b(1) show ?thesis by (simp add: t Let_def)
  qed
qed

section \<open>The matching\<close>

text \<open>What the sender should get: for every arrival it remembers and was not told of, the two times.\<close>

definition measured :: "Sent omap \<Rightarrow> (int \<times> int) list \<Rightarrow> Result list" where
  "measured m as = concat (map (\<lambda>(k, t).
     case om_find k m of
       None \<Rightarrow> []
     | Some s \<Rightarrow> if sn_acked s then []
         else [\<lparr>r_sentTimeUs = sn_timeUs s, r_recvTimeUs = u64 (t * TickUs), r_size = sn_size s\<rparr>]) as)"

lemma measured_cong: "(\<And>k t. (k, t) \<in> set as \<Longrightarrow> om_find k m = om_find k m') \<Longrightarrow> measured m as = measured m' as"
  unfolding measured_def by (intro arg_cong [where f = concat] map_cong) auto

lemma measured_Cons:
  "measured m ((k, t) # as) = (case om_find k m of
       None \<Rightarrow> []
     | Some s \<Rightarrow> if sn_acked s then []
         else [\<lparr>r_sentTimeUs = sn_timeUs s, r_recvTimeUs = u64 (t * TickUs), r_size = sn_size s\<rparr>]) @ measured m as"
  by (simp add: measured_def)

lemma arrived_keys: "(x, t) \<in> set (arrived k ticks ps) \<Longrightarrow> k \<le> x \<and> x < k + int (length ps)"
  by (induction ps arbitrary: k ticks) (auto split: if_splits, force+)

text \<open>The sequence numbers of the report are near the last one sent.\<close>

definition near :: "int \<Rightarrow> History \<Rightarrow> bool" where
  "near k h \<longleftrightarrow> 0 \<le> k \<and> -32768 \<le> k - h_lastSeq h \<and> k - h_lastSeq h < 32768"

lemma Unwrap_eq:
  assumes "near k h" and "h_hasLastSeq h" "0 \<le> h_lastSeq h" "h_lastSeq h < 2 ^ 63"
  shows "Unwrap (word_of_int k) h = k"
  using Unwrap_near [of "h_lastSeq h" "k - h_lastSeq h"] assms by (simp add: Unwrap_def near_def)

definition unknown_of :: "Sent omap \<Rightarrow> (int \<times> int) list \<Rightarrow> nat" where
  "unknown_of m as = length (filter (\<lambda>(k, t). om_find k m = None) as)"

lemma match_measures:
  assumes "contiguous (word_of_int k) ps" and "\<forall>i < length ps. near (k + int i) h"
    and "h_hasLastSeq h" "0 \<le> h_lastSeq h" "h_lastSeq h < 2 ^ 63"
    and "\<forall>(x, t) \<in> set (arrived k ticks ps). 0 \<le> t \<and> t < 2 ^ 64"
    and "match True ps ticks h = (rs, lost, unknown, saw, t, h')"
  shows "rs = measured (h_history h) (arrived k ticks ps) \<and> lost = length (filter (\<lambda>p. \<not> ps_received p) ps)
    \<and> unknown = unknown_of (h_history h) (arrived k ticks ps)
    \<and> (\<forall>x. om_find x (h_history h') = map_option (\<lambda>s. if x \<in> fst ` set (arrived k ticks ps) then s\<lparr>sn_acked := True\<rparr> else s) (om_find x (h_history h)))
    \<and> h_lastSeq h' = h_lastSeq h \<and> h_hasLastSeq h'"
  using assms
proof (induction ps arbitrary: k ticks h rs lost unknown saw t h')
  case Nil
  then show ?case by (auto simp: measured_def unknown_of_def map_option.identity)
next
  case (Cons p ps)
  have c: "contiguous (word_of_int (k + 1)) ps" "ps_seq p = word_of_int k" using Cons.prems(1) by simp_all
  have n: "\<forall>i < length ps. near (k + 1 + int i) h'" if "h_lastSeq h' = h_lastSeq h" for h'
  proof (intro allI impI)
    fix i assume "i < length ps"
    then show "near (k + 1 + int i) h'" using Cons.prems(2) [rule_format, of "Suc i"] that by (simp add: near_def algebra_simps)
  qed
  have nk: "near k h" using Cons.prems(2) [rule_format, of 0] by simp
  show ?case
  proof (cases "ps_received p")
    case False
    then obtain lost' where m: "match True ps ticks h = (rs, lost', unknown, saw, t, h')" "lost = lost' + 1"
      using Cons.prems(7) by (auto split: prod.splits)
    from Cons.IH [OF c(1) n [OF refl] Cons.prems(3-5) _ m(1)] Cons.prems(6) False m(2) show ?thesis by simp
  next
    case True
    define t1 where "t1 = ticks + ps_deltaTicks p"
    have a: "arrived k ticks (p # ps) = (k, t1) # arrived (k + 1) t1 ps" using True by (simp add: t1_def)
    have u: "u64 t1 = t1" using Cons.prems(6) unfolding a by (simp add: u64_def)
    have w: "Unwrap (ps_seq p) h = k" using Unwrap_eq [OF nk Cons.prems(3-5)] by (simp add: c)
    have kn: "k \<notin> fst ` set (arrived (k + 1) t1 ps)" using arrived_keys [of _ _ "k + 1" t1 ps] by force
    let ?m = "h_history h"
    define h1 where "h1 = (case om_find k ?m of Some s \<Rightarrow> if sn_acked s then h else h\<lparr>h_history := om_put k (s\<lparr>sn_acked := True\<rparr>) ?m\<rparr> | None \<Rightarrow> h)"
    have h1: "h_lastSeq h1 = h_lastSeq h" "h_hasLastSeq h1"
      "om_find x (h_history h1) = (if x = k then map_option (\<lambda>s. s\<lparr>sn_acked := True\<rparr>) (om_find k ?m) else om_find x ?m)" for x
      using Cons.prems(3) by (auto simp: h1_def omap_simps split: option.split)
    obtain rs1 unknown1 saw1 where m: "match True ps t1 h1 = (rs1, lost, unknown1, saw1, t, h')"
      "rs = measured ?m [(k, t1)] @ rs1" "unknown = unknown1 + (if om_find k ?m = None then 1 else 0)"
      using Cons.prems(7) True w u
      by (cases "om_find k ?m") (auto simp: h1_def t1_def Let_def measured_def split: prod.splits if_splits)
    have "\<forall>(x, t) \<in> set (arrived (k + 1) t1 ps). 0 \<le> t \<and> t < 2 ^ 64" using Cons.prems(6) unfolding a by simp
    note IH = Cons.IH [OF c(1) n [OF h1(1)] h1(2) _ _ this m(1)]
    have "measured (h_history h1) (arrived (k + 1) t1 ps) = measured ?m (arrived (k + 1) t1 ps)"
      using kn by (intro measured_cong) (force simp: h1(3))
    moreover have "unknown_of (h_history h1) (arrived (k + 1) t1 ps) = unknown_of ?m (arrived (k + 1) t1 ps)"
      unfolding unknown_of_def using kn by (intro arg_cong [where f = length] filter_cong) (force simp: h1(3))+
    ultimately show ?thesis
      using IH Cons.prems(4,5) m(2,3) True kn unfolding a
      by (auto simp: h1 measured_Cons [of _ k t1 "arrived (k + 1) t1 ps"] measured_def [of _ "[(k, t1)]"] unknown_of_def option.map_comp comp_def)
  qed
qed

text \<open>
  C17. What the sender measures. Let the report count its packets from the number \<open>k\<close> the sender gave
  the first of them, all near the last number it gave, and let \<open>b\<close> be the reference time of the
  receiver, without the wrap of its 24 bits, less than half a period from the last arrival the
  sender knows. Then the results are, in the order of the report, one for each packet that arrived,
  was sent and was not acknowledged before, with the time it was sent and the time it arrived; the
  packets the report calls lost are counted, and so are those the sender does not know; and exactly
  the packets that arrived are acknowledged afterwards.
\<close>

theorem feedback_measured:
  assumes "contiguous (baseSeq f) (packets f)" and "baseSeq f = word_of_int k" and "hasTimestamps f"
    and "\<forall>i < length (packets f). near (k + int i) h"
    and "h_hasLastSeq h" and "0 \<le> h_lastSeq h" and "h_lastSeq h < 2 ^ 63"
    and "0 \<le> b" and "b < 2 ^ 62" and "b mod 2 ^ 32 = 256 * referenceTicks f"
    and "0 \<le> h_lastRecvTicks h" and "h_lastRecvTicks h < 2 ^ 62"
    and "if h_hasLastRecvTicks h then \<bar>b - h_lastRecvTicks h\<bar> < 2 ^ 31 else b < 2 ^ 32"
    and "\<forall>(x, t) \<in> set (arrived k b (packets f)). 0 \<le> t \<and> t < 2 ^ 64"
    and "ProcessFeedback f h = (results, lost, unknown, h')"
  shows "results = measured (h_history h) (arrived k b (packets f))
    \<and> lost = length (filter (\<lambda>p. \<not> ps_received p) (packets f))
    \<and> unknown = unknown_of (h_history h) (arrived k b (packets f))
    \<and> (\<forall>x. om_find x (h_history h') = map_option (\<lambda>s.
          if x \<in> fst ` set (arrived k b (packets f)) then s\<lparr>sn_acked := True\<rparr> else s) (om_find x (h_history h)))"
proof -
  have t: "base_ticks (referenceTicks f) h = b"
  proof (cases "h_hasLastRecvTicks h")
    case True
    with assms show ?thesis by (intro base_ticks_nearest) auto
  next
    case False
    with assms(8,10,13) show ?thesis by (simp add: base_ticks_def push_bit_eq_mult)
  qed
  obtain saw t2 h2 where m: "match True (packets f) b h = (results, lost, unknown, saw, t2, h2)" and "h_history h' = h_history h2"
    using assms(3,15) by (auto simp: ProcessFeedback_def t split: prod.splits if_splits)
  with match_measures [OF _ assms(4-7,14) m] assms(1,2) show ?thesis by simp
qed

definition sample_history :: History where
  "sample_history = OnPacketSent 0 901000 600 (OnPacketSent 65535 900500 700 (OnPacketSent 65534 900000 1200 History_new))"

lemma sample_history_eq:
  "sample_history = \<lparr>h_history = [(65534, \<lparr>sn_timeUs = 900000, sn_size = 1200, sn_acked = False\<rparr>),
      (65535, \<lparr>sn_timeUs = 900500, sn_size = 700, sn_acked = False\<rparr>), (65536, \<lparr>sn_timeUs = 901000, sn_size = 600, sn_acked = False\<rparr>)],
     h_lastSeq = 65536, h_hasLastSeq = True, h_lastRecvTicks = 0, h_hasLastRecvTicks = False\<rparr>"
proof -
  have "UnwrapSeq16 65535 65534 True = 65535" "UnwrapSeq16 0 65535 True = 65536"
    using Unwrap_near [of 65534 1] Unwrap_near [of 65535 1] by (simp_all add: word_65536)
  then show ?thesis
    by (simp add: sample_history_def OnPacketSent_def Unwrap_def History_new_def Let_def UnwrapSeq16_def [of 65534] u64_def WindowUs_def)
qed

definition sample_report :: FeedbackField where
  "sample_report = \<lparr>baseSeq = 65534, referenceTicks = 15, fbSeq = 0, hasTimestamps = True,
     packets = [\<lparr>ps_seq = 65534, ps_received = True, ps_deltaTicks = 160\<rparr>, \<lparr>ps_seq = 65535, ps_received = False, ps_deltaTicks = 0\<rparr>,
       \<lparr>ps_seq = 0, ps_received = True, ps_deltaTicks = 1200\<rparr>], lastArrivalTicks = 0\<rparr>"

theorem feedback_measured_witness:
  "\<exists>h'. ProcessFeedback sample_report sample_history =
     ([\<lparr>r_sentTimeUs = 900000, r_recvTimeUs = 1000000, r_size = 1200\<rparr>, \<lparr>r_sentTimeUs = 901000, r_recvTimeUs = 1300000, r_size = 600\<rparr>],
      1, 0, h')"
proof -
  obtain results lost unknown h' where p: "ProcessFeedback sample_report sample_history = (results, lost, unknown, h')"
    by (cases "ProcessFeedback sample_report sample_history") auto
  have "results = measured (h_history sample_history) (arrived 65534 3840 (packets sample_report))
    \<and> lost = length (filter (\<lambda>p. \<not> ps_received p) (packets sample_report))
    \<and> unknown = unknown_of (h_history sample_history) (arrived 65534 3840 (packets sample_report))"
    using feedback_measured [of sample_report 65534 sample_history 3840, OF _ _ _ _ _ _ _ _ _ _ _ _ _ _ p]
    by (simp add: sample_history_eq sample_report_def near_def)
  with p show ?thesis
    by (simp add: sample_history_eq sample_report_def measured_def unknown_of_def om_find_def u64_def TickUs_def)
qed

section \<open>No more acknowledgements than packets\<close>

definition unacked :: "Sent omap \<Rightarrow> nat" where
  "unacked m = length (filter (\<lambda>e. \<not> sn_acked (snd e)) m)"

lemma unacked_ack:
  "om_sorted m \<Longrightarrow> om_find k m = Some s \<Longrightarrow> \<not> sn_acked s \<Longrightarrow> Suc (unacked (om_put k (s\<lparr>sn_acked := True\<rparr>) m)) = unacked m"
  by (induction m) (auto simp: unacked_def om_find_def om_sorted_Cons split: if_splits, (force dest: map_of_SomeD)+)

lemma unacked_put: "unacked (om_put k s m) \<le> Suc (unacked m)"
  by (induction m) (auto simp: unacked_def)

lemma match_unacked:
  assumes "match stamped ps ticks h = (rs, lost, unknown, saw, t, h')" and "om_sorted (h_history h)"
  shows "om_sorted (h_history h') \<and> length rs + unacked (h_history h') = unacked (h_history h)"
  using assms
proof (induction ps arbitrary: ticks h rs lost unknown saw t h')
  case (Cons p ps)
  let ?k = "Unwrap (ps_seq p) h" and ?m = "h_history h"
  show ?case
  proof (cases "\<exists>s. ps_received p \<and> om_find ?k ?m = Some s \<and> \<not> sn_acked s")
    case True
    then obtain s where s: "ps_received p" "om_find ?k ?m = Some s" "\<not> sn_acked s" by blast
    then obtain rs1 saw1 ticks1 where r: "length rs = Suc (length rs1)"
      "match stamped ps ticks1 (h\<lparr>h_history := om_put ?k (s\<lparr>sn_acked := True\<rparr>) ?m\<rparr>) = (rs1, lost, unknown, saw1, t, h')"
      using Cons.prems(1) by (auto simp: Let_def split: prod.splits)
    from Cons.IH [OF r(2)] Cons.prems(2) unacked_ack [OF Cons.prems(2) s(2,3)] r(1) show ?thesis
      by (simp add: om_sorted_put)
  next
    case False
    then obtain lost1 unknown1 saw1 ticks1 where "match stamped ps ticks1 h = (rs, lost1, unknown1, saw1, t, h')"
      using Cons.prems(1) by (auto simp: Let_def split: prod.splits if_splits option.splits)
    with Cons show ?thesis by blast
  qed
qed simp

datatype history_op = SentOne "16 word" int int | Told FeedbackField

fun history_step :: "history_op \<Rightarrow> History \<times> nat \<Rightarrow> History \<times> nat" where
  "history_step (SentOne seq nowUs sz) (h, n) = (OnPacketSent seq nowUs sz h, n)"
| "history_step (Told f) (h, n) = (case ProcessFeedback f h of (results, lost, unknown, h) \<Rightarrow> (h, n + length results))"

lemma dropWhile_suffix: "\<exists>pre. m = pre @ dropWhile P m"
  by (metis takeWhile_dropWhile_id)

lemma OnPacketSent_unacked:
  assumes "om_sorted (h_history h)"
  shows "om_sorted (h_history (OnPacketSent seq nowUs sz h)) \<and> unacked (h_history (OnPacketSent seq nowUs sz h)) \<le> Suc (unacked (h_history h))"
proof -
  define m where "m = om_put (Unwrap seq h) \<lparr>sn_timeUs = nowUs, sn_size = sz, sn_acked = False\<rparr> (h_history h)"
  have "h_history (OnPacketSent seq nowUs sz h) = dropWhile (\<lambda>e. u64 (sn_timeUs (snd e) + WindowUs) < nowUs) m"
    by (simp add: OnPacketSent_def Let_def m_def)
  moreover obtain pre where "m = pre @ dropWhile (\<lambda>e. u64 (sn_timeUs (snd e) + WindowUs) < nowUs) m"
    using dropWhile_suffix by blast
  moreover have "om_sorted m" "unacked m \<le> Suc (unacked (h_history h))"
    using assms by (simp_all add: m_def om_sorted_put unacked_put)
  ultimately show ?thesis
    by (metis om_sorted_append unacked_def filter_append length_append le_add2 order_trans)
qed

text \<open>
  A packet is acknowledged at most once each time it is sent. Whatever is sent, whatever the
  peer reports, repeats or makes up, the history never hands out more results than packets were sent.
\<close>

theorem acks_bounded:
  "snd (fold history_step ops (History_new, 0)) \<le> length (filter (\<lambda>x. case x of SentOne _ _ _ \<Rightarrow> True | Told _ \<Rightarrow> False) ops)"
proof -
  have "om_sorted (h_history (fst (fold history_step ops (History_new, 0)))) \<and>
    snd (fold history_step ops (History_new, 0)) + unacked (h_history (fst (fold history_step ops (History_new, 0))))
      \<le> length (filter (\<lambda>x. case x of SentOne _ _ _ \<Rightarrow> True | Told _ \<Rightarrow> False) ops)"
  proof (induction ops rule: rev_induct)
    case Nil
    then show ?case by (simp add: History_new_def unacked_def)
  next
    case (snoc x ops)
    obtain h n where s: "fold history_step ops (History_new, 0) = (h, n)" by fastforce
    show ?case
    proof (cases x)
      case (SentOne seq nowUs sz)
      with snoc OnPacketSent_unacked [of h seq nowUs sz] show ?thesis by (simp add: s)
    next
      case (Told f)
      obtain results lost unknown h' where p: "ProcessFeedback f h = (results, lost, unknown, h')"
        by (cases "ProcessFeedback f h") auto
      then obtain saw t h2 where "match (hasTimestamps f) (packets f) (base_ticks (referenceTicks f) h) h = (results, lost, unknown, saw, t, h2)"
        "h_history h' = h_history h2"
        by (auto simp: ProcessFeedback_def split: prod.splits if_splits)
      with match_unacked [OF this(1)] snoc p Told show ?thesis by (simp add: s)
    qed
  qed
  then show ?thesis by linarith
qed

end
