(* ===== verification/RtpBuffer.thy ===== *)
theory RtpBuffer
  imports Prelude "HOL-Library.Multiset"
begin

text \<open>
  The reordering buffer of received packets, \<open>RTPBuffer\<close> (\<open>rtpbuffer.h\<close>). The queue is the map from
  extended sequence numbers to packets. \<open>Wait\<close> is modelled by the passes of its loop: a pass looks at
  the queue under the lock, and returns or goes to sleep; passes, arrivals and the other calls may
  follow each other in any order, which covers every wake-up. Two fields record what the C++ heap
  sees: the packets that were handed out and those that were deleted. The log of dropped packets is
  left out.
\<close>

section \<open>Model\<close>

record RTPTimedPacket =
  tp_id :: nat
  tp_extSeqNum :: int
  tp_ssrc :: int
  tp_time :: int

definition MaxQueuedMs :: int where
  "MaxQueuedMs = 500"

text \<open>\<open>(DWORD)-1\<close>, no packet is expected.\<close>

definition NoNext :: int where
  "NoNext = 0xFFFFFFFF"

record RTPBuffer =
  b_packets :: "RTPTimedPacket omap"
  b_cancel :: bool
  b_hurryUp :: bool
  b_next :: int
  b_maxWaitTime :: int
  b_bigJumps :: nat
  b_lastSsrc :: int
  b_hasSsrc :: bool
  g_out :: "RTPTimedPacket list"
  g_deleted :: "RTPTimedPacket list"

definition RTPBuffer_new :: RTPBuffer where
  "RTPBuffer_new = \<lparr>b_packets = [], b_cancel = False, b_hurryUp = False, b_next = NoNext, b_maxWaitTime = 0, b_bigJumps = 0,
     b_lastSsrc = 0, b_hasSsrc = False, g_out = [], g_deleted = []\<rparr>"

definition delete :: "RTPTimedPacket list \<Rightarrow> RTPBuffer \<Rightarrow> RTPBuffer" where
  "delete ps b = b\<lparr>g_deleted := ps @ g_deleted b\<rparr>"

definition DropOverflow :: "int \<Rightarrow> RTPBuffer \<Rightarrow> RTPBuffer" where
  "DropOverflow now b =
    (let old = (\<lambda>e. \<not> now < tp_time (snd e) + MaxQueuedMs);
         dropped = takeWhile old (b_packets b) in
     if dropped = [] then b
     else (delete (map snd dropped) b)\<lparr>b_packets := dropWhile old (b_packets b), b_next := NoNext\<rparr>)"

definition follow_source :: "RTPTimedPacket \<Rightarrow> RTPBuffer \<Rightarrow> RTPBuffer" where
  "follow_source rtp b =
    (let b = (if b_hasSsrc b \<and> tp_ssrc rtp \<noteq> b_lastSsrc b then b\<lparr>b_next := NoNext, b_bigJumps := 0\<rparr> else b) in
     b\<lparr>b_lastSsrc := tp_ssrc rtp, b_hasSsrc := True\<rparr>)"

definition emplace :: "RTPTimedPacket \<Rightarrow> RTPBuffer \<Rightarrow> RTPBuffer" where
  "emplace rtp b =
    (if om_find (tp_extSeqNum rtp) (b_packets b) \<noteq> None then delete [rtp] b
     else DropOverflow (tp_time rtp) (b\<lparr>b_packets := om_put (tp_extSeqNum rtp) rtp (b_packets b)\<rparr>))"

definition Buffer_Add :: "RTPTimedPacket \<Rightarrow> RTPBuffer \<Rightarrow> bool \<times> RTPBuffer" where
  "Buffer_Add rtp b =
    (let b = follow_source rtp b in
     if b_next b \<noteq> NoNext \<and> tp_extSeqNum rtp < b_next b then
       (let b = b\<lparr>b_bigJumps := b_bigJumps b + 1\<rparr> in
        if b_bigJumps b > 20 then (True, emplace rtp (b\<lparr>b_next := NoNext, b_bigJumps := 0\<rparr>))
        else (False, delete [rtp] b))
     else (True, emplace rtp b))"

definition Cancel :: "RTPBuffer \<Rightarrow> RTPBuffer" where
  "Cancel b = b\<lparr>b_cancel := True\<rparr>"

definition HurryUp :: "RTPBuffer \<Rightarrow> RTPBuffer" where
  "HurryUp b = b\<lparr>b_hurryUp := True\<rparr>"

definition ClearPackets :: "RTPBuffer \<Rightarrow> RTPBuffer" where
  "ClearPackets b = (delete (map snd (b_packets b)) b)\<lparr>b_packets := []\<rparr>"

definition Buffer_Reset :: "bool \<Rightarrow> RTPBuffer \<Rightarrow> RTPBuffer" where
  "Buffer_Reset clear b =
    (let b = b\<lparr>b_cancel := False\<rparr>;
         b = (if clear then (ClearPackets b)\<lparr>b_next := NoNext, b_hasSsrc := False\<rparr> else b) in
     b\<lparr>b_bigJumps := 0\<rparr>)"

definition Length :: "RTPBuffer \<Rightarrow> nat" where
  "Length b = length (b_packets b)"

definition SetMaxWaitTime :: "int \<Rightarrow> RTPBuffer \<Rightarrow> RTPBuffer" where
  "SetMaxWaitTime w b = b\<lparr>b_maxWaitTime := w\<rparr>"

text \<open>
  One pass of \<open>Wait\<close> at the time \<open>now\<close> in milliseconds; \<open>expired\<close> says that the caller gave a timeout
  and that it is over. The loop sleeps until the candidate is due, or without a limit.
\<close>

datatype wait_outcome = Returned "RTPTimedPacket option" | Sleeping "int option"

definition Wait_pass :: "int \<Rightarrow> bool \<Rightarrow> RTPBuffer \<Rightarrow> wait_outcome \<times> RTPBuffer" where
  "Wait_pass now expired b =
    (if b_cancel b then (Returned None, b)
     else case b_packets b of
       (seq, candidate) # rest \<Rightarrow>
         let due = tp_time candidate + b_maxWaitTime b in
         if b_next b = NoNext \<or> seq = b_next b \<or> now \<ge> due \<or> b_hurryUp b
         then (Returned (Some candidate),
               b\<lparr>b_next := (seq + 1) mod 2 ^ 32, b_packets := rest, g_out := candidate # g_out b\<rparr>)
         else if expired then (Returned None, b)
         else (Sleeping (Some due), b)
     | [] \<Rightarrow>
         let b = b\<lparr>b_hurryUp := False\<rparr> in
         if expired then (Returned None, b) else (Sleeping None, b))"

datatype buffer_op =
    Arrive RTPTimedPacket
  | Pass int bool
  | DoCancel
  | DoHurryUp
  | DoClear
  | DoReset bool
  | DoSetMaxWaitTime int

fun buffer_step :: "buffer_op \<Rightarrow> RTPBuffer \<Rightarrow> RTPBuffer" where
  "buffer_step (Arrive rtp) b = snd (Buffer_Add rtp b)"
| "buffer_step (Pass now expired) b = snd (Wait_pass now expired b)"
| "buffer_step DoCancel b = Cancel b"
| "buffer_step DoHurryUp b = HurryUp b"
| "buffer_step DoClear b = ClearPackets b"
| "buffer_step (DoReset clear) b = Buffer_Reset clear b"
| "buffer_step (DoSetMaxWaitTime w) b = SetMaxWaitTime w b"

section \<open>Every packet has one owner\<close>

fun arrivals_of :: "buffer_op list \<Rightarrow> RTPTimedPacket list" where
  "arrivals_of [] = []"
| "arrivals_of (Arrive rtp # ops) = rtp # arrivals_of ops"
| "arrivals_of (_ # ops) = arrivals_of ops"

definition owned :: "RTPBuffer \<Rightarrow> RTPTimedPacket multiset" where
  "owned b = mset (map snd (b_packets b)) + mset (g_out b) + mset (g_deleted b)"

lemma owned_simps [simp]:
  "owned (b\<lparr>b_next := n\<rparr>) = owned b" "owned (b\<lparr>b_bigJumps := j\<rparr>) = owned b" "owned (b\<lparr>b_lastSsrc := s\<rparr>) = owned b"
  "owned (b\<lparr>b_hasSsrc := h\<rparr>) = owned b" "owned (b\<lparr>b_cancel := c\<rparr>) = owned b" "owned (b\<lparr>b_hurryUp := u\<rparr>) = owned b"
  "owned (b\<lparr>b_maxWaitTime := w\<rparr>) = owned b" "owned (delete ps b) = mset ps + owned b"
  by (simp_all add: owned_def delete_def)

lemma mset_om_put: "om_find k m = None \<Longrightarrow> mset (map snd (om_put k v m)) = add_mset v (mset (map snd m))"
  by (induction m) (auto simp: om_find_def split: if_splits)

lemma owned_DropOverflow: "owned (DropOverflow now b) = owned b"
proof -
  have "mset (map snd (takeWhile P m)) + mset (map snd (dropWhile P m)) = mset (map snd m)"
    for P and m :: "RTPTimedPacket omap"
    by (metis map_append mset_append takeWhile_dropWhile_id)
  then show ?thesis
    by (simp add: DropOverflow_def Let_def owned_def delete_def add.commute add.left_commute)
qed

lemma owned_emplace: "owned (emplace rtp b) = add_mset rtp (owned b)"
  by (simp add: emplace_def owned_DropOverflow) (simp add: owned_def mset_om_put del: mset_map)

lemma owned_Add: "owned (snd (Buffer_Add rtp b)) = add_mset rtp (owned b)"
  by (simp add: Buffer_Add_def follow_source_def Let_def owned_emplace)

lemma owned_Wait_pass: "owned (snd (Wait_pass now expired b)) = owned b"
  by (auto simp: Wait_pass_def Let_def owned_def split: list.split)

lemma owned_ClearPackets: "owned (ClearPackets b) = owned b"
  by (simp add: ClearPackets_def owned_def delete_def)

lemma owned_step: "owned (buffer_step x b) = mset (arrivals_of [x]) + owned b"
  by (cases x) (simp_all add: owned_Add owned_Wait_pass owned_ClearPackets Cancel_def HurryUp_def Buffer_Reset_def SetMaxWaitTime_def Let_def)

lemma arrivals_of_append: "arrivals_of (xs @ ys) = arrivals_of xs @ arrivals_of ys"
  by (induction xs rule: arrivals_of.induct) simp_all

text \<open>
  C33. No packet leaks and none is freed twice: after any calls, in any order, every packet that was
  given to \<open>Add\<close> is in the queue, or was handed out by \<open>Wait\<close>, or was deleted, and it is so exactly
  once.
\<close>

theorem packets_owned_once:
  "mset (map snd (b_packets (fold buffer_step ops RTPBuffer_new))) + mset (g_out (fold buffer_step ops RTPBuffer_new))
     + mset (g_deleted (fold buffer_step ops RTPBuffer_new)) = mset (arrivals_of ops)"
proof -
  have "owned (fold buffer_step ops RTPBuffer_new) = mset (arrivals_of ops)"
  proof (induction ops rule: rev_induct)
    case Nil
    then show ?case by (simp add: owned_def RTPBuffer_new_def)
  next
    case (snoc x ops)
    then show ?case by (simp add: owned_step arrivals_of_append)
  qed
  then show ?thesis by (simp add: owned_def)
qed

section \<open>Packets leave in order\<close>

text \<open>
  The labels of a run: a packet left, the buffer forgot which packet it expects, or neither. It forgets
  when the source changes, when too many packets came too late, when the queue overflowed, and in
  \<open>Reset\<close>.
\<close>

datatype label = Out int | Resync | Quiet

definition label_of :: "buffer_op \<Rightarrow> RTPBuffer \<Rightarrow> label" where
  "label_of x b = (case x of
     Pass now expired \<Rightarrow> (case fst (Wait_pass now expired b) of Returned (Some rtp) \<Rightarrow> Out (tp_extSeqNum rtp) | _ \<Rightarrow> Quiet)
   | _ \<Rightarrow> if b_next (buffer_step x b) = NoNext then Resync else Quiet)"

fun labels :: "buffer_op list \<Rightarrow> RTPBuffer \<Rightarrow> label list" where
  "labels [] b = []"
| "labels (x # xs) b = label_of x b # labels xs (buffer_step x b)"

fun ascending :: "int option \<Rightarrow> label list \<Rightarrow> bool" where
  "ascending prev [] = True"
| "ascending prev (Out k # ls) = ((case prev of None \<Rightarrow> True | Some s \<Rightarrow> s < k) \<and> ascending (Some k) ls)"
| "ascending prev (Resync # ls) = ascending None ls"
| "ascending prev (Quiet # ls) = ascending prev ls"

definition small :: "buffer_op \<Rightarrow> bool" where
  "small x = (case x of Arrive rtp \<Rightarrow> 0 \<le> tp_extSeqNum rtp \<and> tp_extSeqNum rtp < 2 ^ 32 - 2 | _ \<Rightarrow> True)"

definition buffer_inv :: "RTPBuffer \<Rightarrow> bool" where
  "buffer_inv b \<longleftrightarrow> om_sorted (b_packets b)
     \<and> (\<forall>(k, rtp) \<in> set (b_packets b). tp_extSeqNum rtp = k \<and> 0 \<le> k \<and> k < 2 ^ 32 - 2 \<and> (b_next b \<noteq> NoNext \<longrightarrow> b_next b \<le> k))"

lemma in_om_put: "e \<in> set (om_put k v m) \<Longrightarrow> e = (k, v) \<or> e \<in> set m"
  by (induction m) (auto split: if_splits)

lemma DropOverflow_inv: "buffer_inv b \<Longrightarrow> buffer_inv (DropOverflow now b)"
  by (auto simp: buffer_inv_def DropOverflow_def Let_def delete_def dest: set_dropWhileD)
    (metis om_sorted_append takeWhile_dropWhile_id)

lemma buffer_inv_simps [simp]:
  "buffer_inv (delete ps b) = buffer_inv b" "buffer_inv (b\<lparr>b_bigJumps := j\<rparr>) = buffer_inv b"
  "buffer_inv (b\<lparr>b_lastSsrc := s\<rparr>) = buffer_inv b" "buffer_inv (b\<lparr>b_hasSsrc := h\<rparr>) = buffer_inv b"
  "buffer_inv (b\<lparr>b_cancel := c\<rparr>) = buffer_inv b" "buffer_inv (b\<lparr>b_hurryUp := u\<rparr>) = buffer_inv b"
  "buffer_inv (b\<lparr>b_maxWaitTime := w\<rparr>) = buffer_inv b"
  by (simp_all add: buffer_inv_def delete_def)

lemma forget_inv: "buffer_inv b \<Longrightarrow> buffer_inv (b\<lparr>b_next := NoNext\<rparr>)"
  by (auto simp: buffer_inv_def)

lemma emplace_inv:
  assumes "buffer_inv b" and "small (Arrive rtp)" and "b_next b \<noteq> NoNext \<longrightarrow> b_next b \<le> tp_extSeqNum rtp"
  shows "buffer_inv (emplace rtp b)"
  using assms by (auto simp: emplace_def intro!: DropOverflow_inv)
    (auto simp: buffer_inv_def om_sorted_put small_def dest!: in_om_put)

lemma Add_inv:
  assumes "buffer_inv b" and "small (Arrive rtp)"
  shows "buffer_inv (snd (Buffer_Add rtp b))"
proof -
  have "buffer_inv (follow_source rtp b)"
    using assms(1) forget_inv [OF assms(1)] by (auto simp: follow_source_def Let_def)
  then show ?thesis
    using assms(2) forget_inv [of "follow_source rtp b"] by (auto simp: Buffer_Add_def Let_def intro!: emplace_inv)
qed

lemma Wait_pass_inv:
  assumes "buffer_inv b"
  shows "buffer_inv (snd (Wait_pass now expired b))"
proof (cases "b_packets b")
  case (Cons e rest)
  obtain k rtp where e: "e = (k, rtp)" by (cases e)
  have "0 \<le> k" "k < 2 ^ 32 - 2" "om_sorted rest" "\<forall>e \<in> set rest. k < fst e"
    using assms by (auto simp: buffer_inv_def Cons e om_sorted_Cons)
  with assms show ?thesis
    by (fastforce simp: Wait_pass_def Cons e Let_def buffer_inv_def)
qed (use assms in \<open>simp add: Wait_pass_def Let_def\<close>)

lemma step_inv:
  assumes "buffer_inv b" and "small x"
  shows "buffer_inv (buffer_step x b)"
  using assms Add_inv Wait_pass_inv [OF assms(1)]
  by (cases x) (auto simp: Cancel_def HurryUp_def SetMaxWaitTime_def ClearPackets_def Buffer_Reset_def Let_def,
      auto simp: buffer_inv_def delete_def)

text \<open>After a packet left, and until the buffer forgets it, the buffer expects the next number.\<close>

definition follows :: "int option \<Rightarrow> RTPBuffer \<Rightarrow> bool" where
  "follows prev b = (case prev of None \<Rightarrow> True | Some s \<Rightarrow> b_next b = s + 1 \<and> b_next b \<noteq> NoNext)"

lemma Add_next: "b_next (snd (Buffer_Add rtp b)) = NoNext \<or> b_next (snd (Buffer_Add rtp b)) = b_next b"
  by (simp add: Buffer_Add_def follow_source_def emplace_def DropOverflow_def delete_def Let_def)

lemma step_next: "\<not> (\<exists>now expired. x = Pass now expired) \<Longrightarrow> b_next (buffer_step x b) = NoNext \<or> b_next (buffer_step x b) = b_next b"
  using Add_next
  by (cases x) (auto simp: Cancel_def HurryUp_def SetMaxWaitTime_def ClearPackets_def Buffer_Reset_def Let_def delete_def)

lemma labels_ascending:
  assumes "buffer_inv b" and "follows prev b" and "\<forall>x \<in> set ops. small x"
  shows "ascending prev (labels ops b)"
  using assms
proof (induction ops arbitrary: b prev)
  case (Cons x ops)
  have i: "buffer_inv (buffer_step x b)" using Cons.prems by (simp add: step_inv)
  show ?case
  proof (cases "\<exists>now expired. x = Pass now expired")
    case True
    then obtain now expired where x: "x = Pass now expired" by blast
    show ?thesis
    proof (cases "\<exists>rtp. fst (Wait_pass now expired b) = Returned (Some rtp)")
      case True
      then obtain rtp k rest where p: "b_packets b = (k, rtp) # rest" and l: "label_of x b = Out k"
        and n: "b_next (buffer_step x b) = (k + 1) mod 2 ^ 32"
        using Cons.prems(1) by (auto simp: x label_of_def Wait_pass_def Let_def buffer_inv_def split: if_splits list.splits)
      have k: "0 \<le> k" "k < 2 ^ 32 - 2" "b_next b \<noteq> NoNext \<longrightarrow> b_next b \<le> k"
        using Cons.prems(1) p by (auto simp: buffer_inv_def)
      with n have "follows (Some k) (buffer_step x b)" by (simp add: follows_def NoNext_def)
      from Cons.IH [OF i this] Cons.prems(2,3) k l show ?thesis
        by (auto simp: follows_def split: option.splits)
    next
      case False
      then have "label_of x b = Quiet" "b_next (buffer_step x b) = b_next b"
        by (auto simp: x label_of_def Wait_pass_def Let_def split: if_splits list.splits wait_outcome.splits option.splits)
      with Cons.IH [OF i, of prev] Cons.prems(2,3) show ?thesis by (auto simp: follows_def split: option.splits)
    qed
  next
    case False
    then have "label_of x b = (if b_next (buffer_step x b) = NoNext then Resync else Quiet)"
      by (cases x) (auto simp: label_of_def)
    with step_next [OF False, of b] Cons.IH [OF i, of prev] Cons.IH [OF i, of None] Cons.prems(2,3) show ?thesis
      by (auto simp: follows_def split: option.splits)
  qed
qed simp

text \<open>
  C9. Packets leave in order. Whatever arrives, twice or late, and whenever \<open>Wait\<close> looks, each packet
  it hands out has a larger extended sequence number than the one before, unless the buffer was
  resynchronised in between.
\<close>

theorem packets_in_order:
  assumes "\<forall>rtp \<in> set (arrivals_of ops). 0 \<le> tp_extSeqNum rtp \<and> tp_extSeqNum rtp < 2 ^ 32 - 2"
  shows "ascending None (labels ops RTPBuffer_new)"
proof (rule labels_ascending)
  show "buffer_inv RTPBuffer_new" by (simp add: buffer_inv_def RTPBuffer_new_def)
  show "\<forall>x \<in> set ops. small x" using assms by (induction ops rule: arrivals_of.induct) (auto simp: small_def)
qed (simp add: follows_def)

definition sample_packet :: "nat \<Rightarrow> int \<Rightarrow> int \<Rightarrow> RTPTimedPacket" where
  "sample_packet n seq t = \<lparr>tp_id = n, tp_extSeqNum = seq, tp_ssrc = 9, tp_time = t\<rparr>"

definition sample_calls :: "buffer_op list" where
  "sample_calls = [DoSetMaxWaitTime 100, Arrive (sample_packet 0 10 1000), Pass 1000 False, Arrive (sample_packet 1 12 1010),
     Arrive (sample_packet 2 13 1015), Pass 1015 False, Arrive (sample_packet 3 11 1020), Arrive (sample_packet 4 12 1021),
     Pass 1021 False, Pass 1021 False, Pass 1022 False, Arrive (sample_packet 5 9 1030)]"

theorem packets_in_order_witness:
  "ascending None (labels sample_calls RTPBuffer_new)
   \<and> filter (\<lambda>l. l \<noteq> Quiet \<and> l \<noteq> Resync) (labels sample_calls RTPBuffer_new) = [Out 10, Out 11, Out 12, Out 13]"
proof
  show "ascending None (labels sample_calls RTPBuffer_new)"
    by (rule packets_in_order) (simp add: sample_calls_def sample_packet_def)
  show "filter (\<lambda>l. l \<noteq> Quiet \<and> l \<noteq> Resync) (labels sample_calls RTPBuffer_new) = [Out 10, Out 11, Out 12, Out 13]"
    by code_simp
qed

section \<open>Nothing waits too long\<close>

lemma Wait_pass_due:
  assumes "b_packets b = (seq, rtp) # rest" and "\<not> b_cancel b" and "tp_time rtp + b_maxWaitTime b \<le> now"
  shows "buffer_step (Pass now expired) b = b\<lparr>b_next := (seq + 1) mod 2 ^ 32, b_packets := rest, g_out := rtp # g_out b\<rparr>"
  using assms by (simp add: Wait_pass_def Let_def)

lemma passes_drain:
  assumes "\<not> b_cancel b" and "\<forall>e \<in> set (b_packets b). tp_time (snd e) + b_maxWaitTime b \<le> now"
  shows "b_packets (fold buffer_step (replicate (length (b_packets b)) (Pass now expired)) b) = []
    \<and> g_out (fold buffer_step (replicate (length (b_packets b)) (Pass now expired)) b) = rev (map snd (b_packets b)) @ g_out b"
  using assms
proof (induction "b_packets b" arbitrary: b)
  case (Cons e rest)
  obtain seq rtp where e: "e = (seq, rtp)" by (cases e)
  define b1 where "b1 = b\<lparr>b_next := (seq + 1) mod 2 ^ 32, b_packets := rest, g_out := rtp # g_out b\<rparr>"
  have p: "b_packets b = (seq, rtp) # rest" using Cons.hyps(2) e by simp
  have "buffer_step (Pass now expired) b = b1"
    unfolding b1_def using p Cons.prems by (intro Wait_pass_due) (auto simp flip: Cons.hyps(2))
  moreover have "rest = b_packets b1" "\<not> b_cancel b1" "\<forall>e \<in> set (b_packets b1). tp_time (snd e) + b_maxWaitTime b1 \<le> now"
    using Cons.prems p by (simp_all add: b1_def)
  from Cons.hyps(1) [OF this] have "b_packets (fold buffer_step (replicate (length rest) (Pass now expired)) b1) = []"
    "g_out (fold buffer_step (replicate (length rest) (Pass now expired)) b1) = rev (map snd rest) @ rtp # g_out b"
    by (simp_all add: b1_def)
  ultimately show ?case by (simp add: p del: buffer_step.simps)
qed simp

lemma takeWhile_Nil_hd: "takeWhile P xs = [] \<Longrightarrow> xs = x # ys \<Longrightarrow> \<not> P x"
  by (auto split: if_splits)

lemma DropOverflow_fresh: "b_packets (DropOverflow now b) = (k, rtp) # rest \<Longrightarrow> now < tp_time rtp + MaxQueuedMs"
  by (auto simp: DropOverflow_def Let_def delete_def dropWhile_eq_Cons_conv split: if_splits dest: takeWhile_Nil_hd)


definition holes_calls :: "buffer_op list" where
  "holes_calls = [DoSetMaxWaitTime 100, Arrive (sample_packet 0 10 1000), Pass 1000 False, Arrive (sample_packet 1 12 1010),
     Arrive (sample_packet 2 15 1015), Pass 1020 False]"


end
