(* ===== verification/RedCodec.thy ===== *)
theory RedCodec
  imports Prelude
begin

text \<open>
  Redundant text: the payload of RFC 2198 as \<open>RTPRedundantPacket\<close> reads it (\<open>rtp.cpp\<close>), and
  \<open>RedundentCodec\<close> (\<open>redcodec.cpp\<close>), which writes every text frame three times and makes good for the
  packets that got lost.

  A \<open>DWORD\<close> timestamp is a 32-bit word, a frame is its timestamp and its octets. The member
  \<open>redundantData\<close> is \<open>None\<close> until it is set: no constructor initialises it, so reading through it is
  reading through a wild pointer.
\<close>

section \<open>The payload\<close>

record RedHeader =
  rh_type :: byte
  rh_offset :: nat
  rh_ini :: nat
  rh_size :: nat

record RedContent =
  rd_headers :: "RedHeader list"
  rd_primaryType :: byte
  rd_redundantData :: "byte list option"
  rd_primaryData :: "byte list option"

definition RedContent_new :: RedContent where
  "RedContent_new = \<lparr>rd_headers = [], rd_primaryType = 0, rd_redundantData = None, rd_primaryData = None\<rparr>"

text \<open>
  The loop over the headers: \<open>payload\<close> is what is left. It ends at a header without the mark bit, or
  gives up when a header cannot be there as a whole.
\<close>

fun read_headers :: "byte list \<Rightarrow> nat \<Rightarrow> RedHeader list \<Rightarrow> RedHeader list \<times> (byte list \<times> nat) option" where
  "read_headers [] skip hs = (hs, None)"
| "read_headers (h # payload) skip hs =
    (if drop_bit 7 h = 0 then (hs, Some (h # payload, skip))
     else case payload of
       a # b # c # n # rest \<Rightarrow>
         let offset = push_bit 6 (unat a) OR drop_bit 2 (unat b);
             sz = push_bit 8 (unat b AND 0x03) OR unat c in
         read_headers (n # rest) (skip + sz)
           (hs @ [\<lparr>rh_type = h AND 0x7F, rh_offset = offset, rh_ini = skip, rh_size = sz\<rparr>])
     | _ \<Rightarrow> (hs, None))"

definition DecodeRedundantPayload :: "byte list \<Rightarrow> RedContent \<Rightarrow> RedContent" where
  "DecodeRedundantPayload payload r =
    (if payload = [] then r
     else case read_headers payload 0 (rd_headers r) of
       (hs, None) \<Rightarrow> r\<lparr>rd_headers := hs\<rparr>
     | (hs, Some (h # rest, skip)) \<Rightarrow>
         let r = r\<lparr>rd_headers := hs, rd_primaryType := h AND 0x7F, rd_redundantData := Some rest\<rparr> in
         if skip > length rest then r\<lparr>rd_headers := []\<rparr>
         else r\<lparr>rd_primaryData := Some (drop skip rest)\<rparr>
     | (hs, Some ([], skip)) \<Rightarrow> r\<lparr>rd_headers := hs\<rparr>)"

definition GetRedundantCount :: "RedContent \<Rightarrow> nat" where
  "GetRedundantCount r = length (rd_headers r) mod 256"

text \<open>What is at the address \<open>GetRedundantPayloadData(i)\<close>; \<open>None\<close> when the address is wild.\<close>

definition GetRedundantPayload :: "nat \<Rightarrow> RedContent \<Rightarrow> byte list option" where
  "GetRedundantPayload i r =
    (if i < length (rd_headers r)
     then map_option (\<lambda>d. take (rh_size (rd_headers r ! i)) (drop (rh_ini (rd_headers r ! i)) d)) (rd_redundantData r)
     else Some [])"

text \<open>\<open>GetRedundantTimestamp\<close> returns a \<open>BYTE\<close>.\<close>

definition GetRedundantTimestamp :: "nat \<Rightarrow> 32 word \<Rightarrow> RedContent \<Rightarrow> 32 word" where
  "GetRedundantTimestamp i timestamp r =
    (if i < length (rd_headers r) then ucast (ucast (timestamp - of_nat (rh_offset (rd_headers r ! i))) :: byte) else 0)"

section \<open>The codec\<close>

record frame =
  fr_time :: "32 word"
  fr_data :: "byte list"

record RedundentCodec =
  rc_lastSeq :: int
  rc_reds :: "frame list"
  rc_lastTime :: "32 word"
  rc_idle :: bool

record RedPacket =
  rp_time :: "32 word"
  rp_mark :: bool
  rp_payload :: "byte list"

definition MaxExtSeqNum :: int where
  "MaxExtSeqNum = 0xFFFFFFFF"

definition BOMUTF8 :: "byte list" where
  "BOMUTF8 = [0xEF, 0xBB, 0xBF]"

definition LOSTREPLACEMENT :: "byte list" where
  "LOSTREPLACEMENT = [0xEF, 0xBF, 0xBD]"

definition MaxLostReplacements :: int where
  "MaxLostReplacements = 16"

definition RedundentCodec_new :: RedundentCodec where
  "RedundentCodec_new = \<lparr>rc_lastSeq = MaxExtSeqNum, rc_reds = [], rc_lastTime = 0, rc_idle = True\<rparr>"

text \<open>\<open>Decode\<close> returns what it sends to the output; \<open>None\<close> when it reads through a wild pointer.\<close>

definition Red_Decode :: "32 word \<Rightarrow> int \<Rightarrow> RedContent \<Rightarrow> RedundentCodec \<Rightarrow> frame list option \<times> RedundentCodec" where
  "Red_Decode timeStamp seq red c =
    (let redundantCount = int (GetRedundantCount red);
         lost = (if rc_lastSeq c \<noteq> MaxExtSeqNum \<and> seq > rc_lastSeq c then seq - rc_lastSeq c - 1 else 0);
         c = c\<lparr>rc_lastSeq := seq\<rparr>;
         ts = (if redundantCount > 0 then GetRedundantTimestamp 0 timeStamp red else timeStamp);
         unrecovered = (if lost > redundantCount then lost - redundantCount else 0);
         unrecovered = (if unrecovered > MaxLostReplacements then MaxLostReplacements else unrecovered);
         marks = replicate (nat unrecovered) \<lparr>fr_time = ts, fr_data = LOSTREPLACEMENT\<rparr>;
         lost = (if lost > redundantCount then redundantCount else lost);
         recovered = foldM (\<lambda>i fs. map_option (\<lambda>d. fs @ [\<lparr>fr_time = GetRedundantTimestamp i timeStamp red, fr_data = d\<rparr>])
             (GetRedundantPayload i red)) [nat (redundantCount - lost)..<nat redundantCount] [] in
     (map_option (\<lambda>fs. marks @ fs @ [\<lparr>fr_time = timeStamp, fr_data = (case rd_primaryData red of None \<Rightarrow> [] | Some d \<Rightarrow> d)\<rparr>]) recovered, c))"

definition red_header :: "32 word \<Rightarrow> byte \<Rightarrow> frame \<Rightarrow> byte list" where
  "red_header lastTime ptype f =
    (let diff = lastTime - fr_time f;
         n = length (fr_data f) in
     [0x80 OR ptype, ucast (drop_bit 6 diff), push_bit 2 (ucast (diff AND 0x3F)) OR of_nat (drop_bit 8 n), of_nat n])"

text \<open>\<open>rnd\<close> are the values of \<open>rand()\<close>.\<close>

definition empty_header :: "byte \<Rightarrow> byte \<times> byte \<Rightarrow> byte list" where
  "empty_header ptype rnd = [0x80 OR ptype, fst rnd, push_bit 2 (snd rnd AND 0x3F), 0]"

definition red_payload :: "(byte \<times> byte) list \<Rightarrow> frame option \<Rightarrow> byte \<Rightarrow> RedundentCodec \<Rightarrow> byte list" where
  "red_payload rnd frame ptype c =
    concat (map (\<lambda>i. empty_header ptype (rnd ! i)) [0..<2 - length (rc_reds c)])
    @ concat (map (red_header (rc_lastTime c) ptype) (rc_reds c)) @ [ptype]
    @ concat (map fr_data (rc_reds c)) @ (case frame of None \<Rightarrow> [] | Some f \<Rightarrow> fr_data f)"

text \<open>
  \<open>Encode\<close> writes the payload into a buffer of \<open>MTU\<close> octets on the stack without looking at the lengths;
  \<open>None\<close> is a write beyond its end.
\<close>

definition MTU :: nat where
  "MTU = 1500"

definition Red_Encode :: "(byte \<times> byte) list \<Rightarrow> frame option \<Rightarrow> byte \<Rightarrow> RedundentCodec \<Rightarrow> (RedPacket option \<times> RedundentCodec) option" where
  "Red_Encode rnd frame ptype c =
    (if length (red_payload rnd frame ptype c) > MTU then None
     else let isNotNull = (frame \<noteq> None \<or> list_ex (\<lambda>f. fr_data f \<noteq> []) (rc_reds c));
         packet = \<lparr>rp_time = rc_lastTime c, rp_mark = (rc_idle c \<and> frame \<noteq> None), rp_payload = red_payload rnd frame ptype c\<rparr>;
         reds = rc_reds c @ [case frame of None \<Rightarrow> \<lparr>fr_time = rc_lastTime c, fr_data = []\<rparr> | Some f \<Rightarrow> f];
         reds = (if length reds = 3 then tl reds else reds);
         c = c\<lparr>rc_reds := reds\<rparr>;
         c = (case frame of
                Some f \<Rightarrow> c\<lparr>rc_idle := False, rc_lastTime := fr_time f\<rparr>
              | None \<Rightarrow> c\<lparr>rc_idle := (\<not> list_ex (\<lambda>f. fr_data f \<noteq> [] \<and> fr_data f \<noteq> BOMUTF8) reds)\<rparr>) in
     Some (if isNotNull then Some packet else None, c))"

definition EncodeBOM :: "(byte \<times> byte) list \<Rightarrow> byte \<Rightarrow> RedundentCodec \<Rightarrow> (RedPacket option \<times> RedundentCodec) option" where
  "EncodeBOM rnd ptype c = Red_Encode rnd (Some \<lparr>fr_time = 0, fr_data = BOMUTF8\<rparr>) ptype c"

definition EncoderIsIdle :: "RedundentCodec \<Rightarrow> bool" where
  "EncoderIsIdle c = rc_idle c"

section \<open>What is written is read\<close>

lemma byte_mark: "drop_bit 7 (0x80 OR p :: byte) \<noteq> 0"
proof -
  have "bit (drop_bit 7 (0x80 OR p :: byte)) 0" by (simp add: bit_simps)
  then show ?thesis by auto
qed

lemma byte_plain: "p < 0x80 \<Longrightarrow> drop_bit 7 (p :: byte) = 0"
  by (simp add: word_less_nat_alt word_unat_eq_iff drop_bit_eq_div unat_div)

lemma sized_header:
  assumes "n < 1024"
  shows "push_bit 8 (unat (push_bit 2 d OR of_nat (drop_bit 8 n) :: byte) AND 0x03) OR unat (of_nat n :: byte) = n"
proof -
  let ?q = "drop_bit 8 n"
  have q: "?q < 2 ^ 2" using assms by (simp add: drop_bit_eq_div)
  have b: "\<not> bit ?q i" if "2 \<le> i" for i using nat_bit_bound [OF q, of i] that by auto
  have "(push_bit 2 d OR of_nat ?q :: byte) AND 0x03 = of_nat ?q"
    by (rule byte_eqI) (simp_all add: bit_push_bit_iff bit_or_iff bit_and_iff bit_of_nat_iff b)
  from arg_cong [OF this, of unat] have "unat (push_bit 2 d OR of_nat ?q :: byte) AND 0x03 = ?q"
    using q by (simp only: unsigned_and_eq unat_of_nat) simp
  moreover have "unat (of_nat n :: byte) = n mod 2 ^ 8" by (simp add: unat_of_nat)
  ultimately show ?thesis
    using push_bit_or_nat [of "n mod 2 ^ 8" 8 ?q] by (simp add: drop_bit_eq_div)
qed

text \<open>The headers of the generations, each with its place in the data.\<close>

fun headers_of :: "byte \<Rightarrow> nat \<Rightarrow> (nat \<times> byte list) list \<Rightarrow> RedHeader list" where
  "headers_of ptype skip [] = []"
| "headers_of ptype skip ((off, d) # gs) =
    \<lparr>rh_type = ptype, rh_offset = off, rh_ini = skip, rh_size = length d\<rparr> # headers_of ptype (skip + length d) gs"

definition header_ok :: "byte \<Rightarrow> byte list \<Rightarrow> nat \<Rightarrow> byte list \<Rightarrow> bool" where
  "header_ok ptype h off d \<longleftrightarrow> (\<forall>n rest skip hs. read_headers (h @ n # rest) skip hs =
     read_headers (n # rest) (skip + length d) (hs @ [\<lparr>rh_type = ptype, rh_offset = off, rh_ini = skip, rh_size = length d\<rparr>]))"

lemma mark_type: "p < 0x80 \<Longrightarrow> (0x80 OR p) AND 0x7F = (p :: byte)"
proof -
  assume "p < 0x80"
  then have "unat p < 2 ^ 7" by (simp add: word_less_nat_alt)
  from nat_bit_bound [OF this, of 7] have "\<not> bit p 7" by (auto simp: bit_unsigned_iff)
  then show ?thesis by (intro byte_eqI) (simp_all add: bit_simps)
qed

lemma mark_plain: "p < 0x80 \<Longrightarrow> p AND 0x7F = (p :: byte)"
proof -
  assume "p < 0x80"
  then have "unat p < 2 ^ 7" by (simp add: word_less_nat_alt)
  from nat_bit_bound [OF this, of 7] have "\<not> bit p 7" by (auto simp: bit_unsigned_iff)
  then show ?thesis by (intro byte_eqI) (simp_all add: bit_simps)
qed

lemma four_octets_ok:
  assumes "drop_bit 7 m \<noteq> 0" and "m AND 0x7F = ptype" and "push_bit 8 (unat b AND 0x03) OR unat c = length d"
  shows "header_ok ptype [m, a, b, c] (push_bit 6 (unat a) OR drop_bit 2 (unat b)) d"
  using assms unfolding header_ok_def by (simp add: read_headers.simps(2) [of m] Let_def del: read_headers.simps)

lemma red_header_ok:
  assumes "ptype < 0x80" and "length (fr_data f) < 1024"
  shows "\<exists>off. header_ok ptype (red_header lastTime ptype f) off (fr_data f)"
  unfolding red_header_def Let_def
  by (rule exI, rule four_octets_ok) (use assms in \<open>simp_all only: byte_mark mark_type sized_header not_False_eq_True\<close>)

lemma empty_header_ok:
  assumes "ptype < 0x80"
  shows "\<exists>off. header_ok ptype (empty_header ptype rnd) off []"
proof -
  let ?x = "push_bit 2 (snd rnd AND 0x3F) :: byte"
  have "?x AND 0x03 = 0" by (rule byte_eqI) (simp_all add: bit_simps)
  from arg_cong [OF this, of unat] have "unat ?x AND 0x03 = 0" by (simp only: unsigned_and_eq) simp
  then have "push_bit 8 (unat ?x AND 0x03) OR unat (0 :: byte) = length []" by (simp only: list.size) simp
  from four_octets_ok [OF byte_mark mark_type [OF assms] this] show ?thesis
    unfolding empty_header_def by blast
qed

lemma read_all_headers:
  assumes "list_all2 (\<lambda>h (off, d). header_ok ptype h off d) hdrs gs" and "ptype < 0x80"
  shows "read_headers (concat hdrs @ ptype # rest) skip hs
    = (hs @ headers_of ptype skip gs, Some (ptype # rest, skip + sum_list (map (\<lambda>g. length (snd g)) gs)))"
  using assms(1)
proof (induction hdrs gs arbitrary: skip hs rule: list_all2_induct)
  case Nil
  then show ?case using assms(2) by (simp add: byte_plain)
next
  case (Cons h hdrs g gs)
  obtain off d where g: "g = (off, d)" by (cases g)
  obtain n r where r: "concat hdrs @ ptype # rest = n # r" by (cases "concat hdrs @ ptype # rest") auto
  have "read_headers (concat (h # hdrs) @ ptype # rest) skip hs
    = read_headers (concat hdrs @ ptype # rest) (skip + length d) (hs @ [\<lparr>rh_type = ptype, rh_offset = off, rh_ini = skip, rh_size = length d\<rparr>])"
    using Cons.hyps(1) r by (simp add: header_ok_def g)
  with Cons.IH show ?case by (simp add: g add.assoc)
qed

lemma headers_of_slices:
  assumes "i < length gs" and "skip = length pre"
  shows "rh_size (headers_of ptype skip gs ! i) = length (snd (gs ! i))
    \<and> take (length (snd (gs ! i))) (drop (rh_ini (headers_of ptype skip gs ! i)) (pre @ concat (map snd gs) @ rest)) = snd (gs ! i)"
  using assms
proof (induction gs arbitrary: i skip pre)
  case (Cons g gs)
  obtain off d where g: "g = (off, d)" by (cases g)
  show ?case
  proof (cases i)
    case 0
    with Cons.prems(2) show ?thesis by (simp add: g)
  next
    case (Suc j)
    with Cons.IH [of j "skip + length d" "pre @ d"] Cons.prems show ?thesis by (simp add: g)
  qed
qed simp

lemma length_headers_of [simp]: "length (headers_of ptype skip gs) = length gs"
  by (induction ptype skip gs rule: headers_of.induct) auto

text \<open>The two generations a packet carries, the older first; there is an empty one for each that is missing.\<close>

definition generations :: "RedundentCodec \<Rightarrow> byte list list" where
  "generations c = replicate (2 - length (rc_reds c)) [] @ map fr_data (rc_reds c)"

definition codec_wf :: "RedundentCodec \<Rightarrow> bool" where
  "codec_wf c \<longleftrightarrow> length (rc_reds c) \<le> 2 \<and> (\<forall>f \<in> set (rc_reds c). length (fr_data f) \<le> 497)"

lemma decode_payload:
  assumes "codec_wf c" and "ptype < 0x80"
  shows "\<exists>r. DecodeRedundantPayload (red_payload rnd frame ptype c) RedContent_new = r
    \<and> length (rd_headers r) = 2 \<and> rd_primaryType r = ptype
    \<and> (\<forall>i < 2. GetRedundantPayload i r = Some (generations c ! i))
    \<and> rd_primaryData r = Some (case frame of None \<Rightarrow> [] | Some f \<Rightarrow> fr_data f)"
proof -
  let ?e = "[0..<2 - length (rc_reds c)]"
  let ?hdrs = "map (\<lambda>i. empty_header ptype (rnd ! i)) ?e @ map (red_header (rc_lastTime c) ptype) (rc_reds c)"
  define last where "last = (case frame of None \<Rightarrow> [] | Some f \<Rightarrow> fr_data f)"
  obtain eo where eo: "header_ok ptype (empty_header ptype x) (eo x) []" for x using empty_header_ok [OF assms(2)] by metis
  have "\<forall>f \<in> set (rc_reds c). \<exists>off. header_ok ptype (red_header (rc_lastTime c) ptype f) off (fr_data f)"
    using red_header_ok [OF assms(2)] assms(1) by (fastforce simp: codec_wf_def)
  then obtain ro where ro: "f \<in> set (rc_reds c) \<Longrightarrow> header_ok ptype (red_header (rc_lastTime c) ptype f) (ro f) (fr_data f)" for f by metis
  define gs where "gs = map (\<lambda>i. (eo (rnd ! i), [])) ?e @ map (\<lambda>f. (ro f, fr_data f)) (rc_reds c)"
  define hdrs where "hdrs = ?hdrs"
  define rest where "rest = concat (map snd gs) @ last"
  have "list_all2 (\<lambda>h (off, d). header_ok ptype h off d) hdrs gs"
    unfolding gs_def hdrs_def using ro
    by (intro list_all2_appendI) (auto simp: eo list_all2_map1 list_all2_map2 intro!: list.rel_refl_strong)
  note h = read_all_headers [OF this assms(2), of rest 0 "[]"]
  have gs: "map snd gs = generations c" "length gs = 2"
    using assms(1) by (simp_all add: gs_def generations_def codec_wf_def comp_def map_replicate_const)
  have p: "red_payload rnd frame ptype c = concat hdrs @ ptype # rest"
    by (simp add: red_payload_def gs_def last_def comp_def hdrs_def rest_def)
  have sum: "sum_list (map (\<lambda>g. length (snd g)) gs) = length (concat (map snd gs))"
    by (simp add: length_concat comp_def)
  define r where "r = \<lparr>rd_headers = headers_of ptype 0 gs, rd_primaryType = ptype, rd_redundantData = Some rest, rd_primaryData = Some last\<rparr>"
  have "DecodeRedundantPayload (red_payload rnd frame ptype c) RedContent_new = r"
    unfolding DecodeRedundantPayload_def p RedContent_new_def r_def
    by (simp add: h sum mark_plain [OF assms(2)] del: read_headers.simps) (simp add: rest_def)
  moreover have "GetRedundantPayload i r = Some (generations c ! i)" if "i < 2" for i
    using headers_of_slices [of i gs 0 "[]" ptype last] that gs(2)
    by (simp add: GetRedundantPayload_def r_def rest_def flip: gs(1))
  ultimately show ?thesis
    using gs(2) by (simp add: last_def r_def)
qed

section \<open>Text over a line that loses packets\<close>

text \<open>
  A sender encodes one frame, or none, at a time; a packet gets the next sequence number and arrives or
  is lost; the receiver decodes what arrives. \<open>li_sent\<close> is the text since the first packet that arrived,
  \<open>li_missed\<close> the packets lost since the last one.
\<close>

record link =
  li_sender :: RedundentCodec
  li_receiver :: RedundentCodec
  li_seq :: int
  li_missed :: nat
  li_gap :: bool
  li_sent :: "byte list"
  li_out :: "byte list option"

definition text_of :: "frame option \<Rightarrow> byte list" where
  "text_of frame = (case frame of None \<Rightarrow> [] | Some f \<Rightarrow> fr_data f)"

definition receive_packet :: "RedPacket \<Rightarrow> link \<Rightarrow> link" where
  "receive_packet packet l =
    (case Red_Decode (rp_time packet) (li_seq l) (DecodeRedundantPayload (rp_payload packet) RedContent_new) (li_receiver l) of
       (out, c) \<Rightarrow> l\<lparr>li_receiver := c, li_missed := 0,
         li_out := (case (li_out l, out) of (Some xs, Some fs) \<Rightarrow> Some (xs @ concat (map fr_data fs)) | _ \<Rightarrow> None)\<rparr>)"

definition link_step :: "byte \<Rightarrow> (byte \<times> byte) list \<Rightarrow> frame option \<times> bool \<Rightarrow> link \<Rightarrow> link" where
  "link_step ptype rnd e l =
    (case Red_Encode rnd (fst e) ptype (li_sender l) of
       None \<Rightarrow> l\<lparr>li_sent := li_sent l @ text_of (fst e), li_out := None\<rparr>
     | Some (None, c) \<Rightarrow> l\<lparr>li_sender := c, li_sent := li_sent l @ text_of (fst e)\<rparr>
     | Some (Some packet, c) \<Rightarrow>
         let l = l\<lparr>li_sender := c, li_sent := li_sent l @ text_of (fst e)\<rparr>;
             l = (if snd e then receive_packet packet (l\<lparr>li_gap := (li_gap l \<or> li_missed l > 2)\<rparr>)
                  else l\<lparr>li_missed := li_missed l + 1\<rparr>) in
         l\<lparr>li_seq := li_seq l + 1\<rparr>)"

definition link_new :: "int \<Rightarrow> link" where
  "link_new seq = \<lparr>li_sender = RedundentCodec_new, li_receiver = RedundentCodec_new, li_seq = seq, li_missed = 0, li_gap = False,
     li_sent = [], li_out = Some []\<rparr>"

text \<open>What the receiver still misses is what the sender still repeats.\<close>

definition link_inv :: "int \<Rightarrow> link \<Rightarrow> bool" where
  "link_inv bound l \<longleftrightarrow> codec_wf (li_sender l) \<and> 0 \<le> rc_lastSeq (li_receiver l) \<and> li_seq l < bound
     \<and> rc_lastSeq (li_receiver l) + int (li_missed l) + 1 = li_seq l
     \<and> (\<not> li_gap l \<longrightarrow> (\<exists>xs owed. li_out l = Some xs \<and> li_sent l = xs @ owed
          \<and> (li_missed l \<le> 2 \<longrightarrow> owed = concat (drop (2 - li_missed l) (generations (li_sender l))))))"

lemma Encode_codec:
  assumes "codec_wf c" and "length (text_of frame) \<le> 497"
  shows "\<exists>out c'. Red_Encode rnd frame ptype c = Some (out, c') \<and> codec_wf c'
    \<and> generations c' = [generations c ! 1, text_of frame]
    \<and> (out = None \<longleftrightarrow> frame = None \<and> generations c = [[], []])
    \<and> (\<forall>packet. out = Some packet \<longrightarrow> rp_payload packet = red_payload rnd frame ptype c)"
proof -
  consider "rc_reds c = []" | a where "rc_reds c = [a]" | a b where "rc_reds c = [a, b]"
    using assms(1) by (cases "rc_reds c" rule: remdups_adj.cases) (auto simp: codec_wf_def)
  then show ?thesis
    using assms by cases (auto simp: Red_Encode_def Let_def codec_wf_def generations_def text_of_def numeral_2_eq_2 red_payload_def
        empty_header_def red_header_def MTU_def split: option.splits)
qed

lemma generations_length: "codec_wf c \<Longrightarrow> length (generations c) = 2"
  by (simp add: codec_wf_def generations_def)

lemma Decode_recovers:
  assumes "codec_wf c" and "ptype < 0x80" and "missed \<le> 2"
    and "if rc_lastSeq d = MaxExtSeqNum then missed = 0 else rc_lastSeq d = seq - int missed - 1"
  shows "\<exists>fs. fst (Red_Decode ts seq (DecodeRedundantPayload (red_payload rnd frame ptype c) RedContent_new) d) = Some fs
    \<and> concat (map fr_data fs) = concat (drop (2 - missed) (generations c)) @ text_of frame"
proof -
  obtain r where r: "DecodeRedundantPayload (red_payload rnd frame ptype c) RedContent_new = r" "length (rd_headers r) = 2"
    "\<forall>i < 2. GetRedundantPayload i r = Some (generations c ! i)" "rd_primaryData r = Some (text_of frame)"
    using decode_payload [OF assms(1,2)] unfolding text_of_def by metis
  obtain x y where g: "generations c = [x, y]"
    using generations_length [OF assms(1)] by (auto simp: length_Suc_conv numeral_2_eq_2)
  have p: "GetRedundantPayload 0 r = Some x" "GetRedundantPayload (Suc 0) r = Some y"
    using r(3) g by auto
  have "missed = 0 \<or> missed = 1 \<or> missed = 2" using assms(3) by auto
  with assms(4) r p g show ?thesis
    by (elim disjE) (auto split: if_splits simp: Red_Decode_def Let_def GetRedundantCount_def MaxExtSeqNum_def numeral_2_eq_2 upt_rec)
qed

lemma link_step_inv:
  assumes i: "link_inv bound l" and b: "bound < MaxExtSeqNum" and "ptype < 0x80" and "length (text_of frame) \<le> 497"
  shows "link_inv (bound + 1) (link_step ptype rnd (frame, arrives) l)"
proof -
  let ?c = "li_sender l"
  have wf: "codec_wf ?c" using i by (simp add: link_inv_def)
  from Encode_codec [OF wf assms(4), of rnd ptype] obtain out c' where e: "Red_Encode rnd frame ptype ?c = Some (out, c')"
    and c': "codec_wf c'" "generations c' = [generations ?c ! 1, text_of frame]"
    "out = None \<longleftrightarrow> frame = None \<and> generations ?c = [[], []]" "\<And>packet. out = Some packet \<Longrightarrow> rp_payload packet = red_payload rnd frame ptype ?c"
    by blast
  obtain x y where g: "generations ?c = [x, y]"
    using generations_length [OF wf] by (auto simp: length_Suc_conv numeral_2_eq_2)
  consider (quiet) "out = None" | (lost) packet where "out = Some packet" "\<not> arrives" | (arrived) packet where "out = Some packet" "arrives"
    by (cases out) auto
  then show ?thesis
  proof cases
    case quiet
    then have f: "text_of frame = []" "x = []" "y = []" using c'(3) g by (auto simp: text_of_def)
    have "link_step ptype rnd (frame, arrives) l = l\<lparr>li_sender := c'\<rparr>"
      using quiet f(1) by (simp add: link_step_def e)
    moreover have "generations c' = generations ?c" using c'(2) g f by simp
    ultimately show ?thesis
      using i c'(1) by (simp add: link_inv_def)
  next
    case lost
    have s: "link_step ptype rnd (frame, arrives) l =
        l\<lparr>li_sender := c', li_sent := li_sent l @ text_of frame, li_missed := li_missed l + 1, li_seq := li_seq l + 1\<rparr>"
      using lost by (simp add: link_step_def e)
    have "\<exists>xs owed. li_out l = Some xs \<and> li_sent l @ text_of frame = xs @ owed
        \<and> (li_missed l + 1 \<le> 2 \<longrightarrow> owed = concat (drop (2 - (li_missed l + 1)) (generations c')))" if gap: "\<not> li_gap l"
    proof -
      obtain xs owed where o: "li_out l = Some xs" "li_sent l = xs @ owed"
        "li_missed l \<le> 2 \<longrightarrow> owed = concat (drop (2 - li_missed l) (generations ?c))" using i gap by (auto simp: link_inv_def)
      have "li_missed l = 0 \<or> li_missed l = 1 \<or> li_missed l \<ge> 2" by auto
      then have "li_missed l + 1 \<le> 2 \<longrightarrow> owed @ text_of frame = concat (drop (2 - (li_missed l + 1)) (generations c'))"
        using o(3) g c'(2) by (elim disjE) simp_all
      with o show ?thesis by (intro exI [of _ xs] exI [of _ "owed @ text_of frame"]) simp
    qed
    then show ?thesis
      unfolding s using i c'(1) by (simp add: link_inv_def)
  next
    case arrived
    define d where "d = snd (Red_Decode (rp_time packet) (li_seq l) (DecodeRedundantPayload (rp_payload packet) RedContent_new) (li_receiver l))"
    define out where "out = fst (Red_Decode (rp_time packet) (li_seq l) (DecodeRedundantPayload (rp_payload packet) RedContent_new) (li_receiver l))"
    have s: "link_step ptype rnd (frame, arrives) l =
        l\<lparr>li_sender := c', li_sent := li_sent l @ text_of frame, li_gap := (li_gap l \<or> li_missed l > 2), li_receiver := d, li_missed := 0,
          li_out := (case (li_out l, out) of (Some xs, Some fs) \<Rightarrow> Some (xs @ concat (map fr_data fs)) | _ \<Rightarrow> None), li_seq := li_seq l + 1\<rparr>"
      using arrived by (simp add: link_step_def e Let_def receive_packet_def d_def out_def case_prod_beta cong: option.case_cong)
    have d: "rc_lastSeq d = li_seq l" by (simp add: d_def Red_Decode_def Let_def)
    have o: "\<exists>xs. li_out l = Some xs \<and> (\<exists>fs. out = Some fs \<and> li_sent l @ text_of frame = xs @ concat (map fr_data fs))"
      if gap: "\<not> (li_gap l \<or> li_missed l > 2)"
    proof -
      obtain xs where o: "li_out l = Some xs" "li_sent l = xs @ concat (drop (2 - li_missed l) (generations ?c))"
        using i gap by (auto simp: link_inv_def)
      have "li_missed l \<le> 2" "if rc_lastSeq (li_receiver l) = MaxExtSeqNum then li_missed l = 0
          else rc_lastSeq (li_receiver l) = li_seq l - int (li_missed l) - 1" using i b gap by (auto simp: link_inv_def)
      from Decode_recovers [OF wf assms(3) this, of "rp_time packet" rnd frame] obtain fs where
        "out = Some fs" "concat (map fr_data fs) = concat (drop (2 - li_missed l) (generations ?c)) @ text_of frame"
        using c'(4) [OF arrived(1)] by (auto simp: out_def)
      with o show ?thesis by simp
    qed
    have "0 \<le> li_seq l" "li_seq l < bound" using i by (auto simp: link_inv_def)
    moreover have "concat (drop 2 (generations c')) = []" using c'(2) by simp
    ultimately show ?thesis
      unfolding s link_inv_def using c'(1) d o by auto
  qed
qed

lemma link_first:
  assumes "ptype < 0x80" and "length (fr_data f) \<le> 497" and "0 \<le> seq"
  shows "link_inv (seq + 2) (link_step ptype rnd (Some f, True) (link_new seq))
    \<and> li_sent (link_step ptype rnd (Some f, True) (link_new seq)) = fr_data f"
proof -
  let ?c = RedundentCodec_new
  have wf: "codec_wf ?c" by (simp add: codec_wf_def RedundentCodec_new_def)
  have "length (text_of (Some f)) \<le> 497" using assms(2) by (simp add: text_of_def)
  from Encode_codec [OF wf this, of rnd ptype] obtain packet c' where e: "Red_Encode rnd (Some f) ptype ?c = Some (Some packet, c')"
    and c': "codec_wf c'" "length (generations c') = 2" "rp_payload packet = red_payload rnd (Some f) ptype ?c"
    by fastforce
  have "if rc_lastSeq ?c = MaxExtSeqNum then (0 :: nat) = 0 else rc_lastSeq ?c = seq - int 0 - 1"
    by (simp add: RedundentCodec_new_def)
  from Decode_recovers [OF wf assms(1) _ this, of "rp_time packet" rnd "Some f"] obtain fs where
    d: "fst (Red_Decode (rp_time packet) seq (DecodeRedundantPayload (rp_payload packet) RedContent_new) ?c) = Some fs"
      "concat (map fr_data fs) = fr_data f"
    using generations_length [OF wf] by (auto simp: c'(3) text_of_def)
  have "rc_lastSeq (snd (Red_Decode ts seq r ?c)) = seq" for ts r by (simp add: Red_Decode_def Let_def)
  with c' d assms(3) show ?thesis
    by (simp add: link_inv_def link_step_def link_new_def e Let_def receive_packet_def case_prod_beta text_of_def)
qed

text \<open>
  C7. Text survives the loss of up to two packets in a row. Take any frames of text, of at most 497
  octets each, any pauses between them, and any losses after the first packet, which arrives. As long
  as never more than two packets were lost before one that arrived, the text that the receiver put
  out is a prefix of the text that was sent, without a character lost, doubled or replaced; it is all
  of it when the last packet arrived.
\<close>

theorem red_text_survives:
  assumes "ptype < 0x80" and "\<forall>e \<in> set events. length (text_of (fst e)) \<le> 497" and "length (fr_data f) \<le> 497"
    and "0 \<le> seq" and "seq + int (length events) < 2 ^ 32 - 3"
    and "l = fold (link_step ptype rnd) events (link_step ptype rnd (Some f, True) (link_new seq))"
    and "\<not> li_gap l"
  shows "li_sent l = fr_data f @ concat (map (\<lambda>e. text_of (fst e)) events)
    \<and> (\<exists>xs owed. li_out l = Some xs \<and> li_sent l = xs @ owed \<and> (li_missed l = 0 \<longrightarrow> owed = []))"
proof -
  let ?l0 = "link_step ptype rnd (Some f, True) (link_new seq)"
  have sent: "li_sent (fold (link_step ptype rnd) es m) = li_sent m @ concat (map (\<lambda>e. text_of (fst e)) es)" for es m
    by (induction es arbitrary: m) (simp_all add: link_step_def receive_packet_def Let_def split: prod.split option.split)
  have inv: "link_inv (bound + int (length es)) (fold (link_step ptype rnd) es m)"
    if "link_inv bound m" "bound + int (length es) < MaxExtSeqNum" "\<forall>e \<in> set es. length (text_of (fst e)) \<le> 497" for es m bound
    using that
  proof (induction es arbitrary: m bound)
    case (Cons e es)
    from link_step_inv [OF Cons.prems(1) _ assms(1), of "fst e" rnd "snd e"] Cons.prems
    have "link_inv (bound + 1) (link_step ptype rnd e m)" by simp
    from Cons.IH [OF this] Cons.prems show ?case by (simp add: algebra_simps)
  qed simp
  have l0: "link_inv (seq + 2) ?l0" and s0: "li_sent ?l0 = fr_data f"
    using link_first [OF assms(1,3,4)] by simp_all
  from inv [OF l0] assms have i: "link_inv (seq + 2 + int (length events)) l" by (simp add: MaxExtSeqNum_def)
  then have "drop 2 (generations (li_sender l)) = []" using generations_length by (simp add: link_inv_def)
  moreover obtain xs owed where "li_out l = Some xs" "li_sent l = xs @ owed"
    "li_missed l \<le> 2 \<longrightarrow> owed = concat (drop (2 - li_missed l) (generations (li_sender l)))"
    using i assms(7) unfolding link_inv_def by blast
  ultimately show ?thesis
    using sent [of events ?l0] s0 assms(6) by simp
qed

definition sample_frame :: "string \<Rightarrow> 32 word \<Rightarrow> frame" where
  "sample_frame t time = \<lparr>fr_time = time, fr_data = str t\<rparr>"

definition sample_events :: "(frame option \<times> bool) list" where
  "sample_events = [(Some (sample_frame ''lo'' 1300), False), (None, False), (Some (sample_frame '' w'' 1900), True)]"

theorem red_text_survives_witness:
  "\<exists>xs. li_out (fold (link_step 98 [(1, 2), (3, 4)]) sample_events (link_step 98 [(1, 2), (3, 4)] (Some (sample_frame ''hel'' 1000), True) (link_new 7)))
     = Some xs \<and> xs = str ''hello w''"
proof -
  let ?l = "fold (link_step 98 [(1, 2), (3, 4)]) sample_events (link_step 98 [(1, 2), (3, 4)] (Some (sample_frame ''hel'' 1000), True) (link_new 7))"
  have e: "\<not> li_gap ?l \<and> li_missed ?l = 0"
    by code_simp
  have "\<forall>e \<in> set sample_events. length (text_of (fst e)) \<le> 497" "length (fr_data (sample_frame ''hel'' 1000)) \<le> 497"
    by (simp_all add: sample_events_def sample_frame_def text_of_def str_def)
  from red_text_survives [OF _ this _ _ refl, of 98 7 "[(1, 2), (3, 4)]"] e
  have "li_sent ?l = fr_data (sample_frame ''hel'' 1000) @ concat (map (\<lambda>e. text_of (fst e)) sample_events) \<and> li_out ?l = Some (li_sent ?l)"
    by (auto simp: sample_events_def)
  moreover have "fr_data (sample_frame ''hel'' 1000) @ concat (map (\<lambda>e. text_of (fst e)) sample_events) = str ''hello w''"
    by (simp add: sample_events_def sample_frame_def text_of_def str_def)
  ultimately show ?thesis by metis
qed

section \<open>What the lengths are not checked for\<close>

text \<open>
  C35. A frame of text that fits a packet on its own can overflow the buffer of \<open>Encode\<close>. Three
  generations of at most 497 octets never do, but from the first frame longer than 1491 octets on nothing
  stops the copy at the end of the buffer, whatever the state of the codec.
\<close>

theorem red_overflow:
  "(codec_wf c \<and> length (text_of frame) \<le> 497 \<longrightarrow> Red_Encode rnd frame ptype c \<noteq> None)
   \<and> (length (rc_reds c) \<le> 2 \<and> length (text_of frame) > 1491 \<longrightarrow> Red_Encode rnd frame ptype c = None)"
proof -
  have "length (concat (map (red_header t ptype) fs)) = 4 * length fs" for t fs
    by (induction fs) (simp_all add: red_header_def Let_def)
  moreover have "length (concat (map (\<lambda>i. empty_header ptype (rnd ! i)) is)) = 4 * length is" for "is"
    by (induction "is") (simp_all add: empty_header_def)
  ultimately have "length (red_payload rnd frame ptype c) \<ge> 9 + length (text_of frame)" if "length (rc_reds c) \<le> 2"
    using that by (simp add: red_payload_def text_of_def split: option.split)
  then show ?thesis
    using Encode_codec [of c frame rnd ptype] by (auto simp: Red_Encode_def MTU_def)
qed

theorem red_overflow_witness:
  "Red_Encode [(1, 2), (3, 4)] (Some (sample_frame ''hel'' 1000)) 98 RedundentCodec_new \<noteq> None
   \<and> Red_Encode [(1, 2), (3, 4)] (Some \<lparr>fr_time = 0, fr_data = replicate 1492 65\<rparr>) 98 RedundentCodec_new = None"
  using red_overflow [of RedundentCodec_new "Some (sample_frame ''hel'' 1000)" "[(1, 2), (3, 4)]" 98]
    red_overflow [of RedundentCodec_new "Some \<lparr>fr_time = 0, fr_data = replicate 1492 65\<rparr>" "[(1, 2), (3, 4)]" 98]
  by (simp add: codec_wf_def RedundentCodec_new_def text_of_def sample_frame_def str_def)

section \<open>Payloads that end too early\<close>

text \<open>
  A payload that ends in the middle of its headers is not refused as the comment in
  \<open>DecodeRedundantPayload\<close> says: the headers that were whole stay, while \<open>redundantData\<close> was never set. A
  receiver that lost a packet before such a payload reads the redundant text through the wild pointer.
\<close>

theorem red_wild_pointer:
  "\<exists>payload. GetRedundantCount (DecodeRedundantPayload payload RedContent_new) = 1
     \<and> rd_redundantData (DecodeRedundantPayload payload RedContent_new) = None
     \<and> fst (Red_Decode 2000 12 (DecodeRedundantPayload payload RedContent_new) (RedundentCodec_new\<lparr>rc_lastSeq := 10\<rparr>)) = None"
proof -
  have "DecodeRedundantPayload [0xE2, 0, 4, 3, 0xE2, 0] RedContent_new
    = RedContent_new\<lparr>rd_headers := [\<lparr>rh_type = 0x62, rh_offset = 1, rh_ini = 0, rh_size = 3\<rparr>]\<rparr>"
    by (simp add: DecodeRedundantPayload_def RedContent_new_def)
  then show ?thesis
    by (intro exI [of _ "[0xE2, 0, 4, 3, 0xE2, 0]"])
      (simp add: GetRedundantCount_def RedContent_new_def Red_Decode_def Let_def RedundentCodec_new_def MaxExtSeqNum_def GetRedundantPayload_def)
qed

end
