(* ===== verification/RtcpFields.thy ===== *)
theory RtcpFields
  imports TransportFeedback
begin

text \<open>
  The fields of the RTCP feedback messages (\<open>rtp.h\<close>): \<open>RTCPRTPFeedback::Field\<close> and
  \<open>RTCPPayloadFeedback::Field\<close> with their subclasses.

  A \<open>Parse\<close> is given a list of octets, its argument \<open>size\<close> is the length of the list. Its result is
  \<open>None\<close> when it reads beyond the end of the list, \<open>Some None\<close> when it returns 0, and otherwise the number of octets it
  returns with the field. A \<open>Serialize\<close> is given the room that is left and returns the octets it writes,
  or \<open>None\<close> when it returns 0.
\<close>

type_synonym 'a parsed = "(nat \<times> 'a) option option"

section \<open>RTCPRTPFeedback\<close>

record NACKField =
  nk_pid :: "16 word"
  nk_blp :: "16 word"

definition NACKField_Parse :: "medkit \<Rightarrow> byte list \<Rightarrow> NACKField parsed" where
  "NACKField_Parse io d =
    (if length d < 4 then Some None
     else do {
       pid \<leftarrow> rd2 io d 0;
       blp \<leftarrow> rd2 io d 2;
       Some (Some (4, \<lparr>nk_pid = pid, nk_blp = blp\<rparr>))
     })"

definition NACKField_Serialize :: "medkit \<Rightarrow> nat \<Rightarrow> NACKField \<Rightarrow> byte list option" where
  "NACKField_Serialize io room f = (if room < 4 then None else Some (set2 io (uint (nk_pid f)) @ set2 io (uint (nk_blp f))))"

record TempMaxMediaStreamBitrateField =
  tb_ssrc :: "32 word"
  tb_maxTotalBitrateExp :: byte
  tb_maxTotalBitrateMantissa :: "32 word"
  tb_overhead :: "16 word"

definition TempMax_Parse :: "medkit \<Rightarrow> byte list \<Rightarrow> TempMaxMediaStreamBitrateField parsed" where
  "TempMax_Parse io d =
    (if length d < 8 then Some None
     else do {
       ssrc \<leftarrow> rd4 io d 0;
       d4 \<leftarrow> rd1 d 4;
       d5 \<leftarrow> rd1 d 5;
       d6 \<leftarrow> rd1 d 6;
       d7 \<leftarrow> rd1 d 7;
       Some (Some (8, \<lparr>tb_ssrc = ssrc, tb_maxTotalBitrateExp = drop_bit 2 d4,
         tb_maxTotalBitrateMantissa = push_bit 7 (push_bit 8 (ucast (d4 AND 0x03)) OR ucast d5) OR ucast (drop_bit 1 d6),
         tb_overhead = push_bit 8 (ucast (d6 AND 0x01)) OR ucast d7\<rparr>))
     })"

definition TempMax_Serialize :: "medkit \<Rightarrow> nat \<Rightarrow> TempMaxMediaStreamBitrateField \<Rightarrow> byte list option" where
  "TempMax_Serialize io room f =
    (if room < 8 then None
     else Some (set4 io (uint (tb_ssrc f))
       @ [push_bit 2 (tb_maxTotalBitrateExp f) OR ucast (drop_bit 15 (tb_maxTotalBitrateMantissa f) AND 0x03),
          ucast (drop_bit 7 (tb_maxTotalBitrateMantissa f)),
          ucast (push_bit 1 (tb_maxTotalBitrateMantissa f)) OR ucast (drop_bit 8 (tb_overhead f) AND 0x01),
          ucast (tb_overhead f)]))"

text \<open>
  \<open>SetBitrate\<close> compares the bitrate with \<open>0x1FFFF << i\<close>, an \<open>int\<close>: from \<open>i = 16\<close> on the value does not fit
  even the unsigned type and the shift is undefined, which is \<open>None\<close> here.
\<close>

fun bitrate_exp :: "32 word \<Rightarrow> nat list \<Rightarrow> nat option" where
  "bitrate_exp bitrate [] = Some 0"
| "bitrate_exp bitrate (i # is) =
    (if 16 \<le> i then None else if bitrate \<le> push_bit i 0x1FFFF then Some i else bitrate_exp bitrate is)"

definition TempMax_SetBitrate :: "32 word \<Rightarrow> TempMaxMediaStreamBitrateField \<Rightarrow> TempMaxMediaStreamBitrateField option" where
  "TempMax_SetBitrate bitrate f = do {
     e \<leftarrow> bitrate_exp bitrate [0..<64];
     Some (f\<lparr>tb_maxTotalBitrateExp := of_nat e, tb_maxTotalBitrateMantissa := drop_bit e bitrate\<rparr>)
   }"

definition TempMax_new :: "32 word \<Rightarrow> 32 word \<Rightarrow> 16 word \<Rightarrow> TempMaxMediaStreamBitrateField option" where
  "TempMax_new ssrc bitrate overhead =
    TempMax_SetBitrate bitrate \<lparr>tb_ssrc = ssrc, tb_maxTotalBitrateExp = 0, tb_maxTotalBitrateMantissa = 0, tb_overhead = overhead\<rparr>"

text \<open>A shift of a \<open>DWORD\<close> by 32 or more is undefined.\<close>

definition TempMax_GetBitrate :: "TempMaxMediaStreamBitrateField \<Rightarrow> 32 word option" where
  "TempMax_GetBitrate f =
    (if unat (tb_maxTotalBitrateExp f) \<ge> 32 then None
     else Some (push_bit (unat (tb_maxTotalBitrateExp f)) (tb_maxTotalBitrateMantissa f)))"

datatype RtpField =
    Nack NACKField
  | TempMax TempMaxMediaStreamBitrateField
  | TransportWide FeedbackField

section \<open>RTCPPayloadFeedback\<close>

record SliceLossIndicationField =
  sl_first :: "16 word"
  sl_number :: "16 word"
  sl_pictureId :: byte

definition SliceLoss_Parse :: "byte list \<Rightarrow> SliceLossIndicationField parsed" where
  "SliceLoss_Parse d =
    (if length d < 4 then Some None
     else do {
       d0 \<leftarrow> rd1 d 0;
       d1 \<leftarrow> rd1 d 1;
       d2 \<leftarrow> rd1 d 2;
       d3 \<leftarrow> rd1 d 3;
       Some (Some (4, \<lparr>sl_first = push_bit 5 (ucast d0) OR ucast (drop_bit 3 d1),
         sl_number = push_bit 2 (push_bit 8 (ucast (d1 AND 0x07)) OR ucast d2) OR ucast (drop_bit 6 d3),
         sl_pictureId = d3 AND 0x3F\<rparr>))
     })"

definition SliceLoss_Serialize :: "nat \<Rightarrow> SliceLossIndicationField \<Rightarrow> byte list option" where
  "SliceLoss_Serialize room f =
    (if room < 4 then None
     else Some [ucast (drop_bit 5 (sl_first f)), ucast (push_bit 3 (sl_first f)) OR ucast (drop_bit 10 (sl_number f)),
       ucast (drop_bit 2 (sl_number f)), ucast (push_bit 6 (sl_number f)) OR sl_pictureId f])"

record ReferencePictureSelectionField =
  rs_padding :: byte
  rs_type :: byte
  rs_payload :: "byte list"

definition RefPicture_new :: "byte \<Rightarrow> byte list \<Rightarrow> ReferencePictureSelectionField" where
  "RefPicture_new payloadType bitString =
    \<lparr>rs_padding = of_nat ((4 - (2 + length bitString) mod 4) mod 4 * 8), rs_type = payloadType AND 0x7F, rs_payload = bitString\<rparr>"

definition RefPicture_GetSize :: "ReferencePictureSelectionField \<Rightarrow> nat" where
  "RefPicture_GetSize f = 2 + length (rs_payload f) + unat (rs_padding f) div 8"

definition RefPicture_Parse :: "byte list \<Rightarrow> ReferencePictureSelectionField parsed" where
  "RefPicture_Parse d =
    (if length d < 2 then Some None
     else do {
       padding \<leftarrow> rd1 d 0;
       t \<leftarrow> rd1 d 1;
       if unat padding mod 8 \<noteq> 0 \<or> unat padding div 8 > length d - 2 then Some None
       else do {
         payload \<leftarrow> rdn d 2 (length d - 2 - unat padding div 8);
         Some (Some (length d, \<lparr>rs_padding = padding, rs_type = t AND 0x7F, rs_payload = payload\<rparr>))
       }
     })"

definition RefPicture_Serialize :: "nat \<Rightarrow> ReferencePictureSelectionField \<Rightarrow> byte list option" where
  "RefPicture_Serialize room f =
    (if room < RefPicture_GetSize f then None
     else Some ([rs_padding f, rs_type f AND 0x7F] @ rs_payload f @ replicate (unat (rs_padding f) div 8) 0))"

record FullIntraRequestField =
  fi_ssrc :: "32 word"
  fi_seq :: byte

text \<open>The sequence number is written to the octet 4 and read from the octet 5.\<close>

definition FullIntra_Parse :: "medkit \<Rightarrow> byte list \<Rightarrow> FullIntraRequestField parsed" where
  "FullIntra_Parse io d =
    (if length d < 8 then Some None
     else do {
       ssrc \<leftarrow> rd4 io d 0;
       seq \<leftarrow> rd1 d 5;
       Some (Some (8, \<lparr>fi_ssrc = ssrc, fi_seq = seq\<rparr>))
     })"

definition FullIntra_Serialize :: "medkit \<Rightarrow> nat \<Rightarrow> FullIntraRequestField \<Rightarrow> byte list option" where
  "FullIntra_Serialize io room f = (if room < 8 then None else Some (set4 io (uint (fi_ssrc f)) @ [fi_seq f, 0, 0, 0]))"

record TemporalSpatialTradeOffField =
  ts_ssrc :: "32 word"
  ts_seq :: byte
  ts_index :: byte

definition TradeOff_Parse :: "medkit \<Rightarrow> byte list \<Rightarrow> TemporalSpatialTradeOffField parsed" where
  "TradeOff_Parse io d =
    (if length d < 8 then Some None
     else do {
       ssrc \<leftarrow> rd4 io d 0;
       seq \<leftarrow> rd1 d 4;
       index \<leftarrow> rd1 d 7;
       Some (Some (8, \<lparr>ts_ssrc = ssrc, ts_seq = seq, ts_index = index\<rparr>))
     })"

definition TradeOff_Serialize :: "medkit \<Rightarrow> nat \<Rightarrow> TemporalSpatialTradeOffField \<Rightarrow> byte list option" where
  "TradeOff_Serialize io room f = (if room < 8 then None else Some (set4 io (uint (ts_ssrc f)) @ [ts_seq f, 0, 0, ts_index f]))"

record VideoBackChannelMessageField =
  vb_ssrc :: "32 word"
  vb_seq :: byte
  vb_type :: byte
  vb_payload :: "byte list"

text \<open>The member \<open>length\<close>, a \<open>WORD\<close>, is the length of the payload.\<close>

definition BackChannel_GetSize :: "VideoBackChannelMessageField \<Rightarrow> nat" where
  "BackChannel_GetSize f = 8 + length (vb_payload f)"

definition BackChannel_Parse :: "medkit \<Rightarrow> byte list \<Rightarrow> VideoBackChannelMessageField parsed" where
  "BackChannel_Parse io d =
    (if length d < 8 then Some None
     else do {
       ssrc \<leftarrow> rd4 io d 0;
       seq \<leftarrow> rd1 d 4;
       t \<leftarrow> rd1 d 5;
       n \<leftarrow> rd2 io d 6;
       if length d < 8 + mk_pad32 io (unat n) then Some None
       else do {
         payload \<leftarrow> rdn d 8 (unat n);
         Some (Some (8 + mk_pad32 io (unat n), \<lparr>vb_ssrc = ssrc, vb_seq = seq, vb_type = t, vb_payload = payload\<rparr>))
       }
     })"

definition BackChannel_Serialize :: "medkit \<Rightarrow> nat \<Rightarrow> VideoBackChannelMessageField \<Rightarrow> byte list option" where
  "BackChannel_Serialize io room f =
    (let n = length (vb_payload f) in
     if room < 8 + mk_pad32 io n then None
     else Some (set4 io (uint (vb_ssrc f)) @ [vb_seq f, vb_type f AND 0x7F] @ set2 io (int n) @ vb_payload f
       @ replicate (mk_pad32 io n - n) 0))"

record ApplicationLayerFeeedbackField =
  al_payload :: "byte list"

definition AppLayer_GetSize :: "medkit \<Rightarrow> ApplicationLayerFeeedbackField \<Rightarrow> nat" where
  "AppLayer_GetSize io f = mk_pad32 io (length (al_payload f))"

text \<open>\<open>length\<close> is a \<open>WORD\<close>: a field of 65536 octets or more would be cut.\<close>

definition AppLayer_Parse :: "medkit \<Rightarrow> byte list \<Rightarrow> ApplicationLayerFeeedbackField parsed" where
  "AppLayer_Parse io d =
    (if length d \<noteq> mk_pad32 io (length d) then Some None
     else
       let n = length d mod 2 ^ 16 in
       do {
         payload \<leftarrow> rdn d 0 n;
         Some (if n = 0 then None else Some (n, \<lparr>al_payload = payload\<rparr>))
       })"

definition AppLayer_Serialize :: "medkit \<Rightarrow> nat \<Rightarrow> ApplicationLayerFeeedbackField \<Rightarrow> byte list option" where
  "AppLayer_Serialize io room f =
    (let n = length (al_payload f) in
     if room < mk_pad32 io n then None else Some (al_payload f @ replicate (mk_pad32 io n - n) 0))"

text \<open>\<open>CreateReceiverEstimatedMaxBitrate\<close>: here the shift is done with 64 bits.\<close>

definition remb_exp :: "32 word \<Rightarrow> nat" where
  "remb_exp bitrate = (case find (\<lambda>i. ucast bitrate \<le> (push_bit i 0x3FFFF :: 64 word)) [0..<32] of None \<Rightarrow> 0 | Some i \<Rightarrow> i)"

definition CreateReceiverEstimatedMaxBitrate :: "medkit \<Rightarrow> 32 word list \<Rightarrow> 32 word \<Rightarrow> ApplicationLayerFeeedbackField" where
  "CreateReceiverEstimatedMaxBitrate io ssrcs bitrate =
    (let e = remb_exp bitrate;
         mantissa = drop_bit e bitrate;
         num = (if length ssrcs < 255 then length ssrcs else 255) in
     \<lparr>al_payload = str ''REMB''
       @ [of_nat num, push_bit 2 (of_nat e) OR ucast (drop_bit 16 mantissa AND 0x03), ucast (drop_bit 8 mantissa), ucast mantissa]
       @ concat (map (\<lambda>ssrc. set4 io (uint ssrc)) (take num ssrcs))\<rparr>)"

text \<open>
  What \<open>RTPSession::ProcessRTCPPacket\<close> reads of a message: \<open>None\<close> when it is not an estimation, \<open>Some None\<close> when the
  shift is undefined.
\<close>

definition remb_bitrate :: "byte list \<Rightarrow> 32 word option option" where
  "remb_bitrate payload =
    (if length payload > 8 \<and> take 4 payload = str ''REMB'' then
       let e = unat (drop_bit 2 (payload ! 5));
           mantisa = push_bit 8 (push_bit 8 (ucast (payload ! 5 AND 0x03)) OR ucast (payload ! 6)) OR ucast (payload ! 7) in
       Some (if e \<ge> 32 then None else Some (push_bit e mantisa))
     else None)"

datatype PayloadField =
    SliceLoss SliceLossIndicationField
  | RefPicture ReferencePictureSelectionField
  | FullIntra FullIntraRequestField
  | TradeOff TemporalSpatialTradeOffField
  | BackChannel VideoBackChannelMessageField
  | AppLayer ApplicationLayerFeeedbackField

section \<open>The fields of a message\<close>

text \<open>The switch on the feedback type in \<open>RTCPRTPFeedback::Parse\<close>, and the virtual methods.\<close>

definition RtpField_Parse :: "medkit \<Rightarrow> nat \<Rightarrow> byte list \<Rightarrow> RtpField parsed" where
  "RtpField_Parse io feedbackType d =
    (if feedbackType = 1 then map_option (map_option (map_prod id Nack)) (NACKField_Parse io d)
     else if feedbackType = 3 \<or> feedbackType = 4 then map_option (map_option (map_prod id TempMax)) (TempMax_Parse io d)
     else if feedbackType = 15 then Some (map_option (\<lambda>f. (length d, TransportWide f)) (Feedback_Parse io d FeedbackField_new))
     else Some None)"

fun RtpField_GetSize :: "RtpField \<Rightarrow> nat" where
  "RtpField_GetSize (Nack f) = 4"
| "RtpField_GetSize (TempMax f) = 8"
| "RtpField_GetSize (TransportWide f) = Feedback_GetSize f"

fun RtpField_Serialize :: "medkit \<Rightarrow> nat \<Rightarrow> RtpField \<Rightarrow> byte list option" where
  "RtpField_Serialize io room (Nack f) = NACKField_Serialize io room f"
| "RtpField_Serialize io room (TempMax f) = TempMax_Serialize io room f"
| "RtpField_Serialize io room (TransportWide f) = Feedback_Serialize io room f"

text \<open>The same for \<open>RTCPPayloadFeedback\<close>.\<close>

definition PayloadField_Parse :: "medkit \<Rightarrow> nat \<Rightarrow> byte list \<Rightarrow> PayloadField parsed" where
  "PayloadField_Parse io feedbackType d =
    (if feedbackType = 2 then map_option (map_option (map_prod id SliceLoss)) (SliceLoss_Parse d)
     else if feedbackType = 3 then map_option (map_option (map_prod id RefPicture)) (RefPicture_Parse d)
     else if feedbackType = 4 then map_option (map_option (map_prod id FullIntra)) (FullIntra_Parse io d)
     else if feedbackType = 5 \<or> feedbackType = 6 then map_option (map_option (map_prod id TradeOff)) (TradeOff_Parse io d)
     else if feedbackType = 7 then map_option (map_option (map_prod id BackChannel)) (BackChannel_Parse io d)
     else if feedbackType = 15 then map_option (map_option (map_prod id AppLayer)) (AppLayer_Parse io d)
     else Some None)"

fun PayloadField_GetSize :: "medkit \<Rightarrow> PayloadField \<Rightarrow> nat" where
  "PayloadField_GetSize io (SliceLoss f) = 4"
| "PayloadField_GetSize io (RefPicture f) = RefPicture_GetSize f"
| "PayloadField_GetSize io (FullIntra f) = 8"
| "PayloadField_GetSize io (TradeOff f) = 8"
| "PayloadField_GetSize io (BackChannel f) = BackChannel_GetSize f"
| "PayloadField_GetSize io (AppLayer f) = AppLayer_GetSize io f"

fun PayloadField_Serialize :: "medkit \<Rightarrow> nat \<Rightarrow> PayloadField \<Rightarrow> byte list option" where
  "PayloadField_Serialize io room (SliceLoss f) = SliceLoss_Serialize room f"
| "PayloadField_Serialize io room (RefPicture f) = RefPicture_Serialize room f"
| "PayloadField_Serialize io room (FullIntra f) = FullIntra_Serialize io room f"
| "PayloadField_Serialize io room (TradeOff f) = TradeOff_Serialize io room f"
| "PayloadField_Serialize io room (BackChannel f) = BackChannel_Serialize io room f"
| "PayloadField_Serialize io room (AppLayer f) = AppLayer_Serialize io room f"

text \<open>
  The loop \<open>while (len < packetSize)\<close> of both: \<open>d\<close> is what is left of the packet, \<open>len\<close> what was consumed.
  Both serialize their fields one after the other.
\<close>

function read_fields :: "(byte list \<Rightarrow> 'f parsed) \<Rightarrow> byte list \<Rightarrow> nat \<Rightarrow> 'f list \<Rightarrow> 'f list parsed" where
  "read_fields parse d len fs =
    (if d = [] then Some (Some (len, fs))
     else case parse d of
       None \<Rightarrow> None
     | Some None \<Rightarrow> Some None
     | Some (Some (n, f)) \<Rightarrow> if n = 0 then Some None else read_fields parse (drop n d) (len + n) (fs @ [f]))"
  by pat_completeness auto
termination
  by (relation "measure (\<lambda>(parse, d, len, fs). length d)") auto

declare read_fields.simps [simp del]

definition write_fields :: "(nat \<Rightarrow> 'f \<Rightarrow> byte list option) \<Rightarrow> nat \<Rightarrow> 'f list \<Rightarrow> byte list \<Rightarrow> byte list" where
  "write_fields ser room fs out = fold (\<lambda>f out. out @ (case ser (room - length out) f of None \<Rightarrow> [] | Some d \<Rightarrow> d)) fs out"

lemma write_fields_length:
  assumes "\<And>room f d. f \<in> set fs \<Longrightarrow> ser room f = Some d \<Longrightarrow> length d \<le> room" and "length out \<le> room"
  shows "length (write_fields ser room fs out) \<le> room"
  using assms
proof (induction fs arbitrary: out)
  case (Cons f fs)
  have r: "\<And>room f d. f \<in> set fs \<Longrightarrow> ser room f = Some d \<Longrightarrow> length d \<le> room"
    using Cons.prems(1) by (meson list.set_intros(2))
  have "length (out @ (case ser (room - length out) f of None \<Rightarrow> [] | Some d \<Rightarrow> d)) \<le> room"
    using Cons.prems(2) Cons.prems(1) [of f "room - length out"] by (auto split: option.split)
  from Cons.IH [OF r this] show ?case by (simp add: write_fields_def)
qed (simp add: write_fields_def)

section \<open>Values in the bits of the octets\<close>

lemma bit_twice: "bit (w * 2) (Suc n) = bit w n" if "Suc n < LENGTH('a)" for w :: "'a :: len word"
  using that by (simp add: mult.commute [of w] bit_double_iff)

lemma odd_ucast: "odd (ucast w :: byte) = odd w" for w :: "'a :: len word"
  by (simp flip: bit_0 add: bit_unsigned_iff)

lemma odd_drop: "odd (drop_bit k v) = bit v k" for v :: "16 word"
  by (simp add: bit_iff_odd_drop_bit)

lemma TempMax_bits:
  fixes m :: "32 word" and v :: "16 word" and e :: byte
  assumes "unat m < 2 ^ 17" "unat v < 2 ^ 9" "unat e < 2 ^ 6"
  defines "d4 \<equiv> push_bit 2 e OR ucast (drop_bit 15 m AND 0x03) :: byte"
    and "d6 \<equiv> ucast (push_bit 1 m) OR ucast (drop_bit 8 v AND 0x01) :: byte"
  shows "drop_bit 2 d4 = e"
    and "push_bit 7 (push_bit 8 (ucast (d4 AND 0x03)) OR ucast (ucast (drop_bit 7 m) :: byte)) OR ucast (drop_bit 1 d6) = m"
    and "push_bit 8 (ucast (d6 AND 0x01)) OR ucast (ucast v :: byte) = v"
proof -
  note b = word_bit_bound [OF assms(1)] word_bit_bound [OF assms(2)] word_bit_bound [OF assms(3)]
  have "\<not> bit e 6" "\<not> bit e 7" using b(3) by fastforce+
  then show "drop_bit 2 d4 = e"
    unfolding d4_def by (intro byte_eqI) (simp_all add: bit_simps)
  show "push_bit 7 (push_bit 8 (ucast (d4 AND 0x03)) OR ucast (ucast (drop_bit 7 m) :: byte)) OR ucast (drop_bit 1 d6) = m"
    unfolding d4_def d6_def and_masks
  proof (rule bit_word_eqI)
    fix n assume "n < LENGTH(32)"
    moreover have "n < 7 \<or> (7 \<le> n \<and> n < 15) \<or> n = 15 \<or> n = 16 \<or> 17 \<le> n" by auto
    ultimately show "bit (push_bit 7 (push_bit 8 (ucast (take_bit 2 (push_bit 2 e OR ucast (take_bit 2 (drop_bit 15 m)) :: byte))) OR ucast (ucast (drop_bit 7 m) :: byte))
        OR ucast (drop_bit 1 (ucast (push_bit 1 m) OR ucast (take_bit 1 (drop_bit 8 v)) :: byte)) :: 32 word) n = bit m n"
      using b(1) [of n] by (elim disjE) (auto simp: bit_simps bit_twice)
  qed
  show "push_bit 8 (ucast (d6 AND 0x01)) OR ucast (ucast v :: byte) = v"
    unfolding d6_def and_masks
  proof (rule bit_word_eqI)
    fix n assume "n < LENGTH(16)"
    moreover have "n < 8 \<or> n = 8 \<or> 9 \<le> n" by auto
    ultimately show "bit (push_bit 8 (ucast (take_bit 1 (ucast (push_bit 1 m) OR ucast (take_bit 1 (drop_bit 8 v)) :: byte))) OR ucast (ucast v :: byte) :: 16 word) n = bit v n"
      using b(2) [of n] by (elim disjE) (auto simp: bit_simps odd_ucast odd_drop)
  qed
qed

lemma SliceLoss_bits:
  fixes f n :: "16 word" and p :: byte
  assumes "unat f < 2 ^ 13" "unat n < 2 ^ 13" "unat p < 2 ^ 6"
  defines "d1 \<equiv> ucast (push_bit 3 f) OR ucast (drop_bit 10 n) :: byte" and "d3 \<equiv> ucast (push_bit 6 n) OR p"
  shows "push_bit 5 (ucast (ucast (drop_bit 5 f) :: byte)) OR ucast (drop_bit 3 d1) = f"
    and "push_bit 2 (push_bit 8 (ucast (d1 AND 0x07)) OR ucast (ucast (drop_bit 2 n) :: byte)) OR ucast (drop_bit 6 d3) = n"
    and "d3 AND 0x3F = p"
proof -
  note b = word_bit_bound [OF assms(1)] word_bit_bound [OF assms(2)] word_bit_bound [OF assms(3)]
  have "\<not> bit p 6" "\<not> bit p 7" using b(3) by fastforce+
  then show "d3 AND 0x3F = p"
    unfolding d3_def and_masks by (intro byte_eqI) (simp_all add: bit_simps)
  show "push_bit 5 (ucast (ucast (drop_bit 5 f) :: byte)) OR ucast (drop_bit 3 d1) = f"
    unfolding d1_def
  proof (rule bit_word_eqI)
    fix i assume "i < LENGTH(16)"
    moreover have "i < 5 \<or> (5 \<le> i \<and> i < 13) \<or> 13 \<le> i" by auto
    ultimately show "bit (push_bit 5 (ucast (ucast (drop_bit 5 f) :: byte)) OR ucast (drop_bit 3 (ucast (push_bit 3 f) OR ucast (drop_bit 10 n) :: byte)) :: 16 word) i = bit f i"
      using b(1) [of i] b(2) [of "13 + i"] by (elim disjE) (auto simp: bit_simps)
  qed
  show "push_bit 2 (push_bit 8 (ucast (d1 AND 0x07)) OR ucast (ucast (drop_bit 2 n) :: byte)) OR ucast (drop_bit 6 d3) = n"
    unfolding d1_def d3_def and_masks
  proof (rule bit_word_eqI)
    fix i assume "i < LENGTH(16)"
    have two: "2 \<le> i \<Longrightarrow> Suc (Suc (i - 2)) = i" by simp
    note \<open>i < LENGTH(16)\<close>
    moreover have "i = 0 \<or> i = 1 \<or> (2 \<le> i \<and> i < 10) \<or> i = 10 \<or> i = 11 \<or> i = 12 \<or> 13 \<le> i" by auto
    ultimately show "bit (push_bit 2 (push_bit 8 (ucast (take_bit 3 (ucast (push_bit 3 f) OR ucast (drop_bit 10 n) :: byte))) OR ucast (ucast (drop_bit 2 n) :: byte))
        OR ucast (drop_bit 6 (ucast (push_bit 6 n) OR p)) :: 16 word) i = bit n i"
      using b(2) [of i] b(3) [of "6 + i"] two by (elim disjE) (auto simp: bit_simps)
  qed
qed

section \<open>The contract of a field\<close>

text \<open>Only the last field may take the whole rest.\<close>

definition fields_ok :: "('f \<Rightarrow> bool) \<Rightarrow> ('f \<Rightarrow> bool) \<Rightarrow> 'f list \<Rightarrow> bool" where
  "fields_ok ok greedy fs \<longleftrightarrow> list_all ok fs \<and> list_all (\<lambda>f. \<not> greedy f) (butlast fs)"

text \<open>
  What the loops rely on. \<open>ok\<close> are the fields whose values fit the format, \<open>greedy\<close> those that take the whole
  rest of the packet, \<open>readback\<close> what a peer reads of a field.
\<close>

locale wire_field =
  fixes parse :: "byte list \<Rightarrow> 'f parsed"
    and ser :: "nat \<Rightarrow> 'f \<Rightarrow> byte list option"
    and fsize :: "'f \<Rightarrow> nat"
    and ok :: "'f \<Rightarrow> bool"
    and greedy :: "'f \<Rightarrow> bool"
    and readback :: "'f \<Rightarrow> 'f"
  assumes parse_inside: "parse d \<noteq> None"
    and ser_room: "ser room f = Some d \<Longrightarrow> length d \<le> room"
    and ser_size: "ok f \<Longrightarrow> fsize f \<le> room \<Longrightarrow> \<exists>d. ser room f = Some d \<and> length d = fsize f"
    and size_pos: "ok f \<Longrightarrow> 0 < fsize f"
    and parse_ser: "ok f \<Longrightarrow> ser room f = Some d \<Longrightarrow> (greedy f \<Longrightarrow> rest = []) \<Longrightarrow> parse (d @ rest) = Some (Some (length d, readback f))"
begin

lemma read_fields_inside: "read_fields parse d len fs \<noteq> None"
proof (induction "length d" arbitrary: d len fs rule: less_induct)
  case less
  show ?case
  proof (cases "d = [] \<or> (\<exists>r. parse d = Some r \<and> (r = None \<or> fst (the r) = 0))")
    case True
    then show ?thesis by (subst read_fields.simps) (auto split: option.split)
  next
    case False
    then obtain n f where "parse d = Some (Some (n, f))" "0 < n" "d \<noteq> []"
      using parse_inside [of d] by fastforce
    moreover from this have "length (drop n d) < length d" by simp
    ultimately show ?thesis using less by (subst read_fields.simps) simp
  qed
qed

lemma write_fields_room:
  "length out \<le> room \<Longrightarrow> length (write_fields ser room fs out) \<le> room"
  by (rule write_fields_length [OF ser_room])

lemma write_read_fields:
  assumes "fields_ok ok greedy fs" and "length out + sum_list (map fsize fs) \<le> room"
  shows "\<exists>d. write_fields ser room fs out = out @ d \<and> length d = sum_list (map fsize fs)
    \<and> (\<forall>len acc. read_fields parse d len acc = Some (Some (len + length d, acc @ map readback fs)))"
  using assms
proof (induction fs arbitrary: out)
  case Nil
  then show ?case by (simp add: write_fields_def read_fields.simps)
next
  case (Cons f fs)
  have f: "ok f" "fields_ok ok greedy fs" and g: "greedy f \<Longrightarrow> fs = []"
    using Cons.prems(1) by (auto simp: fields_ok_def split: if_splits)
  obtain x where x: "ser (room - length out) f = Some x" "length x = fsize f"
    using ser_size [OF f(1), of "room - length out"] Cons.prems(2) by (auto simp: le_diff_conv2)
  have "length (out @ x) + sum_list (map fsize fs) \<le> room" using Cons.prems(2) x(2) by simp
  from Cons.IH [OF f(2) this] obtain d where d: "write_fields ser room fs (out @ x) = (out @ x) @ d"
    "length d = sum_list (map fsize fs)"
    "\<And>len acc. read_fields parse d len acc = Some (Some (len + length d, acc @ map readback fs))" by blast
  have "parse (x @ d) = Some (Some (length x, readback f))"
    by (rule parse_ser [OF f(1) x(1)]) (use g d(2) in auto)
  moreover have "0 < length x" using size_pos [OF f(1)] x(2) by simp
  ultimately have "read_fields parse (x @ d) len acc = Some (Some (len + length (x @ d), acc @ map readback (f # fs)))" for len acc
    by (subst read_fields.simps) (auto simp: d(3))
  moreover have "write_fields ser room (f # fs) out = out @ x @ d" using d(1) x(1) by (simp add: write_fields_def)
  moreover have "length (x @ d) = sum_list (map fsize (f # fs))" using d(2) x(2) by simp
  ultimately show ?case by blast
qed

end

section \<open>The fields keep the contract\<close>

definition RtpField_ok :: "nat \<Rightarrow> RtpField \<Rightarrow> bool" where
  "RtpField_ok feedbackType f = (case f of
     Nack f \<Rightarrow> feedbackType = 1
   | TempMax f \<Rightarrow> (feedbackType = 3 \<or> feedbackType = 4) \<and> unat (tb_maxTotalBitrateExp f) < 2 ^ 6
       \<and> unat (tb_maxTotalBitrateMantissa f) < 2 ^ 17 \<and> unat (tb_overhead f) < 2 ^ 9
   | TransportWide f \<Rightarrow> feedbackType = 15 \<and> field_wf f)"

definition RtpField_greedy :: "RtpField \<Rightarrow> bool" where
  "RtpField_greedy f = (case f of TransportWide _ \<Rightarrow> True | _ \<Rightarrow> False)"

definition RtpField_readback :: "RtpField \<Rightarrow> RtpField" where
  "RtpField_readback f = (case f of TransportWide f \<Rightarrow> TransportWide (f\<lparr>lastArrivalTicks := 0\<rparr>) | _ \<Rightarrow> f)"

definition PayloadField_ok :: "nat \<Rightarrow> PayloadField \<Rightarrow> bool" where
  "PayloadField_ok feedbackType f = (case f of
     SliceLoss f \<Rightarrow> feedbackType = 2 \<and> unat (sl_first f) < 2 ^ 13 \<and> unat (sl_number f) < 2 ^ 13 \<and> unat (sl_pictureId f) < 2 ^ 6
   | RefPicture f \<Rightarrow> feedbackType = 3 \<and> rs_type f < 0x80 \<and> unat (rs_padding f) mod 8 = 0
   | FullIntra f \<Rightarrow> feedbackType = 4
   | TradeOff f \<Rightarrow> feedbackType = 5 \<or> feedbackType = 6
   | BackChannel f \<Rightarrow> feedbackType = 7 \<and> vb_type f < 0x80 \<and> length (vb_payload f) < 2 ^ 16 \<and> length (vb_payload f) mod 4 = 0
   | AppLayer f \<Rightarrow> feedbackType = 15 \<and> 0 < length (al_payload f) \<and> length (al_payload f) < 2 ^ 16 \<and> length (al_payload f) mod 4 = 0)"

definition PayloadField_greedy :: "PayloadField \<Rightarrow> bool" where
  "PayloadField_greedy f = (case f of RefPicture _ \<Rightarrow> True | AppLayer _ \<Rightarrow> True | _ \<Rightarrow> False)"

text \<open>A peer that runs this code reads the sequence number 0 from every \<open>FullIntraRequestField\<close>.\<close>

definition PayloadField_readback :: "PayloadField \<Rightarrow> PayloadField" where
  "PayloadField_readback f = (case f of FullIntra f \<Rightarrow> FullIntra (f\<lparr>fi_seq := 0\<rparr>) | _ \<Rightarrow> f)"

lemma low_seven: "p < 0x80 \<Longrightarrow> p AND 0x7F = (p :: byte)"
proof -
  assume "p < 0x80"
  then have "unat p < 2 ^ 7" by (simp add: word_less_nat_alt)
  from word_bit_bound [OF this, of 7] have "\<not> bit p 7" by auto
  then show ?thesis unfolding and_masks by (intro byte_eqI) (simp_all add: bit_simps)
qed

lemma Feedback_Serialize_room:
  assumes "Feedback_Serialize io room f = Some d"
  shows "length d \<le> room"
proof -
  obtain chunks deltas where "Encode f = Some (chunks, deltas)"
    using assms by (auto simp: Feedback_Serialize_def split: if_splits option.splits)
  with assms padded_props(1) [of "8 + 2 * length chunks + length deltas"] show ?thesis
    by (auto simp: Feedback_Serialize_def Let_def HeaderBytes_def length_concat comp_def sum_list_triv split: if_splits)
qed

context medkit_words
begin

lemma get2_second: "get2 io (set2 io v @ xs) 2 = get2 io xs 0"
  by (simp add: get2_def nth_append)

lemma get2_seventh:
  assumes "n < 2 ^ 16"
  shows "get2 io (set4 io v @ a # b # set2 io (int n) @ xs) 6 = int n"
proof -
  have "get2 io (set4 io v @ a # b # set2 io (int n) @ xs) 6 = get2 io (set2 io (int n) @ xs) 0"
    by (simp add: get2_def nth_append)
  also have "\<dots> = int n" using assms by (intro get2_set2) simp_all
  finally show ?thesis .
qed

lemmas field_reads = get2_second get2_seventh get2_word get4_dword nth_append

lemma TempMax_octets:
  "TempMax_Parse io (set4 io (uint s) @ a # b # c # e # rest) = Some (Some (8, \<lparr>tb_ssrc = s, tb_maxTotalBitrateExp = drop_bit 2 a,
     tb_maxTotalBitrateMantissa = push_bit 7 (push_bit 8 (ucast (a AND 0x03)) OR ucast b) OR ucast (drop_bit 1 c),
     tb_overhead = push_bit 8 (ucast (c AND 0x01)) OR ucast e\<rparr>))"
  by (simp add: TempMax_Parse_def field_reads)

lemma RtpField_inside: "RtpField_Parse io t d \<noteq> None"
  by (simp add: RtpField_Parse_def NACKField_Parse_def TempMax_Parse_def)

lemma RtpField_room: "RtpField_Serialize io room f = Some d \<Longrightarrow> length d \<le> room"
  by (cases f) (auto simp: NACKField_Serialize_def TempMax_Serialize_def Feedback_Serialize_room split: if_splits)

lemma RtpField_size:
  assumes "RtpField_ok t f" and "RtpField_GetSize f \<le> room"
  shows "\<exists>d. RtpField_Serialize io room f = Some d \<and> length d = RtpField_GetSize f"
proof (cases f)
  case (TransportWide g)
  with assms feedback_size [OF medkit_network_axioms] show ?thesis by (auto simp: RtpField_ok_def)
qed (use assms in \<open>auto simp: NACKField_Serialize_def TempMax_Serialize_def\<close>)

lemma RtpField_roundtrip:
  assumes "RtpField_ok t f" and "RtpField_Serialize io room f = Some d" and "RtpField_greedy f \<Longrightarrow> rest = []"
  shows "RtpField_Parse io t (d @ rest) = Some (Some (length d, RtpField_readback f))"
proof (cases f)
  case (Nack g)
  with assms show ?thesis
    by (auto simp: RtpField_ok_def RtpField_Parse_def RtpField_readback_def NACKField_Parse_def NACKField_Serialize_def field_reads split: if_splits)
next
  case (TempMax g)
  with assms(1) have "unat (tb_maxTotalBitrateMantissa g) < 2 ^ 17" "unat (tb_overhead g) < 2 ^ 9" "unat (tb_maxTotalBitrateExp g) < 2 ^ 6"
    by (auto simp: RtpField_ok_def)
  note b = TempMax_bits [OF this]
  have d: "d = set4 io (uint (tb_ssrc g))
      @ [push_bit 2 (tb_maxTotalBitrateExp g) OR ucast (drop_bit 15 (tb_maxTotalBitrateMantissa g) AND 0x03),
         ucast (drop_bit 7 (tb_maxTotalBitrateMantissa g)),
         ucast (push_bit 1 (tb_maxTotalBitrateMantissa g)) OR ucast (drop_bit 8 (tb_overhead g) AND 0x01),
         ucast (tb_overhead g)]"
    using assms(2) TempMax by (simp add: TempMax_Serialize_def split: if_splits)
  have "TempMax_Parse io (d @ rest) = Some (Some (8, g))"
    unfolding d append.assoc append_Cons append_Nil TempMax_octets b by simp
  moreover have "length d = 8" by (simp add: d)
  ultimately show ?thesis
    using TempMax assms(1) by (auto simp: RtpField_ok_def RtpField_Parse_def RtpField_readback_def)
next
  case (TransportWide g)
  with assms Parse_Serialized [of g room d FeedbackField_new] show ?thesis
    by (simp add: RtpField_ok_def RtpField_Parse_def RtpField_readback_def RtpField_greedy_def FeedbackField_new_def)
qed

lemma SliceLoss_octets:
  "SliceLoss_Parse (a # b # c # e # rest) = Some (Some (4, \<lparr>sl_first = push_bit 5 (ucast a) OR ucast (drop_bit 3 b),
     sl_number = push_bit 2 (push_bit 8 (ucast (b AND 0x07)) OR ucast c) OR ucast (drop_bit 6 e), sl_pictureId = e AND 0x3F\<rparr>))"
  by (simp add: SliceLoss_Parse_def)

lemma PayloadField_inside: "PayloadField_Parse io t d \<noteq> None"
proof -
  have "8 + unat (n :: 16 word) \<le> length d" if "\<not> length d < 8 + mk_pad32 io (unat n)" for n
    using that pad32_ge [of "unat n"] by simp
  then have "BackChannel_Parse io d \<noteq> None" by (simp add: BackChannel_Parse_def)
  moreover have "RefPicture_Parse d \<noteq> None"
  proof (cases "length d < 2")
    case False
    then have "rd1 d 0 = Some (d ! 0)" "rd1 d 1 = Some (d ! 1)" by (auto simp: rd1_def)
    with False show ?thesis by (simp add: RefPicture_Parse_def)
  qed (simp add: RefPicture_Parse_def)
  ultimately show ?thesis
    by (auto simp: rd1_def PayloadField_Parse_def SliceLoss_Parse_def FullIntra_Parse_def TradeOff_Parse_def AppLayer_Parse_def Let_def)
qed

lemma PayloadField_room: "PayloadField_Serialize io room f = Some d \<Longrightarrow> length d \<le> room"
  using pad32_ge
  by (cases f) (auto simp: SliceLoss_Serialize_def RefPicture_Serialize_def RefPicture_GetSize_def FullIntra_Serialize_def TradeOff_Serialize_def
      BackChannel_Serialize_def AppLayer_Serialize_def Let_def split: if_splits)

lemma pad32_words: "n mod 4 = 0 \<Longrightarrow> mk_pad32 io n = n"
  unfolding pad32_rounds by presburger

lemma PayloadField_size:
  assumes "PayloadField_ok t f" and "PayloadField_GetSize io f \<le> room"
  shows "\<exists>d. PayloadField_Serialize io room f = Some d \<and> length d = PayloadField_GetSize io f"
  using assms
  by (cases f) (auto simp: PayloadField_ok_def SliceLoss_Serialize_def RefPicture_Serialize_def RefPicture_GetSize_def FullIntra_Serialize_def
      TradeOff_Serialize_def BackChannel_Serialize_def BackChannel_GetSize_def AppLayer_Serialize_def AppLayer_GetSize_def Let_def pad32_words)

lemma PayloadField_roundtrip:
  assumes "PayloadField_ok t f" and "PayloadField_Serialize io room f = Some d" and "PayloadField_greedy f \<Longrightarrow> rest = []"
  shows "PayloadField_Parse io t (d @ rest) = Some (Some (length d, PayloadField_readback f))"
proof (cases f)
  case (SliceLoss g)
  with assms(1) have "unat (sl_first g) < 2 ^ 13" "unat (sl_number g) < 2 ^ 13" "unat (sl_pictureId g) < 2 ^ 6"
    by (auto simp: PayloadField_ok_def)
  note b = SliceLoss_bits [OF this]
  have d: "d = [ucast (drop_bit 5 (sl_first g)), ucast (push_bit 3 (sl_first g)) OR ucast (drop_bit 10 (sl_number g)),
       ucast (drop_bit 2 (sl_number g)), ucast (push_bit 6 (sl_number g)) OR sl_pictureId g]"
    using assms(2) SliceLoss by (simp add: SliceLoss_Serialize_def split: if_splits)
  have "SliceLoss_Parse (d @ rest) = Some (Some (4, g))"
    unfolding d append_Cons append_Nil SliceLoss_octets b by simp
  moreover have "length d = 4" by (simp add: d)
  ultimately show ?thesis
    using SliceLoss assms(1) by (auto simp: PayloadField_ok_def PayloadField_Parse_def PayloadField_readback_def)
next
  case (BackChannel g)
  let ?n = "length (vb_payload g)"
  have n: "?n < 65536" "?n mod 4 = 0" using assms(1) BackChannel by (auto simp: PayloadField_ok_def)
  then have "unat (word_of_nat ?n :: 16 word) = ?n" "mk_pad32 io ?n = ?n" by (simp_all add: unat_of_nat pad32_words)
  with BackChannel assms n show ?thesis
    by (auto simp: PayloadField_ok_def PayloadField_Parse_def PayloadField_readback_def BackChannel_Serialize_def Let_def BackChannel_Parse_def
        field_reads low_seven pad32_words split: if_splits)
qed (use assms in \<open>auto simp: PayloadField_ok_def PayloadField_Parse_def PayloadField_readback_def PayloadField_greedy_def RefPicture_Serialize_def
    RefPicture_GetSize_def RefPicture_Parse_def FullIntra_Serialize_def FullIntra_Parse_def TradeOff_Serialize_def TradeOff_Parse_def
    AppLayer_Serialize_def AppLayer_Parse_def Let_def field_reads low_seven pad32_words split: if_splits\<close>)

end

sublocale medkit_words \<subseteq> rtpField: wire_field "RtpField_Parse io t" "RtpField_Serialize io" RtpField_GetSize
    "RtpField_ok t" RtpField_greedy RtpField_readback for t
proof
  show "0 < RtpField_GetSize f" if "RtpField_ok t f" for f
    using that by (cases f) (auto simp: RtpField_ok_def Feedback_GetSize_wf padded_def HeaderBytes_def)
qed (fact RtpField_inside RtpField_room RtpField_size RtpField_roundtrip)+

sublocale medkit_words \<subseteq> payloadField: wire_field "PayloadField_Parse io t" "PayloadField_Serialize io" "PayloadField_GetSize io"
    "PayloadField_ok t" PayloadField_greedy PayloadField_readback for t
proof
  show "0 < PayloadField_GetSize io f" if "PayloadField_ok t f" for f
    using that pad32_ge by (cases f) (auto simp: PayloadField_ok_def RefPicture_GetSize_def BackChannel_GetSize_def AppLayer_GetSize_def pad32_words)
qed (fact PayloadField_inside PayloadField_room PayloadField_size PayloadField_roundtrip)+

section \<open>Bitrates\<close>

lemma unat_push_bit_max:
  assumes "i \<le> 15"
  shows "unat (push_bit i 0x1FFFF :: 32 word) = 0x1FFFF * 2 ^ i"
proof -
  have "(0x1FFFF :: nat) * 2 ^ i \<le> 0x1FFFF * 2 ^ 15" using assms by (intro mult_left_mono power_increasing) simp_all
  then have "(0x1FFFF :: nat) * 2 ^ i < 2 ^ 32" by simp
  then show ?thesis by (simp add: unat_push)
qed

lemma bitrate_exp_cases:
  assumes "k \<le> 16" and "\<forall>i < k. 0x1FFFF * 2 ^ i < unat b"
  shows "case bitrate_exp b [k..<64] of
      Some e \<Rightarrow> e < 16 \<and> unat b \<le> 0x1FFFF * 2 ^ e \<and> (\<forall>i < e. 0x1FFFF * 2 ^ i < unat b)
    | None \<Rightarrow> 0x1FFFF * 2 ^ 15 < unat b"
  using assms
proof (induction k rule: inc_induct)
  case base
  then have "0x1FFFF * 2 ^ 15 < unat b" by (rule allE [of _ 15]) simp
  then show ?case by (simp add: upt_rec)
next
  case (step k)
  have u: "[k..<64] = k # [Suc k..<64]" using step.hyps by (simp add: upt_rec)
  have "b \<le> push_bit k 0x1FFFF \<longleftrightarrow> unat b \<le> 0x1FFFF * 2 ^ k"
    using unat_push_bit_max [of k] step.hyps by (simp add: word_le_nat_alt)
  with step show ?case by (auto simp: u less_Suc_eq not_le)
qed

text \<open>The part of a number that a mantissa keeps.\<close>

lemma mantissa_keeps:
  fixes b :: "32 word"
  assumes "unat b \<le> (2 ^ Suc k - 1) * 2 ^ e" and "\<forall>i < e. (2 ^ Suc k - 1) * 2 ^ i < unat b" and "e \<le> k"
  shows "unat (drop_bit e b) < 2 ^ Suc k"
    and "unat (push_bit e (drop_bit e b)) \<le> unat b"
    and "(unat b - unat (push_bit e (drop_bit e b))) * 2 ^ k \<le> unat b"
proof -
  let ?m = "unat b div 2 ^ e"
  have "(2 ^ Suc k - 1) * 2 ^ e < (2 :: nat) ^ Suc k * 2 ^ e" by (intro mult_strict_right_mono) simp_all
  with assms(1) have "unat b < 2 ^ Suc k * 2 ^ e" by (rule order.strict_trans1)
  then have "?m < 2 ^ Suc k" by (rule less_mult_imp_div_less)
  then show "unat (drop_bit e b) < 2 ^ Suc k" by (simp only: unat_drop)
  have le: "?m * 2 ^ e \<le> unat b" by (simp add: div_times_less_eq_dividend)
  have p: "unat (push_bit e (drop_bit e b)) = ?m * 2 ^ e"
  proof -
    have "unat b < 2 ^ LENGTH(32)" by (rule unsigned_less)
    with le have "?m * 2 ^ e < 2 ^ LENGTH(32)" by (rule order.strict_trans1)
    then show ?thesis by (simp only: unat_push unat_drop mod_less)
  qed
  with le show "unat (push_bit e (drop_bit e b)) \<le> unat b" by simp
  have "unat b - ?m * 2 ^ e = unat b mod 2 ^ e" by (simp add: minus_div_mult_eq_mod)
  moreover have "unat b mod 2 ^ e * 2 ^ k \<le> unat b"
  proof (cases e)
    case (Suc i)
    have "unat b mod 2 ^ e \<le> 2 ^ e - 1" using mod_less_divisor [of "2 ^ e" "unat b"] by (simp add: less_Suc_eq_le [symmetric])
    then have "unat b mod 2 ^ e * 2 ^ k \<le> (2 ^ e - 1) * 2 ^ k" by (rule mult_right_mono) simp
    also have "\<dots> = 2 ^ Suc k * 2 ^ i - 2 ^ k" by (simp add: Suc algebra_simps)
    also have "\<dots> \<le> 2 ^ Suc k * 2 ^ i - 2 ^ i" using assms(3) Suc by (intro diff_le_mono2 power_increasing) simp_all
    also have "\<dots> = (2 ^ Suc k - 1) * 2 ^ i" by (simp add: algebra_simps)
    also have "\<dots> \<le> unat b" using assms(2) Suc by (simp add: less_imp_le)
    finally show ?thesis .
  qed simp
  ultimately show "(unat b - unat (push_bit e (drop_bit e b))) * 2 ^ k \<le> unat b" by (simp only: p)
qed

lemma TempMax_kept:
  assumes "bitrate \<le> 0xFFFF8000"
  shows "\<exists>f b. TempMax_new ssrc bitrate overhead = Some f \<and> TempMax_GetBitrate f = Some b
    \<and> unat (tb_maxTotalBitrateExp f) < 2 ^ 6 \<and> unat (tb_maxTotalBitrateMantissa f) < 2 ^ 17
    \<and> unat b \<le> unat bitrate \<and> (unat bitrate - unat b) * 2 ^ 16 \<le> unat bitrate"
proof -
  have "unat bitrate \<le> 0x1FFFF * 2 ^ 15" using assms by (simp add: word_le_nat_alt)
  then obtain e where e: "bitrate_exp bitrate [0..<64] = Some e" "e < 16" "unat bitrate \<le> (2 ^ Suc 16 - 1) * 2 ^ e"
    "\<forall>i < e. (2 ^ Suc 16 - 1) * 2 ^ i < unat bitrate"
    using bitrate_exp_cases [of 0 bitrate] by (auto split: option.splits)
  from mantissa_keeps [OF e(3,4)] e(2) have
    m: "unat (drop_bit e bitrate) < 2 ^ Suc 16" "unat (push_bit e (drop_bit e bitrate)) \<le> unat bitrate"
      "(unat bitrate - unat (push_bit e (drop_bit e bitrate))) * 2 ^ 16 \<le> unat bitrate" by simp_all
  have u: "unat (of_nat e :: byte) = e" using e(2) by (simp add: unat_of_nat)
  define f where "f = \<lparr>tb_ssrc = ssrc, tb_maxTotalBitrateExp = of_nat e, tb_maxTotalBitrateMantissa = drop_bit e bitrate, tb_overhead = overhead\<rparr>"
  have "TempMax_new ssrc bitrate overhead = Some f"
    using e(1) by (simp add: TempMax_new_def TempMax_SetBitrate_def f_def)
  moreover have "TempMax_GetBitrate f = Some (push_bit e (drop_bit e bitrate))"
    using e(2) u by (simp add: TempMax_GetBitrate_def f_def)
  moreover have "unat (tb_maxTotalBitrateExp f) < 2 ^ 6" "unat (tb_maxTotalBitrateMantissa f) < 2 ^ 17"
    using e(2) u m(1) by (simp_all add: f_def)
  ultimately show ?thesis using m(2,3) by blast
qed

lemma remb_exp_props:
  "unat bitrate \<le> (2 ^ Suc 17 - 1) * 2 ^ remb_exp bitrate" "\<forall>i < remb_exp bitrate. (2 ^ Suc 17 - 1) * 2 ^ i < unat bitrate" "remb_exp bitrate \<le> 17"
proof -
  have u: "ucast bitrate \<le> (push_bit i 0x3FFFF :: 64 word) \<longleftrightarrow> unat bitrate \<le> 0x3FFFF * 2 ^ i" if "i < 32" for i
  proof -
    have "(0x3FFFF :: nat) * 2 ^ i \<le> 0x3FFFF * 2 ^ 31" using that by (intro mult_left_mono power_increasing) simp_all
    then have "(0x3FFFF :: nat) * 2 ^ i < 2 ^ 64" by simp
    then have "unat (push_bit i 0x3FFFF :: 64 word) = 0x3FFFF * 2 ^ i" by (simp add: unat_push)
    moreover have "unat (ucast bitrate :: 64 word) = unat bitrate"
      by (simp only: unsigned_ucast_eq) (intro take_bit_nat_eq_self, rule order.strict_trans2 [OF unsigned_less], simp)
    ultimately show ?thesis by (simp only: word_le_nat_alt)
  qed
  have "unat bitrate < 2 ^ LENGTH(32)" by (rule unsigned_less)
  then have "unat bitrate \<le> 0x3FFFF * 2 ^ 15" by simp
  then have "\<not> (\<forall>i \<in> set [0..<32]. \<not> ucast bitrate \<le> (push_bit i 0x3FFFF :: 64 word))"
    using u [of 15] by (auto intro!: bexI [of _ 15])
  then obtain e where e: "find (\<lambda>i. ucast bitrate \<le> (push_bit i 0x3FFFF :: 64 word)) [0..<32] = Some e"
    by (cases "find (\<lambda>i. ucast bitrate \<le> (push_bit i 0x3FFFF :: 64 word)) [0..<32]") (auto simp: find_None_iff)
  then have "e < 32" "ucast bitrate \<le> (push_bit e 0x3FFFF :: 64 word)" "\<forall>i < e. \<not> ucast bitrate \<le> (push_bit i 0x3FFFF :: 64 word)"
    by (auto simp: find_Some_iff)
  with u have "unat bitrate \<le> 0x3FFFF * 2 ^ e" "\<forall>i < e. 0x3FFFF * 2 ^ i < unat bitrate"
    by (auto simp: not_le)
  moreover have "e \<le> 17"
    using calculation(2) \<open>unat bitrate \<le> 0x3FFFF * 2 ^ 15\<close> by (rule_tac ccontr) (auto dest: spec [of _ 15])
  ultimately show "unat bitrate \<le> (2 ^ Suc 17 - 1) * 2 ^ remb_exp bitrate"
    "\<forall>i < remb_exp bitrate. (2 ^ Suc 17 - 1) * 2 ^ i < unat bitrate" "remb_exp bitrate \<le> 17"
    by (simp_all add: remb_exp_def e)
qed

lemma remb_bits:
  fixes m :: "32 word" and e :: byte
  assumes "unat m < 2 ^ 18" "unat e < 2 ^ 6"
  defines "d5 \<equiv> push_bit 2 e OR ucast (drop_bit 16 m AND 0x03) :: byte"
  shows "drop_bit 2 d5 = e"
    and "push_bit 8 (push_bit 8 (ucast (d5 AND 0x03)) OR ucast (ucast (drop_bit 8 m) :: byte)) OR ucast (ucast m :: byte) = m" (is "?l = m")
proof -
  note b = word_bit_bound [OF assms(1)] word_bit_bound [OF assms(2)]
  have "\<not> bit e 6" "\<not> bit e 7" using b(2) by fastforce+
  then show "drop_bit 2 d5 = e"
    unfolding d5_def by (intro byte_eqI) (simp_all add: bit_simps)
  show "?l = m"
    unfolding d5_def and_masks
  proof (rule bit_word_eqI)
    fix n assume "n < LENGTH(32)"
    moreover have "n < 8 \<or> (8 \<le> n \<and> n < 16) \<or> n = 16 \<or> n = 17 \<or> 18 \<le> n" by auto
    ultimately show "bit (push_bit 8 (push_bit 8 (ucast (take_bit 2 (push_bit 2 e OR ucast (take_bit 2 (drop_bit 16 m)) :: byte)))
        OR ucast (ucast (drop_bit 8 m) :: byte)) OR ucast (ucast m :: byte) :: 32 word) n = bit m n"
      using b(1) [of n] by (elim disjE) (auto simp: bit_simps)
  qed
qed

lemma remb_kept:
  assumes "ssrcs \<noteq> []"
  shows "\<exists>b. remb_bitrate (al_payload (CreateReceiverEstimatedMaxBitrate io ssrcs bitrate)) = Some (Some b)
    \<and> unat b \<le> unat bitrate \<and> (unat bitrate - unat b) * 2 ^ 17 \<le> unat bitrate"
proof -
  define e where "e = remb_exp bitrate"
  define m where "m = drop_bit e bitrate"
  have e: "e \<le> 17" unfolding e_def by (rule remb_exp_props)
  note k = mantissa_keeps [OF remb_exp_props [of bitrate], folded e_def, folded m_def]
  have ue: "unat (of_nat e :: byte) = e" using e by (simp add: unat_of_nat)
  define d5 :: byte where "d5 = push_bit 2 (of_nat e) OR ucast (drop_bit 16 m AND 0x03)"
  have b: "drop_bit 2 d5 = of_nat e"
    "push_bit 8 (push_bit 8 (ucast (d5 AND 0x03)) OR ucast (ucast (drop_bit 8 m) :: byte)) OR ucast (ucast m :: byte) = m"
    using remb_bits [of m "of_nat e"] k(1) e by (simp_all add: ue d5_def)
  obtain num and rest :: "byte list" where p: "al_payload (CreateReceiverEstimatedMaxBitrate io ssrcs bitrate)
      = str ''REMB'' @ num # d5 # ucast (drop_bit 8 m) # ucast m # rest" "rest \<noteq> []"
    using assms by (cases ssrcs) (auto simp: CreateReceiverEstimatedMaxBitrate_def Let_def d5_def m_def e_def set4_def split: prod.splits)
  then have "length (al_payload (CreateReceiverEstimatedMaxBitrate io ssrcs bitrate)) > 8" by (simp add: str_def)
  moreover have "take 4 (al_payload (CreateReceiverEstimatedMaxBitrate io ssrcs bitrate)) = str ''REMB''" by (simp add: p(1) str_def)
  moreover have "al_payload (CreateReceiverEstimatedMaxBitrate io ssrcs bitrate) ! 5 = d5"
    "al_payload (CreateReceiverEstimatedMaxBitrate io ssrcs bitrate) ! 6 = ucast (drop_bit 8 m)"
    "al_payload (CreateReceiverEstimatedMaxBitrate io ssrcs bitrate) ! 7 = ucast m"
    by (simp_all add: p(1) str_def)
  ultimately have "remb_bitrate (al_payload (CreateReceiverEstimatedMaxBitrate io ssrcs bitrate)) = Some (Some (push_bit e m))"
    using e by (simp only: remb_bitrate_def Let_def b ue) simp
  with k(2,3) show ?thesis by blast
qed

text \<open>
  C38. Bitrates survive their mantissa. A bitrate put into a \<open>TempMaxMediaStreamBitrateField\<close>, up to the
  largest that seventeen bits shifted by fifteen can hold, fits the fields of the format, and what is read is at most that bitrate and
  less by at most its \<open>2 ^ 16\<close>th part; a bitrate put into a \<open>REMB\<close> message for at least one source is read
  likewise, to its \<open>2 ^ 17\<close>th part, for all values of 32 bits.
\<close>

theorem bitrate_kept:
  "(bitrate \<le> 0xFFFF8000 \<longrightarrow> (\<exists>f b. TempMax_new ssrc bitrate overhead = Some f \<and> TempMax_GetBitrate f = Some b
      \<and> unat (tb_maxTotalBitrateExp f) < 2 ^ 6 \<and> unat (tb_maxTotalBitrateMantissa f) < 2 ^ 17
      \<and> unat b \<le> unat bitrate \<and> (unat bitrate - unat b) * 2 ^ 16 \<le> unat bitrate))
   \<and> (ssrcs \<noteq> [] \<longrightarrow> (\<exists>b. remb_bitrate (al_payload (CreateReceiverEstimatedMaxBitrate io ssrcs bitrate)) = Some (Some b)
      \<and> unat b \<le> unat bitrate \<and> (unat bitrate - unat b) * 2 ^ 17 \<le> unat bitrate))"
  using TempMax_kept [of bitrate ssrc overhead] remb_kept [of ssrcs io bitrate] by blast

theorem bitrate_kept_witness:
  "(\<exists>f b. TempMax_new 7 1000001 40 = Some f \<and> TempMax_GetBitrate f = Some b \<and> unat b \<le> 1000001 \<and> (1000001 - unat b) * 65536 \<le> 1000001)
   \<and> (\<exists>b. remb_bitrate (al_payload (CreateReceiverEstimatedMaxBitrate network_order [7] 1000001)) = Some (Some b)
      \<and> unat b \<le> 1000001 \<and> (1000001 - unat b) * 131072 \<le> 1000001)"
  using bitrate_kept [of 1000001 7 40 "[7]" network_order] by simp blast

end
