(* ===== verification/Rtcp.thy ===== *)
theory Rtcp
  imports RtcpFields
begin

text \<open>
  RTCP (\<open>rtp.h\<close>, \<open>rtp.cpp\<close>): the packet classes with their \<open>GetSize\<close>, \<open>Parse\<close> and \<open>Serialize\<close>, and the compound
  packet. Results as for the fields: \<open>None\<close> is a read beyond the octets that were given, or of memory that
  was never written, \<open>Some None\<close> is the return value 0.

  The class hierarchy is the datatype \<open>RTCPPacket\<close>; the virtual methods are functions on it. The header
  \<open>rtcp_common_t\<close> is the bit field as the compiler lays it out on a little-endian machine. The conversions
  of the NTP time in \<open>RTCPSenderReport\<close> use floating-point numbers and are left out.
\<close>

section \<open>The header\<close>

record rtcp_common_t =
  hc_count :: nat
  hc_version :: nat
  hc_pt :: nat
  hc_length :: nat

definition read_header :: "byte list \<Rightarrow> rtcp_common_t option" where
  "read_header d = do {
     b0 \<leftarrow> rd1 d 0;
     b1 \<leftarrow> rd1 d 1;
     b2 \<leftarrow> rd1 d 2;
     b3 \<leftarrow> rd1 d 3;
     Some \<lparr>hc_count = unat (b0 AND 0x1F), hc_version = unat (drop_bit 6 b0), hc_pt = unat b1, hc_length = unat b2 * 256 + unat b3\<rparr>
   }"

definition GetRTCPHeaderLength :: "rtcp_common_t \<Rightarrow> nat" where
  "GetRTCPHeaderLength h = (hc_length h + 1) * 4"

text \<open>The header as every \<open>Serialize\<close> fills it, \<open>SetRTCPHeaderLength\<close> included.\<close>

definition write_header :: "nat \<Rightarrow> nat \<Rightarrow> nat \<Rightarrow> byte list" where
  "write_header count pt packetSize =
    [0x80 OR of_nat (count mod 32), of_nat pt, of_nat ((packetSize div 4 - 1) div 256), of_nat (packetSize div 4 - 1)]"

text \<open>What every \<open>Parse\<close> begins with; \<open>body\<close> are the octets it wants behind the header.\<close>

definition open_packet :: "byte list \<Rightarrow> nat \<Rightarrow> (rtcp_common_t \<Rightarrow> nat \<Rightarrow> 'a option option) \<Rightarrow> 'a option option" where
  "open_packet d body k =
    (if length d < 4 then Some None
     else do {
       h \<leftarrow> read_header d;
       if length d < GetRTCPHeaderLength h then Some None
       else if GetRTCPHeaderLength h < 4 + body then Some None
       else k h (GetRTCPHeaderLength h)
     })"

section \<open>Reports\<close>

record RTCPReport =
  rr_buffer :: "byte list"

definition overlay :: "nat \<Rightarrow> byte list \<Rightarrow> RTCPReport \<Rightarrow> RTCPReport" where
  "overlay i xs r = r\<lparr>rr_buffer := take i (rr_buffer r) @ xs @ drop (i + length xs) (rr_buffer r)\<rparr>"

definition Report_SetSSRC :: "medkit \<Rightarrow> 32 word \<Rightarrow> RTCPReport \<Rightarrow> RTCPReport" where
  "Report_SetSSRC io ssrc = overlay 0 (set4 io (uint ssrc))"

definition Report_SetFractionLost :: "byte \<Rightarrow> RTCPReport \<Rightarrow> RTCPReport" where
  "Report_SetFractionLost fraction = overlay 4 [fraction]"

definition Report_SetLostCount :: "medkit \<Rightarrow> 32 word \<Rightarrow> RTCPReport \<Rightarrow> RTCPReport" where
  "Report_SetLostCount io lost = overlay 5 (set3 io (uint lost))"

definition Report_SetLastSeqNum :: "medkit \<Rightarrow> 32 word \<Rightarrow> RTCPReport \<Rightarrow> RTCPReport" where
  "Report_SetLastSeqNum io seq = overlay 8 (set4 io (uint seq))"

definition Report_SetLastJitter :: "medkit \<Rightarrow> 32 word \<Rightarrow> RTCPReport \<Rightarrow> RTCPReport" where
  "Report_SetLastJitter io jitter = overlay 12 (set4 io (uint jitter))"

definition Report_SetLastSR :: "medkit \<Rightarrow> 32 word \<Rightarrow> RTCPReport \<Rightarrow> RTCPReport" where
  "Report_SetLastSR io sr = overlay 16 (set4 io (uint sr))"

definition Report_SetDelaySinceLastSR :: "medkit \<Rightarrow> 32 word \<Rightarrow> RTCPReport \<Rightarrow> RTCPReport" where
  "Report_SetDelaySinceLastSR io delay = overlay 20 (set4 io (uint delay))"

definition Report_Serialize :: "nat \<Rightarrow> RTCPReport \<Rightarrow> byte list option" where
  "Report_Serialize room r = (if room < 24 then None else Some (rr_buffer r))"

definition Report_Parse :: "byte list \<Rightarrow> RTCPReport parsed" where
  "Report_Parse d =
    (if length d < 24 then Some None
     else do {
       b \<leftarrow> rdn d 0 24;
       Some (Some (24, \<lparr>rr_buffer = b\<rparr>))
     })"

text \<open>A report that its \<open>Parse\<close> refused would be added with a buffer that was never written.\<close>

fun read_reports :: "byte list \<Rightarrow> nat \<Rightarrow> nat \<Rightarrow> nat \<Rightarrow> RTCPReport list \<Rightarrow> (RTCPReport list \<times> nat) option" where
  "read_reports d packetSize 0 len rs = Some (rs, len)"
| "read_reports d packetSize (Suc n) len rs =
    (if packetSize \<ge> len + 24 then
       (case Report_Parse (drop len d) of
          Some (Some (k, r)) \<Rightarrow> read_reports d packetSize n (len + k) (rs @ [r])
        | _ \<Rightarrow> None)
     else Some (rs, len))"

fun read_dwords :: "medkit \<Rightarrow> byte list \<Rightarrow> nat \<Rightarrow> nat \<Rightarrow> nat \<Rightarrow> 32 word list \<Rightarrow> (32 word list \<times> nat) option" where
  "read_dwords io d packetSize 0 len ws = Some (ws, len)"
| "read_dwords io d packetSize (Suc n) len ws =
    (if len + 4 \<le> packetSize then
       (case rd4 io d len of
          None \<Rightarrow> None
        | Some w \<Rightarrow> read_dwords io d packetSize n (len + 4) (ws @ [w]))
     else Some (ws, len))"

section \<open>The packets\<close>

record RTCPSenderReport =
  sr_ssrc :: "32 word"
  sr_ntpSec :: "32 word"
  sr_ntpFrac :: "32 word"
  sr_rtpTimestamp :: "32 word"
  sr_packetsSent :: "32 word"
  sr_octectsSent :: "32 word"
  sr_reports :: "RTCPReport list"

record RTCPReceiverReport =
  rc_ssrc :: "32 word"
  rc_reports :: "RTCPReport list"

record RTCPBye =
  by_ssrcs :: "32 word list"
  by_reason :: "byte list option"

record Item =
  it_type :: byte
  it_data :: "byte list"

record Description =
  ds_ssrc :: "32 word"
  ds_items :: "Item list"

record RTCPApp =
  ap_subtype :: nat
  ap_ssrc :: "32 word"
  ap_name :: "byte list"
  ap_data :: "byte list"

record RTCPRTPFeedback =
  rf_feedbackType :: nat
  rf_senderSSRC :: "32 word"
  rf_mediaSSRC :: "32 word"
  rf_fields :: "RtpField list"

record RTCPPayloadFeedback =
  pf_feedbackType :: nat
  pf_senderSSRC :: "32 word"
  pf_mediaSSRC :: "32 word"
  pf_fields :: "PayloadField list"

record RTCPNACK =
  na_ssrc :: "32 word"
  na_fsn :: "16 word"
  na_blp :: "16 word"

datatype RTCPPacket =
    SenderReport RTCPSenderReport
  | ReceiverReport RTCPReceiverReport
  | SDES "Description list"
  | Bye RTCPBye
  | App RTCPApp
  | RTPFeedback RTCPRTPFeedback
  | PayloadFeedback RTCPPayloadFeedback
  | FullIntraRequest "32 word"
  | NACK RTCPNACK
  | ExtendedJitterReport "32 word list"

fun GetType :: "RTCPPacket \<Rightarrow> nat" where
  "GetType (FullIntraRequest _) = 192"
| "GetType (NACK _) = 193"
| "GetType (ExtendedJitterReport _) = 195"
| "GetType (SenderReport _) = 200"
| "GetType (ReceiverReport _) = 201"
| "GetType (SDES _) = 202"
| "GetType (Bye _) = 203"
| "GetType (App _) = 204"
| "GetType (RTPFeedback _) = 205"
| "GetType (PayloadFeedback _) = 206"

definition SenderReport_GetSize :: "RTCPSenderReport \<Rightarrow> nat" where
  "SenderReport_GetSize p = 4 + 24 + 24 * length (sr_reports p)"

definition SenderReport_Parse :: "medkit \<Rightarrow> byte list \<Rightarrow> RTCPSenderReport parsed" where
  "SenderReport_Parse io d = open_packet d 24 (\<lambda>h packetSize. do {
     ssrc \<leftarrow> rd4 io d 4;
     ntpSec \<leftarrow> rd4 io d 8;
     ntpFrac \<leftarrow> rd4 io d 12;
     rtpTimestamp \<leftarrow> rd4 io d 16;
     packetsSent \<leftarrow> rd4 io d 20;
     octectsSent \<leftarrow> rd4 io d 24;
     (rs, len) \<leftarrow> read_reports d packetSize (hc_count h) 28 [];
     Some (Some (len, \<lparr>sr_ssrc = ssrc, sr_ntpSec = ntpSec, sr_ntpFrac = ntpFrac, sr_rtpTimestamp = rtpTimestamp,
       sr_packetsSent = packetsSent, sr_octectsSent = octectsSent, sr_reports = rs\<rparr>))
   })"

text \<open>The loop over the reports runs to \<open>header->count\<close>, which has five bits.\<close>

definition SenderReport_Serialize :: "medkit \<Rightarrow> nat \<Rightarrow> RTCPSenderReport \<Rightarrow> byte list option" where
  "SenderReport_Serialize io room p =
    (if room < SenderReport_GetSize p then None
     else Some (write_fields Report_Serialize room (take (length (sr_reports p) mod 32) (sr_reports p))
       (write_header (length (sr_reports p)) 200 (SenderReport_GetSize p)
        @ set4 io (uint (sr_ssrc p)) @ set4 io (uint (sr_ntpSec p)) @ set4 io (uint (sr_ntpFrac p))
        @ set4 io (uint (sr_rtpTimestamp p)) @ set4 io (uint (sr_packetsSent p)) @ set4 io (uint (sr_octectsSent p)))))"

definition ReceiverReport_GetSize :: "RTCPReceiverReport \<Rightarrow> nat" where
  "ReceiverReport_GetSize p = 4 + 4 + 24 * length (rc_reports p)"

definition ReceiverReport_Parse :: "medkit \<Rightarrow> byte list \<Rightarrow> RTCPReceiverReport parsed" where
  "ReceiverReport_Parse io d = open_packet d 4 (\<lambda>h packetSize. do {
     ssrc \<leftarrow> rd4 io d 4;
     (rs, len) \<leftarrow> read_reports d packetSize (hc_count h) 8 [];
     Some (Some (len, \<lparr>rc_ssrc = ssrc, rc_reports = rs\<rparr>))
   })"

definition ReceiverReport_Serialize :: "medkit \<Rightarrow> nat \<Rightarrow> RTCPReceiverReport \<Rightarrow> byte list option" where
  "ReceiverReport_Serialize io room p =
    (if room < ReceiverReport_GetSize p then None
     else Some (write_fields Report_Serialize room (take (length (rc_reports p) mod 32) (rc_reports p))
       (write_header (length (rc_reports p)) 201 (ReceiverReport_GetSize p) @ set4 io (uint (rc_ssrc p)))))"

text \<open>\<open>reason\<close> is a C string: \<open>strlen\<close> counts up to the first zero.\<close>

definition strlen :: "byte list \<Rightarrow> nat" where
  "strlen s = length (takeWhile (\<lambda>b. b \<noteq> 0) s)"

definition Bye_GetSize :: "RTCPBye \<Rightarrow> nat" where
  "Bye_GetSize p = 4 + 4 * length (by_ssrcs p) + (case by_reason p of None \<Rightarrow> 0 | Some r \<Rightarrow> strlen r + 1)"

definition Bye_Parse :: "medkit \<Rightarrow> byte list \<Rightarrow> RTCPBye parsed" where
  "Bye_Parse io d = open_packet d 0 (\<lambda>h packetSize. do {
     (ssrcs, len) \<leftarrow> read_dwords io d packetSize (hc_count h) 4 [];
     if packetSize > len then do {
       n \<leftarrow> rd1 d len;
       let n = min (unat n) (packetSize - len - 1) in
       do {
         reason \<leftarrow> rdn d (len + 1) n;
         Some (Some (len + n + 1, \<lparr>by_ssrcs = ssrcs, by_reason = Some reason\<rparr>))
       }
     } else Some (Some (len, \<lparr>by_ssrcs = ssrcs, by_reason = None\<rparr>))
   })"

definition Bye_Serialize :: "medkit \<Rightarrow> nat \<Rightarrow> RTCPBye \<Rightarrow> byte list option" where
  "Bye_Serialize io room p =
    (if room < Bye_GetSize p then None
     else Some (write_header (length (by_ssrcs p)) 203 (Bye_GetSize p)
       @ concat (map (\<lambda>ssrc. set4 io (uint ssrc)) (by_ssrcs p))
       @ (case by_reason p of None \<Rightarrow> [] | Some r \<Rightarrow> of_nat (strlen r) # take (strlen r) r)))"

definition Jitter_GetSize :: "32 word list \<Rightarrow> nat" where
  "Jitter_GetSize jitters = 4 + 4 * length jitters"

definition Jitter_Parse :: "medkit \<Rightarrow> byte list \<Rightarrow> 32 word list parsed" where
  "Jitter_Parse io d = open_packet d 0 (\<lambda>h packetSize. do {
     (jitters, len) \<leftarrow> read_dwords io d packetSize (hc_count h) 4 [];
     Some (Some (len, jitters))
   })"

definition Jitter_Serialize :: "medkit \<Rightarrow> nat \<Rightarrow> 32 word list \<Rightarrow> byte list option" where
  "Jitter_Serialize io room jitters =
    (if room < Jitter_GetSize jitters then None
     else Some (write_header (length jitters) 195 (Jitter_GetSize jitters) @ concat (map (\<lambda>j. set4 io (uint j)) jitters)))"

definition App_GetSize :: "RTCPApp \<Rightarrow> nat" where
  "App_GetSize p = 4 + 8 + length (ap_data p)"

definition App_Parse :: "medkit \<Rightarrow> byte list \<Rightarrow> RTCPApp parsed" where
  "App_Parse io d = open_packet d 8 (\<lambda>h packetSize. do {
     ssrc \<leftarrow> rd4 io d 4;
     name \<leftarrow> rdn d 8 4;
     content \<leftarrow> rdn d 12 (packetSize - 12);
     Some (Some (packetSize, \<lparr>ap_subtype = hc_count h, ap_ssrc = ssrc, ap_name = name, ap_data = content\<rparr>))
   })"

definition App_Serialize :: "medkit \<Rightarrow> nat \<Rightarrow> RTCPApp \<Rightarrow> byte list option" where
  "App_Serialize io room p =
    (if room < App_GetSize p then None
     else Some (write_header (ap_subtype p) 204 (App_GetSize p) @ set4 io (uint (ap_ssrc p)) @ ap_name p @ ap_data p))"

definition RTPFeedback_GetSize :: "RTCPRTPFeedback \<Rightarrow> nat" where
  "RTPFeedback_GetSize p = 8 + 4 + sum_list (map RtpField_GetSize (rf_fields p))"

definition RTPFeedback_Parse :: "medkit \<Rightarrow> byte list \<Rightarrow> RTCPRTPFeedback parsed" where
  "RTPFeedback_Parse io d = open_packet d 8 (\<lambda>h packetSize. do {
     senderSSRC \<leftarrow> rd4 io d 4;
     mediaSSRC \<leftarrow> rd4 io d 8;
     r \<leftarrow> read_fields (RtpField_Parse io (hc_count h)) (take (packetSize - 12) (drop 12 d)) 12 [];
     Some (map_option (\<lambda>(len, fs). (len, \<lparr>rf_feedbackType = hc_count h, rf_senderSSRC = senderSSRC, rf_mediaSSRC = mediaSSRC, rf_fields = fs\<rparr>)) r)
   })"

definition RTPFeedback_Serialize :: "medkit \<Rightarrow> nat \<Rightarrow> RTCPRTPFeedback \<Rightarrow> byte list option" where
  "RTPFeedback_Serialize io room p =
    (if room < RTPFeedback_GetSize p then None
     else Some (write_fields (RtpField_Serialize io) room (rf_fields p)
       (write_header (rf_feedbackType p) 205 (RTPFeedback_GetSize p) @ set4 io (uint (rf_senderSSRC p)) @ set4 io (uint (rf_mediaSSRC p)))))"

definition PayloadFeedback_GetSize :: "medkit \<Rightarrow> RTCPPayloadFeedback \<Rightarrow> nat" where
  "PayloadFeedback_GetSize io p = 8 + 4 + sum_list (map (PayloadField_GetSize io) (pf_fields p))"

definition PayloadFeedback_Parse :: "medkit \<Rightarrow> byte list \<Rightarrow> RTCPPayloadFeedback parsed" where
  "PayloadFeedback_Parse io d = open_packet d 8 (\<lambda>h packetSize. do {
     senderSSRC \<leftarrow> rd4 io d 4;
     mediaSSRC \<leftarrow> rd4 io d 8;
     r \<leftarrow> read_fields (PayloadField_Parse io (hc_count h)) (take (packetSize - 12) (drop 12 d)) 12 [];
     Some (map_option (\<lambda>(len, fs). (len, \<lparr>pf_feedbackType = hc_count h, pf_senderSSRC = senderSSRC, pf_mediaSSRC = mediaSSRC, pf_fields = fs\<rparr>)) r)
   })"

definition PayloadFeedback_Serialize :: "medkit \<Rightarrow> nat \<Rightarrow> RTCPPayloadFeedback \<Rightarrow> byte list option" where
  "PayloadFeedback_Serialize io room p =
    (if room < PayloadFeedback_GetSize io p then None
     else Some (write_fields (PayloadField_Serialize io) room (pf_fields p)
       (write_header (pf_feedbackType p) 206 (PayloadFeedback_GetSize io p) @ set4 io (uint (pf_senderSSRC p)) @ set4 io (uint (pf_mediaSSRC p)))))"

definition FIR_Parse :: "medkit \<Rightarrow> byte list \<Rightarrow> 32 word parsed" where
  "FIR_Parse io d = open_packet d 4 (\<lambda>h packetSize. do {
     ssrc \<leftarrow> rd4 io d 4;
     Some (Some (8, ssrc))
   })"

definition FIR_Serialize :: "medkit \<Rightarrow> nat \<Rightarrow> 32 word \<Rightarrow> byte list option" where
  "FIR_Serialize io room ssrc = (if room < 8 then None else Some (write_header 0 192 8 @ set4 io (uint ssrc)))"

definition NACK_Parse :: "medkit \<Rightarrow> byte list \<Rightarrow> RTCPNACK parsed" where
  "NACK_Parse io d = open_packet d 8 (\<lambda>h packetSize. do {
     ssrc \<leftarrow> rd4 io d 4;
     fsn \<leftarrow> rd2 io d 8;
     blp \<leftarrow> rd2 io d 10;
     Some (Some (12, \<lparr>na_ssrc = ssrc, na_fsn = fsn, na_blp = blp\<rparr>))
   })"

definition NACK_Serialize :: "medkit \<Rightarrow> nat \<Rightarrow> RTCPNACK \<Rightarrow> byte list option" where
  "NACK_Serialize io room p =
    (if room < 12 then None
     else Some (write_header 0 193 12 @ set4 io (uint (na_ssrc p)) @ set2 io (uint (na_fsn p)) @ set2 io (uint (na_blp p))))"

section \<open>Source descriptions\<close>

text \<open>The constructor from a string keeps its length in a \<open>BYTE\<close>, and copies that many octets.\<close>

definition Item_new :: "byte \<Rightarrow> byte list \<Rightarrow> Item" where
  "Item_new t s = \<lparr>it_type = t, it_data = take (length s mod 256) s\<rparr>"

definition Description_GetSize :: "medkit \<Rightarrow> Description \<Rightarrow> nat" where
  "Description_GetSize io p = mk_pad32 io (4 + sum_list (map (\<lambda>i. length (it_data i) + 2) (ds_items p)) + 1)"

function read_items :: "byte list \<Rightarrow> nat \<Rightarrow> Item list \<Rightarrow> (Item list \<times> nat) option option" where
  "read_items d len is =
    (if length d > len + 2 then
       case rd1 d len of
         None \<Rightarrow> None
       | Some t \<Rightarrow>
           if t = 0 then Some (Some (is, len))
           else case rd1 d (len + 1) of
             None \<Rightarrow> None
           | Some n \<Rightarrow>
               if len + 2 + unat n > length d then Some None
               else case rdn d (len + 2) (unat n) of
                 None \<Rightarrow> None
               | Some x \<Rightarrow> read_items d (len + unat n + 2) (is @ [\<lparr>it_type = t, it_data = x\<rparr>])
     else Some (Some (is, len)))"
  by pat_completeness auto
termination
  by (relation "measure (\<lambda>(d, len, is). length d - len)") auto

declare read_items.simps [simp del]

definition Description_Parse :: "medkit \<Rightarrow> byte list \<Rightarrow> Description parsed" where
  "Description_Parse io d =
    (if length d < 4 then Some None
     else do {
       ssrc \<leftarrow> rd4 io d 0;
       r \<leftarrow> read_items d 4 [];
       Some (map_option (\<lambda>(is, len). (mk_pad32 io (len + 1), \<lparr>ds_ssrc = ssrc, ds_items = is\<rparr>)) r)
     })"

text \<open>An item as \<open>Serialize\<close> writes it.\<close>

definition item_octets :: "Item \<Rightarrow> byte list" where
  "item_octets i = it_type i # of_nat (length (it_data i)) # it_data i"

definition Description_Serialize :: "medkit \<Rightarrow> nat \<Rightarrow> Description \<Rightarrow> byte list option" where
  "Description_Serialize io room p =
    (if room < Description_GetSize io p then None
     else
       let out = set4 io (uint (ds_ssrc p)) @ concat (map item_octets (ds_items p)) @ [0] in
       Some (out @ replicate (mk_pad32 io (length out) - length out) 0))"

definition SDES_GetSize :: "medkit \<Rightarrow> Description list \<Rightarrow> nat" where
  "SDES_GetSize io ds = 4 + sum_list (map (Description_GetSize io) ds)"

fun read_descriptions :: "medkit \<Rightarrow> byte list \<Rightarrow> nat \<Rightarrow> nat \<Rightarrow> nat \<Rightarrow> Description list \<Rightarrow> Description list parsed" where
  "read_descriptions io d packetSize 0 len ds = Some (Some (len, ds))"
| "read_descriptions io d packetSize (Suc n) len ds =
    (if packetSize > len then
       (case Description_Parse io (take (packetSize - len) (drop len d)) of
          None \<Rightarrow> None
        | Some None \<Rightarrow> Some None
        | Some (Some (k, p)) \<Rightarrow> if k = 0 then Some None else read_descriptions io d packetSize n (len + k) (ds @ [p]))
     else Some (Some (len, ds)))"

definition SDES_Parse :: "medkit \<Rightarrow> byte list \<Rightarrow> Description list parsed" where
  "SDES_Parse io d = open_packet d 0 (\<lambda>h packetSize. read_descriptions io d packetSize (hc_count h) 4 [])"

definition SDES_Serialize :: "medkit \<Rightarrow> nat \<Rightarrow> Description list \<Rightarrow> byte list option" where
  "SDES_Serialize io room ds =
    (if room < SDES_GetSize io ds then None
     else Some (write_fields (Description_Serialize io) room ds (write_header (length ds) 202 (SDES_GetSize io ds))))"

section \<open>Compound packets\<close>

fun RTCPPacket_GetSize :: "medkit \<Rightarrow> RTCPPacket \<Rightarrow> nat" where
  "RTCPPacket_GetSize io (SenderReport p) = SenderReport_GetSize p"
| "RTCPPacket_GetSize io (ReceiverReport p) = ReceiverReport_GetSize p"
| "RTCPPacket_GetSize io (SDES p) = SDES_GetSize io p"
| "RTCPPacket_GetSize io (Bye p) = Bye_GetSize p"
| "RTCPPacket_GetSize io (App p) = App_GetSize p"
| "RTCPPacket_GetSize io (RTPFeedback p) = RTPFeedback_GetSize p"
| "RTCPPacket_GetSize io (PayloadFeedback p) = PayloadFeedback_GetSize io p"
| "RTCPPacket_GetSize io (FullIntraRequest p) = 8"
| "RTCPPacket_GetSize io (NACK p) = 12"
| "RTCPPacket_GetSize io (ExtendedJitterReport p) = Jitter_GetSize p"

fun RTCPPacket_Serialize :: "medkit \<Rightarrow> nat \<Rightarrow> RTCPPacket \<Rightarrow> byte list option" where
  "RTCPPacket_Serialize io room (SenderReport p) = SenderReport_Serialize io room p"
| "RTCPPacket_Serialize io room (ReceiverReport p) = ReceiverReport_Serialize io room p"
| "RTCPPacket_Serialize io room (SDES p) = SDES_Serialize io room p"
| "RTCPPacket_Serialize io room (Bye p) = Bye_Serialize io room p"
| "RTCPPacket_Serialize io room (App p) = App_Serialize io room p"
| "RTCPPacket_Serialize io room (RTPFeedback p) = RTPFeedback_Serialize io room p"
| "RTCPPacket_Serialize io room (PayloadFeedback p) = PayloadFeedback_Serialize io room p"
| "RTCPPacket_Serialize io room (FullIntraRequest p) = FIR_Serialize io room p"
| "RTCPPacket_Serialize io room (NACK p) = NACK_Serialize io room p"
| "RTCPPacket_Serialize io room (ExtendedJitterReport p) = Jitter_Serialize io room p"

text \<open>The switch on the type in \<open>RTCPCompoundPacket::Parse\<close>; an unknown type is skipped.\<close>

definition RTCPPacket_Parse :: "medkit \<Rightarrow> nat \<Rightarrow> byte list \<Rightarrow> RTCPPacket parsed" where
  "RTCPPacket_Parse io pt d =
    (if pt = 200 then map_option (map_option (map_prod id SenderReport)) (SenderReport_Parse io d)
     else if pt = 201 then map_option (map_option (map_prod id ReceiverReport)) (ReceiverReport_Parse io d)
     else if pt = 202 then map_option (map_option (map_prod id SDES)) (SDES_Parse io d)
     else if pt = 203 then map_option (map_option (map_prod id Bye)) (Bye_Parse io d)
     else if pt = 204 then map_option (map_option (map_prod id App)) (App_Parse io d)
     else if pt = 205 then map_option (map_option (map_prod id RTPFeedback)) (RTPFeedback_Parse io d)
     else if pt = 206 then map_option (map_option (map_prod id PayloadFeedback)) (PayloadFeedback_Parse io d)
     else if pt = 192 then map_option (map_option (map_prod id FullIntraRequest)) (FIR_Parse io d)
     else if pt = 193 then map_option (map_option (map_prod id NACK)) (NACK_Parse io d)
     else if pt = 195 then map_option (map_option (map_prod id ExtendedJitterReport)) (Jitter_Parse io d)
     else Some None)"

definition IsRTCP :: "byte list \<Rightarrow> bool option" where
  "IsRTCP d =
    (if length d < 4 then Some False
     else do {
       h \<leftarrow> read_header d;
       Some (hc_version h = 2 \<and> 200 \<le> hc_pt h \<and> hc_pt h \<le> 206)
     })"

function parse_packets :: "medkit \<Rightarrow> byte list \<Rightarrow> RTCPPacket list \<Rightarrow> RTCPPacket list option option" where
  "parse_packets io d ps =
    (if d = [] then Some (Some ps)
     else if length d < 4 then Some None
     else case read_header d of
       None \<Rightarrow> None
     | Some h \<Rightarrow>
         if GetRTCPHeaderLength h > length d then Some None
         else case RTCPPacket_Parse io (hc_pt h) (take (GetRTCPHeaderLength h) d) of
           None \<Rightarrow> None
         | Some r \<Rightarrow> parse_packets io (drop (GetRTCPHeaderLength h) d)
             (case r of Some (n, p) \<Rightarrow> if n \<noteq> 0 then ps @ [p] else ps | None \<Rightarrow> ps))"
  by pat_completeness auto
termination
  by (relation "measure (\<lambda>(io, d, ps). length d)") (auto simp: GetRTCPHeaderLength_def)

declare parse_packets.simps [simp del]

definition Compound_Parse :: "medkit \<Rightarrow> byte list \<Rightarrow> RTCPPacket list option option" where
  "Compound_Parse io d = do {
     rtcp \<leftarrow> IsRTCP d;
     if \<not> rtcp then Some None else parse_packets io d []
   }"

definition Compound_GetSize :: "medkit \<Rightarrow> RTCPPacket list \<Rightarrow> nat" where
  "Compound_GetSize io ps = sum_list (map (RTCPPacket_GetSize io) ps)"

definition Compound_Serialize :: "medkit \<Rightarrow> nat \<Rightarrow> RTCPPacket list \<Rightarrow> byte list" where
  "Compound_Serialize io room ps =
    (if room < Compound_GetSize io ps then [] else write_fields (RTCPPacket_Serialize io) room ps [])"

section \<open>No parser leaves the datagram\<close>

lemma read_header_inside: "4 \<le> length d \<Longrightarrow> \<exists>h. read_header d = Some h"
  by (auto simp: read_header_def rd1_def)

lemma open_packet_inside:
  assumes "\<And>h. read_header d = Some h \<Longrightarrow> 4 + body \<le> GetRTCPHeaderLength h \<Longrightarrow> GetRTCPHeaderLength h \<le> length d
    \<Longrightarrow> k h (GetRTCPHeaderLength h) \<noteq> None"
  shows "open_packet d body k \<noteq> None"
proof (cases "length d < 4")
  case False
  then obtain h where h: "read_header d = Some h" using read_header_inside [of d] by auto
  with assms [OF h] False show ?thesis
    by (simp only: open_packet_def if_False bind.bind_lunit) (simp split: if_splits)
qed (simp add: open_packet_def)

lemma bind_inside: "m \<noteq> None \<Longrightarrow> (\<And>x. m = Some x \<Longrightarrow> f x \<noteq> None) \<Longrightarrow> Option.bind m f \<noteq> None"
  by (cases m) simp_all

lemma rd_not_None:
  "i < length d \<Longrightarrow> rd1 d i \<noteq> None" "i + 2 \<le> length d \<Longrightarrow> rd2 io d i \<noteq> None" "i + 4 \<le> length d \<Longrightarrow> rd4 io d i \<noteq> None"
  "i + n \<le> length d \<Longrightarrow> rdn d i n \<noteq> None"
  by simp_all

lemma read_reports_inside: "packetSize \<le> length d \<Longrightarrow> read_reports d packetSize n len rs \<noteq> None"
  by (induction n arbitrary: len rs) (auto simp: Report_Parse_def)

lemma read_dwords_inside: "packetSize \<le> length d \<Longrightarrow> read_dwords io d packetSize n len ws \<noteq> None"
  by (induction n arbitrary: len ws) simp_all

lemma read_items_inside: "read_items d len is \<noteq> None"
proof (induction d len "is" rule: read_items.induct)
  case (1 d len "is")
  then show ?case by (subst read_items.simps) auto
qed

lemma Description_inside: "Description_Parse io d \<noteq> None"
  using read_items_inside [of d 4 "[]"] by (auto simp: Description_Parse_def)

lemma read_descriptions_inside: "read_descriptions io d packetSize n len ds \<noteq> None"
proof (induction n arbitrary: len ds)
  case (Suc n)
  show ?case
    using Suc.IH Description_inside [of io "take (packetSize - len) (drop len d)"] by (auto split: option.split)
qed simp

lemmas reads_inside = open_packet_inside bind_inside rd_not_None read_reports_inside read_dwords_inside read_descriptions_inside

lemma Bye_inside: "Bye_Parse io d \<noteq> None"
  unfolding Bye_Parse_def Let_def
  by (intro reads_inside) (auto intro!: bind_inside rd_not_None)

context medkit_words
begin

lemma packet_inside:
  shows "SenderReport_Parse io d \<noteq> None" and "ReceiverReport_Parse io d \<noteq> None" and "Jitter_Parse io d \<noteq> None" and "App_Parse io d \<noteq> None"
    and "RTPFeedback_Parse io d \<noteq> None" and "PayloadFeedback_Parse io d \<noteq> None" and "FIR_Parse io d \<noteq> None" and "NACK_Parse io d \<noteq> None"
    and "SDES_Parse io d \<noteq> None"
  unfolding SenderReport_Parse_def ReceiverReport_Parse_def Jitter_Parse_def App_Parse_def RTPFeedback_Parse_def PayloadFeedback_Parse_def
    FIR_Parse_def NACK_Parse_def SDES_Parse_def
  by (intro reads_inside rtpField.read_fields_inside payloadField.read_fields_inside; auto)+

lemma RTCPPacket_inside: "RTCPPacket_Parse io pt d \<noteq> None"
  using packet_inside [of d] Bye_inside [of io d] by (simp add: RTCPPacket_Parse_def)

lemma parse_packets_inside: "parse_packets io d ps \<noteq> None"
proof (induction "length d" arbitrary: d ps rule: less_induct)
  case less
  show ?case
  proof (cases "length d < 4")
    case True
    then show ?thesis by (subst parse_packets.simps) simp
  next
    case False
    then obtain h where h: "read_header d = Some h" using read_header_inside [of d] by auto
    obtain r where r: "RTCPPacket_Parse io (hc_pt h) (take (GetRTCPHeaderLength h) d) = Some r"
      using RTCPPacket_inside by fastforce
    have "length (drop (GetRTCPHeaderLength h) d) < length d" using False by (simp add: GetRTCPHeaderLength_def)
    from less [OF this] show ?thesis
      by (subst parse_packets.simps) (simp add: h r)
  qed
qed

end



section \<open>No serializer leaves its buffer\<close>

definition reports_wf :: "RTCPReport list \<Rightarrow> bool" where
  "reports_wf rs \<longleftrightarrow> (\<forall>r \<in> set rs. length (rr_buffer r) = 24)"

text \<open>The buffer of a report is an array of 24 octets, the name in an \<open>RTCPApp\<close> one of four, and a size is a \<open>BYTE\<close>.\<close>

definition arrays_wf :: "RTCPPacket \<Rightarrow> bool" where
  "arrays_wf p = (case p of
     SenderReport p \<Rightarrow> reports_wf (sr_reports p)
   | ReceiverReport p \<Rightarrow> reports_wf (rc_reports p)
   | App p \<Rightarrow> length (ap_name p) = 4
   | _ \<Rightarrow> True)"

context medkit_words
begin

lemma Report_room: "length (rr_buffer r) = 24 \<Longrightarrow> Report_Serialize room r = Some d \<Longrightarrow> length d \<le> room"
  by (auto simp: Report_Serialize_def split: if_splits)

lemma items_length:
  "length (concat (map item_octets is)) = sum_list (map (\<lambda>i. length (it_data i) + 2) is)"
  by (induction "is") (simp_all add: item_octets_def)

lemma Description_length:
  assumes "Description_Serialize io room p = Some d"
  shows "length d = Description_GetSize io p \<and> length d \<le> room"
proof -
  define out where "out = set4 io (uint (ds_ssrc p)) @ concat (map item_octets (ds_items p)) @ [0]"
  have "Description_GetSize io p = mk_pad32 io (length out)" by (simp add: Description_GetSize_def out_def items_length)
  with assms pad32_ge [of "length out"] show ?thesis
    by (auto simp: Description_Serialize_def Let_def simp flip: out_def split: if_splits)
qed

lemma header_length [simp]: "length (write_header count pt n) = 4"
  by (simp add: write_header_def)

lemma dwords_length [simp]: "length (concat (map (\<lambda>w. set4 io (uint w)) ws)) = 4 * length ws"
  by (induction ws) simp_all

lemma strlen_le: "strlen r \<le> length r"
  by (simp add: strlen_def length_takeWhile_le)

lemma RTCPPacket_room:
  assumes "arrays_wf p" and "RTCPPacket_Serialize io room p = Some d"
  shows "length d \<le> room"
proof (cases p)
  case (SenderReport q)
  have "r \<in> set (take n (sr_reports q)) \<Longrightarrow> length (rr_buffer r) = 24" for r n
    using assms(1) SenderReport by (auto simp: arrays_wf_def reports_wf_def dest: in_set_takeD)
  with SenderReport assms(2) show ?thesis
    by (auto simp: SenderReport_Serialize_def SenderReport_GetSize_def split: if_splits intro!: write_fields_length dest: Report_room)
next
  case (ReceiverReport q)
  have "r \<in> set (take n (rc_reports q)) \<Longrightarrow> length (rr_buffer r) = 24" for r n
    using assms(1) ReceiverReport by (auto simp: arrays_wf_def reports_wf_def dest: in_set_takeD)
  with ReceiverReport assms(2) show ?thesis
    by (auto simp: ReceiverReport_Serialize_def ReceiverReport_GetSize_def split: if_splits intro!: write_fields_length dest: Report_room)
next
  case (Bye q)
  with assms(2) strlen_le show ?thesis
    by (auto simp: Bye_Serialize_def Bye_GetSize_def split: if_splits option.splits)
qed (use assms in \<open>auto simp: arrays_wf_def SDES_Serialize_def SDES_GetSize_def App_Serialize_def App_GetSize_def RTPFeedback_Serialize_def
    RTPFeedback_GetSize_def PayloadFeedback_Serialize_def PayloadFeedback_GetSize_def FIR_Serialize_def NACK_Serialize_def Jitter_Serialize_def
    Jitter_GetSize_def split: if_splits intro!: write_fields_length dest: Description_length RtpField_room PayloadField_room\<close>)

end

text \<open>
  C36. No RTCP packet is written beyond the end of its buffer: whatever is in the packets, reports without number,
  reasons, payloads of any length, \<open>Serialize\<close> of a compound packet writes at most \<open>size\<close> octets.
\<close>

theorem rtcp_serialize_inside:
  assumes "medkit_words io" and "list_all arrays_wf ps"
  shows "length (Compound_Serialize io room ps) \<le> room"
  using assms medkit_words.RTCPPacket_room [OF assms(1)]
  by (auto simp: Compound_Serialize_def list_all_iff intro!: write_fields_length)

theorem rtcp_serialize_inside_witness:
  "length (Compound_Serialize network_order 20 [Bye \<lparr>by_ssrcs = [7, 8], by_reason = Some (str ''bye'')\<rparr>]) \<le> 20"
  using rtcp_serialize_inside [OF netd.medkit_words_axioms, of "[Bye \<lparr>by_ssrcs = [7, 8], by_reason = Some (str ''bye'')\<rparr>]" 20]
  by (simp add: arrays_wf_def)

section \<open>What is written is read\<close>

lemma unat_byte: "unat (of_nat n :: byte) = n mod 256"
  by (simp add: unat_of_nat)

lemma header_octet:
  assumes "count < 32"
  shows "unat ((0x80 OR of_nat count) AND 0x1F :: byte) = count" and "drop_bit 6 (of_nat count :: byte) = 0"
proof -
  have u: "unat (of_nat count :: byte) = count" using assms by (simp add: unat_byte)
  then have b: "5 \<le> n \<Longrightarrow> \<not> bit (of_nat count :: byte) n" for n
    using word_bit_bound [of "of_nat count :: byte" 5 n] assms by auto
  have "(0x80 OR of_nat count) AND 0x1F = (of_nat count :: byte)"
    by (rule byte_eqI) (simp_all add: bit_or_iff bit_and_iff b)
  with u show "unat ((0x80 OR of_nat count) AND 0x1F :: byte) = count" by simp
  show "drop_bit 6 (of_nat count :: byte) = 0"
    by (rule byte_eqI) (simp_all add: bit_drop_bit_eq b)
qed

definition header_of :: "nat \<Rightarrow> nat \<Rightarrow> nat \<Rightarrow> rtcp_common_t" where
  "header_of count pt n = \<lparr>hc_count = count, hc_version = 2, hc_pt = pt, hc_length = n div 4 - 1\<rparr>"

lemma header_of_simps [simp]: "hc_count (header_of count pt n) = count" "hc_version (header_of count pt n) = 2" "hc_pt (header_of count pt n) = pt"
  by (simp_all add: header_of_def)

lemma read_written_header:
  assumes "count < 32" and "pt < 256" and "n mod 4 = 0" and "4 \<le> n" and "n \<le> 262144"
  shows "read_header (write_header count pt n @ rest) = Some (header_of count pt n)" and "GetRTCPHeaderLength (header_of count pt n) = n"
proof -
  have "n div 4 - 1 < 65536" using assms(5) by linarith
  then have "(n div 4 - 1) div 256 mod 256 * 256 + (n div 4 - 1) mod 256 = n div 4 - 1"
    by (simp add: less_mult_imp_div_less)
  then show "read_header (write_header count pt n @ rest) = Some (header_of count pt n)"
    using assms(1,2) by (simp add: read_header_def write_header_def header_octet unat_byte header_of_def)
  show "GetRTCPHeaderLength (header_of count pt n) = n"
    using assms(3,4) by (simp add: GetRTCPHeaderLength_def header_of_def) presburger
qed

lemma open_written:
  assumes "count < 32" and "pt < 256" and "n mod 4 = 0" and "n \<le> 262144" and "4 + body \<le> n" and "n = 4 + length rest"
  shows "open_packet (write_header count pt n @ rest) body k = k (header_of count pt n) n"
proof -
  have "4 \<le> n" using assms(5) by simp
  note h = read_written_header [OF assms(1,2,3) this assms(4)]
  have "length (write_header count pt n @ rest) = n" using assms(6) by (simp add: write_header_def)
  with assms(5) show ?thesis by (simp add: open_packet_def h)
qed

lemma skip_word:
  assumes "length xs = 4" and "4 \<le> i"
  shows "rd1 (xs @ d) i = rd1 d (i - 4)" and "rd2 io (xs @ d) i = rd2 io d (i - 4)" and "rd4 io (xs @ d) i = rd4 io d (i - 4)"
    and "rdn (xs @ d) i n = rdn d (i - 4) n"
  using assms get_shift [of io xs d "i - 4"] by (auto simp: rd1_def rd2_def rd4_def rdn_def nth_append)

lemma write_all:
  assumes "\<And>room f. f \<in> set fs \<Longrightarrow> n f \<le> room \<Longrightarrow> ser room f = Some (enc f)" and "\<And>f. f \<in> set fs \<Longrightarrow> length (enc f) = n f"
    and "length out + sum_list (map n fs) \<le> room"
  shows "write_fields ser room fs out = out @ concat (map enc fs)"
  using assms
proof (induction fs arbitrary: out)
  case (Cons f fs)
  have "ser (room - length out) f = Some (enc f)" using Cons.prems by (intro Cons.prems(1)) (simp_all add: le_diff_conv2)
  moreover have "write_fields ser room fs (out @ enc f) = (out @ enc f) @ concat (map enc fs)"
    by (rule Cons.IH) (use Cons.prems in auto)
  ultimately show ?case by (simp add: write_fields_def)
qed (simp add: write_fields_def)

lemma read_written_reports:
  assumes "reports_wf rs" and "length pre + 24 * length rs \<le> packetSize"
  shows "read_reports (pre @ concat (map rr_buffer rs) @ rest) packetSize (length rs) (length pre) acc = Some (acc @ rs, length pre + 24 * length rs)"
  using assms
proof (induction rs arbitrary: pre acc)
  case (Cons r rs)
  have e: "\<lparr>rr_buffer = rr_buffer r\<rparr> = r" by (cases r) simp
  have r: "length (rr_buffer r) = 24" "reports_wf rs" using Cons.prems(1) by (auto simp: reports_wf_def)
  from Cons.IH [OF r(2), of "pre @ rr_buffer r" "acc @ [r]"] Cons.prems(2) r show ?case
    by (simp add: Report_Parse_def e add.assoc)
qed simp

context medkit_words
begin

lemma rd4_here [simp]: "rd4 io (set4 io (uint w) @ rest) 0 = Some w" "rd4 io (set4 io (uint w)) 0 = Some w"
  using get4_dword [of w rest] get4_dword [of w "[]"] by (simp_all add: rd4_def)

lemma rd2_here [simp]: "rd2 io (set2 io (uint w) @ rest) 0 = Some w"
  using get2_word [of w rest] by (simp add: rd2_def)

lemma rd2_next [simp]: "rd2 io (set2 io v @ set2 io (uint w)) 2 = Some w"
  using get2_word [of w "[]"] get2_second [of v "set2 io (uint w)"] by (simp add: rd2_def)

lemma read_written_dwords:
  assumes "length pre + 4 * length ws \<le> packetSize"
  shows "read_dwords io (pre @ concat (map (\<lambda>w. set4 io (uint w)) ws) @ rest) packetSize (length ws) (length pre) acc
    = Some (acc @ ws, length pre + 4 * length ws)"
  using assms
proof (induction ws arbitrary: pre acc)
  case (Cons w ws)
  have "rd4 io (pre @ set4 io (uint w) @ d) (length pre) = Some w" for d
    using get_shift(2) [of io pre "set4 io (uint w) @ d" 0] get4_dword [of w d] by (simp add: rd4_def)
  with Cons.IH [of "pre @ set4 io (uint w)" "acc @ [w]"] Cons.prems show ?case by simp
qed simp

end

text \<open>Items whose type is not the end mark, with at most 255 octets.\<close>

definition description_ok :: "Description \<Rightarrow> bool" where
  "description_ok p \<longleftrightarrow> (\<forall>i \<in> set (ds_items p). it_type i \<noteq> 0 \<and> length (it_data i) < 256)"

lemma read_written_items:
  assumes "\<forall>i \<in> set is. it_type i \<noteq> 0 \<and> length (it_data i) < 256"
  shows "read_items (pre @ concat (map item_octets is) @ 0 # rest) (length pre) acc
    = Some (Some (acc @ is, length pre + length (concat (map item_octets is))))"
  using assms
proof (induction "is" arbitrary: pre acc)
  case Nil
  show ?case by (subst read_items.simps) (auto simp: rd1_def nth_append)
next
  case (Cons i "is")
  have i: "it_type i \<noteq> 0" "unat (of_nat (length (it_data i)) :: byte) = length (it_data i)"
    using Cons.prems by (simp_all add: unat_byte)
  have e: "\<lparr>it_type = it_type i, it_data = it_data i\<rparr> = i" by (cases i) simp
  have "read_items (pre @ concat (map item_octets (i # is)) @ 0 # rest) (length pre) acc
    = read_items ((pre @ item_octets i) @ concat (map item_octets is) @ 0 # rest) (length (pre @ item_octets i)) (acc @ [i])"
    by (subst read_items.simps) (simp add: item_octets_def rd1_def rdn_def nth_append i e)
  also have "\<dots> = Some (Some ((acc @ [i]) @ is, length (pre @ item_octets i) + length (concat (map item_octets is))))"
    by (rule Cons.IH) (use Cons.prems in simp)
  finally show ?case by simp
qed

definition description_octets :: "medkit \<Rightarrow> Description \<Rightarrow> byte list" where
  "description_octets io p =
    (let out = set4 io (uint (ds_ssrc p)) @ concat (map item_octets (ds_items p)) @ [0] in
     out @ replicate (mk_pad32 io (length out) - length out) 0)"

context medkit_words
begin

lemma description_octets_length: "length (description_octets io p) = Description_GetSize io p"
proof -
  define out where "out = set4 io (uint (ds_ssrc p)) @ concat (map item_octets (ds_items p)) @ [0]"
  have "length out = 4 + sum_list (map (\<lambda>i. length (it_data i) + 2) (ds_items p)) + 1"
    by (simp add: out_def items_length)
  with pad32_ge [of "length out"] show ?thesis
    by (simp add: description_octets_def Description_GetSize_def Let_def del: length_append flip: out_def) simp
qed

lemma Description_Serialize_octets:
  "Description_GetSize io p \<le> room \<Longrightarrow> Description_Serialize io room p = Some (description_octets io p)"
  by (simp add: Description_Serialize_def description_octets_def)

lemma Description_roundtrip:
  assumes "description_ok p"
  shows "Description_Parse io (description_octets io p @ rest) = Some (Some (Description_GetSize io p, p))"
proof -
  define z where "z = replicate (Description_GetSize io p - (4 + sum_list (map (\<lambda>i. length (it_data i) + 2) (ds_items p)) + 1)) (0 :: byte)"
  have d: "description_octets io p @ rest = set4 io (uint (ds_ssrc p)) @ concat (map item_octets (ds_items p)) @ 0 # z @ rest"
    by (simp add: description_octets_def Let_def z_def Description_GetSize_def items_length)
  have "read_items (description_octets io p @ rest) 4 [] = Some (Some (ds_items p, 4 + length (concat (map item_octets (ds_items p)))))"
    unfolding d using read_written_items [of "ds_items p" "set4 io (uint (ds_ssrc p))" "z @ rest" "[]"] assms
    by (simp add: description_ok_def)
  moreover have "\<lparr>ds_ssrc = ds_ssrc p, ds_items = ds_items p\<rparr> = p" by (cases p) simp
  moreover have "rd4 io (description_octets io p @ rest) 0 = Some (ds_ssrc p)" unfolding d by simp
  moreover have "\<not> length (description_octets io p @ rest) < 4" unfolding d by simp
  ultimately show ?thesis
    by (simp add: Description_Parse_def Description_GetSize_def items_length)
qed

lemma Description_GetSize_pos: "0 < Description_GetSize io p"
  using pad32_ge [of "4 + sum_list (map (\<lambda>i. length (it_data i) + 2) (ds_items p)) + 1"] by (simp add: Description_GetSize_def)

lemma read_written_descriptions:
  assumes "list_all description_ok ds" and "packetSize = length pre + sum_list (map (Description_GetSize io) ds)"
  shows "read_descriptions io (pre @ concat (map (description_octets io) ds)) packetSize (length ds) (length pre) acc
    = Some (Some (packetSize, acc @ ds))"
  using assms
proof (induction ds arbitrary: pre acc)
  case (Cons p ds)
  have "packetSize > length pre" using Cons.prems(2) Description_GetSize_pos [of p] by simp
  moreover have "length (concat (map (description_octets io) (p # ds))) = packetSize - length pre"
    using Cons.prems(2) by (simp add: length_concat comp_def description_octets_length)
  moreover have "read_descriptions io ((pre @ description_octets io p) @ concat (map (description_octets io) ds)) packetSize (length ds)
      (length (pre @ description_octets io p)) (acc @ [p]) = Some (Some (packetSize, (acc @ [p]) @ ds))"
    by (rule Cons.IH) (use Cons.prems in \<open>simp_all add: description_octets_length\<close>)
  ultimately show ?case
    using Cons.prems(1) Description_GetSize_pos [of p] Description_roundtrip [of p "concat (map (description_octets io) ds)"]
    by (simp add: description_octets_length)
qed simp

end

text \<open>
  Packets that fit the format: the counts have five bits, the length counts words in sixteen bits, and the size \<open>GetSize\<close>
  announces is a whole number of words. The last is no matter of course, \<open>GetSize\<close> rounds up neither the reason of a
  \<open>Bye\<close> nor the payload of a \<open>VideoBackChannelMessageField\<close>.
\<close>

definition packet_ok :: "medkit \<Rightarrow> RTCPPacket \<Rightarrow> bool" where
  "packet_ok io p \<longleftrightarrow> RTCPPacket_GetSize io p mod 4 = 0 \<and> RTCPPacket_GetSize io p \<le> 262144 \<and> (case p of
     SenderReport p \<Rightarrow> length (sr_reports p) < 32 \<and> reports_wf (sr_reports p)
   | ReceiverReport p \<Rightarrow> length (rc_reports p) < 32 \<and> reports_wf (rc_reports p)
   | SDES ds \<Rightarrow> length ds < 32 \<and> list_all description_ok ds
   | Bye p \<Rightarrow> length (by_ssrcs p) < 32 \<and> (case by_reason p of None \<Rightarrow> True | Some r \<Rightarrow> 0 \<notin> set r \<and> length r < 256)
   | App p \<Rightarrow> ap_subtype p < 32 \<and> length (ap_name p) = 4
   | RTPFeedback p \<Rightarrow> rf_feedbackType p < 32 \<and> fields_ok (RtpField_ok (rf_feedbackType p)) RtpField_greedy (rf_fields p)
   | PayloadFeedback p \<Rightarrow> pf_feedbackType p < 32 \<and> fields_ok (PayloadField_ok (pf_feedbackType p)) PayloadField_greedy (pf_fields p)
   | FullIntraRequest _ \<Rightarrow> True
   | NACK _ \<Rightarrow> True
   | ExtendedJitterReport js \<Rightarrow> length js < 32)"

definition packet_readback :: "RTCPPacket \<Rightarrow> RTCPPacket" where
  "packet_readback p = (case p of
     RTPFeedback p \<Rightarrow> RTPFeedback (p\<lparr>rf_fields := map RtpField_readback (rf_fields p)\<rparr>)
   | PayloadFeedback p \<Rightarrow> PayloadFeedback (p\<lparr>pf_fields := map PayloadField_readback (pf_fields p)\<rparr>)
   | _ \<Rightarrow> p)"

definition round_trips :: "medkit \<Rightarrow> nat \<Rightarrow> RTCPPacket \<Rightarrow> bool" where
  "round_trips io room p \<longleftrightarrow> (\<exists>count body. count < 32 \<and> 4 + length body = RTCPPacket_GetSize io p
     \<and> RTCPPacket_Serialize io room p = Some (write_header count (GetType p) (RTCPPacket_GetSize io p) @ body)
     \<and> RTCPPacket_Parse io (GetType p) (write_header count (GetType p) (RTCPPacket_GetSize io p) @ body)
       = Some (Some (RTCPPacket_GetSize io p, packet_readback p)))"

lemma Report_written: "24 \<le> room \<Longrightarrow> Report_Serialize room r = Some (rr_buffer r)"
  by (simp add: Report_Serialize_def)

lemma reports_written:
  assumes "reports_wf rs" and "length out + 24 * length rs \<le> room"
  shows "write_fields Report_Serialize room rs out = out @ concat (map rr_buffer rs)"
  by (rule write_all [where n = "\<lambda>_. 24"]) (use assms in \<open>auto simp: Report_Serialize_def reports_wf_def sum_list_triv\<close>)

lemma reports_length: "reports_wf rs \<Longrightarrow> length (concat (map rr_buffer rs)) = 24 * length rs"
  by (induction rs) (simp_all add: reports_wf_def)

context medkit_words
begin

lemma SenderReport_roundtrip:
  assumes "packet_ok io (SenderReport p)" and "SenderReport_GetSize p \<le> room"
  shows "round_trips io room (SenderReport p)"
proof -
  let ?n = "SenderReport_GetSize p"
  define w where "w = set4 io (uint (sr_ssrc p)) @ set4 io (uint (sr_ntpSec p)) @ set4 io (uint (sr_ntpFrac p))
    @ set4 io (uint (sr_rtpTimestamp p)) @ set4 io (uint (sr_packetsSent p)) @ set4 io (uint (sr_octectsSent p))"
  define h where "h = write_header (length (sr_reports p)) 200 ?n"
  define body where "body = w @ concat (map rr_buffer (sr_reports p))"
  have ok: "length (sr_reports p) < 32" "reports_wf (sr_reports p)" "?n mod 4 = 0" "?n \<le> 262144"
    using assms(1) by (auto simp: packet_ok_def)
  have l: "length w = 24" "length h = 4" by (simp_all add: w_def h_def)
  have n: "4 + length body = ?n" by (simp add: body_def l reports_length [OF ok(2)] SenderReport_GetSize_def)
  have "length (h @ w) + 24 * length (sr_reports p) \<le> room" using assms(2) l by (simp add: SenderReport_GetSize_def)
  from reports_written [OF ok(2) this] have "SenderReport_Serialize io room p = Some (h @ body)"
    using assms(2) ok(1) by (simp add: SenderReport_Serialize_def body_def flip: h_def w_def)
  moreover have "SenderReport_Parse io (h @ body) = Some (Some (?n, p))"
  proof -
    have o: "open_packet (h @ body) 24 k = k (header_of (length (sr_reports p)) 200 ?n) ?n" for k :: "_ \<Rightarrow> _ \<Rightarrow> (nat \<times> RTCPSenderReport) option option"
      unfolding h_def by (rule open_written) (use ok n in \<open>auto simp: SenderReport_GetSize_def\<close>)
    have r: "read_reports (h @ body) ?n (length (sr_reports p)) 28 [] = Some (sr_reports p, ?n)"
      using read_written_reports [OF ok(2), of "h @ w" ?n "[]" "[]"] l by (simp add: body_def SenderReport_GetSize_def)
    have "rd4 io (h @ body) 4 = Some (sr_ssrc p)" "rd4 io (h @ body) 8 = Some (sr_ntpSec p)" "rd4 io (h @ body) 12 = Some (sr_ntpFrac p)"
      "rd4 io (h @ body) 16 = Some (sr_rtpTimestamp p)" "rd4 io (h @ body) 20 = Some (sr_packetsSent p)" "rd4 io (h @ body) 24 = Some (sr_octectsSent p)"
      by (simp_all add: body_def w_def skip_word l(2) del: rd_inside)
    with o r show ?thesis by (simp add: SenderReport_Parse_def)
  qed
  ultimately show ?thesis
    using n ok(1) unfolding round_trips_def
    by (intro exI [of _ "length (sr_reports p)"] exI [of _ body]) (simp add: RTCPPacket_Parse_def packet_readback_def h_def)
qed

lemma ReceiverReport_roundtrip:
  assumes "packet_ok io (ReceiverReport p)" and "ReceiverReport_GetSize p \<le> room"
  shows "round_trips io room (ReceiverReport p)"
proof -
  let ?n = "ReceiverReport_GetSize p"
  define w where "w = set4 io (uint (rc_ssrc p))"
  define h where "h = write_header (length (rc_reports p)) 201 ?n"
  define body where "body = w @ concat (map rr_buffer (rc_reports p))"
  have ok: "length (rc_reports p) < 32" "reports_wf (rc_reports p)" "?n mod 4 = 0" "?n \<le> 262144"
    using assms(1) by (auto simp: packet_ok_def)
  have l: "length w = 4" "length h = 4" by (simp_all add: w_def h_def)
  have n: "4 + length body = ?n" by (simp add: body_def l reports_length [OF ok(2)] ReceiverReport_GetSize_def)
  have "length (h @ w) + 24 * length (rc_reports p) \<le> room" using assms(2) l by (simp add: ReceiverReport_GetSize_def)
  from reports_written [OF ok(2) this] have "ReceiverReport_Serialize io room p = Some (h @ body)"
    using assms(2) ok(1) by (simp add: ReceiverReport_Serialize_def body_def flip: h_def w_def)
  moreover have "ReceiverReport_Parse io (h @ body) = Some (Some (?n, p))"
  proof -
    have o: "open_packet (h @ body) 4 k = k (header_of (length (rc_reports p)) 201 ?n) ?n" for k :: "_ \<Rightarrow> _ \<Rightarrow> (nat \<times> RTCPReceiverReport) option option"
      unfolding h_def by (rule open_written) (use ok n in \<open>auto simp: ReceiverReport_GetSize_def\<close>)
    have "read_reports (h @ body) ?n (length (rc_reports p)) 8 [] = Some (rc_reports p, ?n)"
      using read_written_reports [OF ok(2), of "h @ w" ?n "[]" "[]"] l by (simp add: body_def ReceiverReport_GetSize_def)
    moreover have "rd4 io (h @ body) 4 = Some (rc_ssrc p)"
      by (simp add: body_def w_def skip_word l(2) del: rd_inside)
    ultimately show ?thesis using o by (simp add: ReceiverReport_Parse_def)
  qed
  ultimately show ?thesis
    using n ok(1) unfolding round_trips_def
    by (intro exI [of _ "length (rc_reports p)"] exI [of _ body]) (simp add: RTCPPacket_Parse_def packet_readback_def h_def)
qed

lemma SDES_roundtrip:
  assumes "packet_ok io (SDES ds)" and "SDES_GetSize io ds \<le> room"
  shows "round_trips io room (SDES ds)"
proof -
  let ?n = "SDES_GetSize io ds"
  define h where "h = write_header (length ds) 202 ?n"
  define body where "body = concat (map (description_octets io) ds)"
  have ok: "length ds < 32" "list_all description_ok ds" "?n mod 4 = 0" "?n \<le> 262144"
    using assms(1) by (auto simp: packet_ok_def)
  have l: "length h = 4" by (simp add: h_def)
  have n: "4 + length body = ?n" by (simp add: body_def SDES_GetSize_def length_concat comp_def description_octets_length)
  have "write_fields (Description_Serialize io) room ds h = h @ body"
    unfolding body_def
    by (rule write_all [where n = "Description_GetSize io"])
      (use assms(2) l in \<open>auto simp: Description_Serialize_octets description_octets_length SDES_GetSize_def\<close>)
  then have "SDES_Serialize io room ds = Some (h @ body)"
    using assms(2) by (simp add: SDES_Serialize_def flip: h_def)
  moreover have "SDES_Parse io (h @ body) = Some (Some (?n, ds))"
  proof -
    have o: "open_packet (h @ body) 0 k = k (header_of (length ds) 202 ?n) ?n" for k :: "_ \<Rightarrow> _ \<Rightarrow> (nat \<times> Description list) option option"
      unfolding h_def by (rule open_written) (use ok n in \<open>auto simp: SDES_GetSize_def\<close>)
    have "?n = length h + sum_list (map (Description_GetSize io) ds)" by (simp add: l SDES_GetSize_def)
    from read_written_descriptions [OF ok(2) this, of "[]"] show ?thesis
      by (simp add: SDES_Parse_def o l flip: body_def)
  qed
  ultimately show ?thesis
    using n ok(1) unfolding round_trips_def
    by (intro exI [of _ "length ds"] exI [of _ body]) (simp add: RTCPPacket_Parse_def packet_readback_def h_def)
qed

lemma strlen_all: "0 \<notin> set r \<Longrightarrow> strlen r = length r"
  unfolding strlen_def by (subst takeWhile_eq_all_conv [THEN iffD2]) auto

lemma Bye_roundtrip:
  assumes "packet_ok io (Bye p)" and "Bye_GetSize p \<le> room"
  shows "round_trips io room (Bye p)"
proof -
  let ?n = "Bye_GetSize p"
  define h where "h = write_header (length (by_ssrcs p)) 203 ?n"
  define w where "w = concat (map (\<lambda>ssrc. set4 io (uint ssrc)) (by_ssrcs p))"
  define t where "t = (case by_reason p of None \<Rightarrow> [] | Some r \<Rightarrow> of_nat (strlen r) # take (strlen r) r)"
  have ok: "length (by_ssrcs p) < 32" "?n mod 4 = 0" "?n \<le> 262144"
    and r: "by_reason p = Some r \<Longrightarrow> 0 \<notin> set r \<and> length r < 256" for r
    using assms(1) by (auto simp: packet_ok_def)
  have l: "length h = 4" "length w = 4 * length (by_ssrcs p)" by (simp_all add: h_def w_def)
  have n: "4 + length (w @ t) = ?n" using r by (auto simp: l t_def Bye_GetSize_def strlen_all split: option.split)
  have "Bye_Serialize io room p = Some (h @ w @ t)"
    using assms(2) by (simp add: Bye_Serialize_def flip: h_def w_def t_def)
  moreover have "Bye_Parse io (h @ w @ t) = Some (Some (?n, p))"
  proof -
    have o: "open_packet (h @ w @ t) 0 k = k (header_of (length (by_ssrcs p)) 203 ?n) ?n" for k :: "_ \<Rightarrow> _ \<Rightarrow> (nat \<times> RTCPBye) option option"
      unfolding h_def by (rule open_written) (use ok n in \<open>auto simp: Bye_GetSize_def\<close>)
    have d: "read_dwords io (h @ w @ t) ?n (length (by_ssrcs p)) 4 [] = Some (by_ssrcs p, 4 + 4 * length (by_ssrcs p))"
      using read_written_dwords [of h "by_ssrcs p" ?n t "[]"] l n by (simp flip: w_def)
    show ?thesis
    proof (cases "by_reason p")
      case None
      then have "?n = 4 + 4 * length (by_ssrcs p)" by (simp add: Bye_GetSize_def)
      moreover have "\<lparr>by_ssrcs = by_ssrcs p, by_reason = None\<rparr> = p" using None by (cases p) simp
      ultimately show ?thesis using d by (simp add: Bye_Parse_def o)
    next
      case (Some s)
      then have s: "0 \<notin> set s" "length s < 256" "t = of_nat (length s) # s" using r by (simp_all add: t_def strlen_all)
      then have sz: "?n = 4 + 4 * length (by_ssrcs p) + length s + 1" using Some by (simp add: Bye_GetSize_def strlen_all)
      have "rd1 (h @ w @ t) (4 + 4 * length (by_ssrcs p)) = Some (of_nat (length s))"
        "rdn (h @ w @ t) (4 + 4 * length (by_ssrcs p) + 1) (length s) = Some s"
        by (simp_all add: rd1_def rdn_def nth_append l s(3))
      moreover have "unat (of_nat (length s) :: byte) = length s" using s(2) by (simp add: unat_byte)
      moreover have "\<lparr>by_ssrcs = by_ssrcs p, by_reason = Some s\<rparr> = p" using Some by (cases p) simp
      ultimately show ?thesis using d sz by (simp add: Bye_Parse_def o)
    qed
  qed
  ultimately show ?thesis
    using n ok(1) unfolding round_trips_def
    by (intro exI [of _ "length (by_ssrcs p)"] exI [of _ "w @ t"]) (simp add: RTCPPacket_Parse_def packet_readback_def h_def)
qed

lemma App_roundtrip:
  assumes "packet_ok io (App p)" and "App_GetSize p \<le> room"
  shows "round_trips io room (App p)"
proof -
  let ?n = "App_GetSize p"
  define h where "h = write_header (ap_subtype p) 204 ?n"
  define body where "body = set4 io (uint (ap_ssrc p)) @ ap_name p @ ap_data p"
  have ok: "ap_subtype p < 32" "length (ap_name p) = 4" "?n mod 4 = 0" "?n \<le> 262144"
    using assms(1) by (auto simp: packet_ok_def)
  have l: "length h = 4" by (simp add: h_def)
  have n: "4 + length body = ?n" by (simp add: body_def ok(2) App_GetSize_def)
  have o: "open_packet (h @ body) 8 k = k (header_of (ap_subtype p) 204 ?n) ?n" for k :: "_ \<Rightarrow> _ \<Rightarrow> (nat \<times> RTCPApp) option option"
    unfolding h_def by (rule open_written) (use ok n in \<open>auto simp: App_GetSize_def\<close>)
  have "rd4 io (h @ body) 4 = Some (ap_ssrc p)" by (simp add: body_def skip_word l del: rd_inside)
  moreover have "rdn (h @ body) 8 4 = Some (ap_name p)" "rdn (h @ body) 12 (length (ap_data p)) = Some (ap_data p)"
    by (simp_all add: body_def rdn_def l ok(2))
  moreover have "?n - 12 = length (ap_data p)" by (simp add: App_GetSize_def)
  ultimately have "App_Parse io (h @ body) = Some (Some (?n, p))"
    by (simp add: App_Parse_def o)
  moreover have "App_Serialize io room p = Some (h @ body)"
    using assms(2) by (simp add: App_Serialize_def h_def body_def)
  ultimately show ?thesis
    using n ok(1) unfolding round_trips_def
    by (intro exI [of _ "ap_subtype p"] exI [of _ body]) (simp add: RTCPPacket_Parse_def packet_readback_def h_def)
qed

lemma feedback_body:
  assumes "length h = 4"
  shows "take n (drop 12 (h @ set4 io a @ set4 io b @ d)) = take n d" "rd4 io (h @ set4 io (uint s) @ d) 4 = Some s"
    "rd4 io (h @ set4 io a @ set4 io (uint m) @ d) 8 = Some m"
  using assms by (simp_all add: skip_word del: rd_inside)

lemma RTPFeedback_roundtrip:
  assumes "packet_ok io (RTPFeedback p)" and "RTPFeedback_GetSize p \<le> room"
  shows "round_trips io room (RTPFeedback p)"
proof -
  let ?n = "RTPFeedback_GetSize p" and ?t = "rf_feedbackType p"
  define h where "h = write_header ?t 205 ?n"
  define w where "w = set4 io (uint (rf_senderSSRC p)) @ set4 io (uint (rf_mediaSSRC p))"
  have ok: "?t < 32" "fields_ok (RtpField_ok ?t) RtpField_greedy (rf_fields p)" "?n mod 4 = 0" "?n \<le> 262144"
    using assms(1) by (auto simp: packet_ok_def)
  have l: "length h = 4" "length w = 8" by (simp_all add: h_def w_def)
  have "length (h @ w) + sum_list (map RtpField_GetSize (rf_fields p)) \<le> room" using assms(2) l by (simp add: RTPFeedback_GetSize_def)
  from rtpField.write_read_fields [OF ok(2) this] obtain d where d: "write_fields (RtpField_Serialize io) room (rf_fields p) (h @ w) = (h @ w) @ d"
    "length d = sum_list (map RtpField_GetSize (rf_fields p))"
    "\<And>len acc. read_fields (RtpField_Parse io ?t) d len acc = Some (Some (len + length d, acc @ map RtpField_readback (rf_fields p)))" by blast
  have n: "4 + length (w @ d) = ?n" by (simp add: l d(2) RTPFeedback_GetSize_def)
  have "RTPFeedback_Serialize io room p = Some (h @ w @ d)"
    using assms(2) d(1) by (simp add: RTPFeedback_Serialize_def flip: h_def w_def)
  moreover have "RTPFeedback_Parse io (h @ w @ d) = Some (Some (?n, p\<lparr>rf_fields := map RtpField_readback (rf_fields p)\<rparr>))"
  proof -
    have o: "open_packet (h @ w @ d) 8 k = k (header_of ?t 205 ?n) ?n" for k :: "_ \<Rightarrow> _ \<Rightarrow> (nat \<times> RTCPRTPFeedback) option option"
      unfolding h_def by (rule open_written) (use ok n l in \<open>auto simp: RTPFeedback_GetSize_def\<close>)
    have "take (?n - 12) (drop 12 (h @ w @ d)) = d" "?n = 12 + length d" using n l by (simp_all add: w_def)
    moreover have "rd4 io (h @ w @ d) 4 = Some (rf_senderSSRC p)" "rd4 io (h @ w @ d) 8 = Some (rf_mediaSSRC p)"
      unfolding w_def append.assoc by (simp_all only: feedback_body [OF l(1)])
    ultimately show ?thesis using d(3) by (simp add: RTPFeedback_Parse_def o)
  qed
  ultimately show ?thesis
    using n ok(1) unfolding round_trips_def
    by (intro exI [of _ ?t] exI [of _ "w @ d"]) (simp add: RTCPPacket_Parse_def packet_readback_def h_def)
qed

lemma PayloadFeedback_roundtrip:
  assumes "packet_ok io (PayloadFeedback p)" and "PayloadFeedback_GetSize io p \<le> room"
  shows "round_trips io room (PayloadFeedback p)"
proof -
  let ?n = "PayloadFeedback_GetSize io p" and ?t = "pf_feedbackType p"
  define h where "h = write_header ?t 206 ?n"
  define w where "w = set4 io (uint (pf_senderSSRC p)) @ set4 io (uint (pf_mediaSSRC p))"
  have ok: "?t < 32" "fields_ok (PayloadField_ok ?t) PayloadField_greedy (pf_fields p)" "?n mod 4 = 0" "?n \<le> 262144"
    using assms(1) by (auto simp: packet_ok_def)
  have l: "length h = 4" "length w = 8" by (simp_all add: h_def w_def)
  have "length (h @ w) + sum_list (map (PayloadField_GetSize io) (pf_fields p)) \<le> room" using assms(2) l by (simp add: PayloadFeedback_GetSize_def)
  from payloadField.write_read_fields [OF ok(2) this] obtain d where
    d: "write_fields (PayloadField_Serialize io) room (pf_fields p) (h @ w) = (h @ w) @ d"
    "length d = sum_list (map (PayloadField_GetSize io) (pf_fields p))"
    "\<And>len acc. read_fields (PayloadField_Parse io ?t) d len acc = Some (Some (len + length d, acc @ map PayloadField_readback (pf_fields p)))" by blast
  have n: "4 + length (w @ d) = ?n" by (simp add: l d(2) PayloadFeedback_GetSize_def)
  have "PayloadFeedback_Serialize io room p = Some (h @ w @ d)"
    using assms(2) d(1) by (simp add: PayloadFeedback_Serialize_def flip: h_def w_def)
  moreover have "PayloadFeedback_Parse io (h @ w @ d) = Some (Some (?n, p\<lparr>pf_fields := map PayloadField_readback (pf_fields p)\<rparr>))"
  proof -
    have o: "open_packet (h @ w @ d) 8 k = k (header_of ?t 206 ?n) ?n" for k :: "_ \<Rightarrow> _ \<Rightarrow> (nat \<times> RTCPPayloadFeedback) option option"
      unfolding h_def by (rule open_written) (use ok n l in \<open>auto simp: PayloadFeedback_GetSize_def\<close>)
    have "take (?n - 12) (drop 12 (h @ w @ d)) = d" "?n = 12 + length d" using n l by (simp_all add: w_def)
    moreover have "rd4 io (h @ w @ d) 4 = Some (pf_senderSSRC p)" "rd4 io (h @ w @ d) 8 = Some (pf_mediaSSRC p)"
      unfolding w_def append.assoc by (simp_all only: feedback_body [OF l(1)])
    ultimately show ?thesis using d(3) by (simp add: PayloadFeedback_Parse_def o)
  qed
  ultimately show ?thesis
    using n ok(1) unfolding round_trips_def
    by (intro exI [of _ ?t] exI [of _ "w @ d"]) (simp add: RTCPPacket_Parse_def packet_readback_def h_def)
qed

lemma small_roundtrips:
  "8 \<le> room \<Longrightarrow> round_trips io room (FullIntraRequest ssrc)"
  "12 \<le> room \<Longrightarrow> round_trips io room (NACK p)"
proof -
  have o: "open_packet (write_header 0 192 8 @ d) 4 k = k (header_of 0 192 8) 8"
    if "length d = 4" for d and k :: "_ \<Rightarrow> _ \<Rightarrow> (nat \<times> 32 word) option option"
    using that by (intro open_written) simp_all
  have "FIR_Parse io (write_header 0 192 8 @ set4 io (uint ssrc)) = Some (Some (8, ssrc))"
    by (simp add: FIR_Parse_def o skip_word del: rd_inside)
  then show "round_trips io room (FullIntraRequest ssrc)" if "8 \<le> room"
    using that unfolding round_trips_def
    by (intro exI [of _ 0] exI [of _ "set4 io (uint ssrc)"]) (simp add: RTCPPacket_Parse_def packet_readback_def FIR_Serialize_def)
  have o: "open_packet (write_header 0 193 12 @ d) 8 k = k (header_of 0 193 12) 12"
    if "length d = 8" for d and k :: "_ \<Rightarrow> _ \<Rightarrow> (nat \<times> RTCPNACK) option option"
    using that by (intro open_written) simp_all
  have "NACK_Parse io (write_header 0 193 12 @ set4 io (uint (na_ssrc p)) @ set2 io (uint (na_fsn p)) @ set2 io (uint (na_blp p))) = Some (Some (12, p))"
    by (simp add: NACK_Parse_def o skip_word del: rd_inside)
  then show "round_trips io room (NACK p)" if "12 \<le> room"
    using that unfolding round_trips_def
    by (intro exI [of _ 0] exI [of _ "set4 io (uint (na_ssrc p)) @ set2 io (uint (na_fsn p)) @ set2 io (uint (na_blp p))"])
      (simp add: RTCPPacket_Parse_def packet_readback_def NACK_Serialize_def)
qed

lemma Jitter_roundtrip:
  assumes "packet_ok io (ExtendedJitterReport js)" and "Jitter_GetSize js \<le> room"
  shows "round_trips io room (ExtendedJitterReport js)"
proof -
  let ?n = "Jitter_GetSize js"
  define h where "h = write_header (length js) 195 ?n"
  define w where "w = concat (map (\<lambda>j. set4 io (uint j)) js)"
  have ok: "length js < 32" "?n mod 4 = 0" "?n \<le> 262144" using assms(1) by (auto simp: packet_ok_def)
  have l: "length h = 4" "length w = 4 * length js" by (simp_all add: h_def w_def)
  have n: "4 + length w = ?n" by (simp add: l Jitter_GetSize_def)
  have o: "open_packet (h @ w) 0 k = k (header_of (length js) 195 ?n) ?n" for k :: "_ \<Rightarrow> _ \<Rightarrow> (nat \<times> 32 word list) option option"
    unfolding h_def by (rule open_written) (use ok n in \<open>auto simp: Jitter_GetSize_def\<close>)
  have "read_dwords io (h @ w) ?n (length js) 4 [] = Some (js, ?n)"
    using read_written_dwords [of h js ?n "[]" "[]"] l n by (simp flip: w_def)
  then have "Jitter_Parse io (h @ w) = Some (Some (?n, js))" by (simp add: Jitter_Parse_def o)
  moreover have "Jitter_Serialize io room js = Some (h @ w)" using assms(2) by (simp add: Jitter_Serialize_def h_def w_def)
  ultimately show ?thesis
    using n ok(1) unfolding round_trips_def
    by (intro exI [of _ "length js"] exI [of _ w]) (simp add: RTCPPacket_Parse_def packet_readback_def h_def)
qed

lemma packet_roundtrip: "packet_ok io p \<Longrightarrow> RTCPPacket_GetSize io p \<le> room \<Longrightarrow> round_trips io room p"
  by (cases p) (simp_all add: SenderReport_roundtrip ReceiverReport_roundtrip SDES_roundtrip Bye_roundtrip App_roundtrip RTPFeedback_roundtrip
      PayloadFeedback_roundtrip small_roundtrips Jitter_roundtrip)

lemma GetType_bound: "GetType p < 256"
  by (cases p) simp_all

lemma parse_written:
  assumes "list_all (packet_ok io) ps" and "length out + sum_list (map (RTCPPacket_GetSize io) ps) \<le> room"
  shows "\<exists>d. write_fields (RTCPPacket_Serialize io) room ps out = out @ d \<and> length d = sum_list (map (RTCPPacket_GetSize io) ps)
    \<and> (\<forall>acc. parse_packets io d acc = Some (Some (acc @ map packet_readback ps)))"
  using assms
proof (induction ps arbitrary: out)
  case Nil
  then show ?case by (simp add: write_fields_def parse_packets.simps)
next
  case (Cons p ps)
  let ?n = "RTCPPacket_GetSize io p"
  have p: "packet_ok io p" "?n mod 4 = 0" "?n \<le> 262144" using Cons.prems(1) by (auto simp: packet_ok_def)
  from packet_roundtrip [OF p(1), of "room - length out"] Cons.prems(2) obtain count body where
    r: "count < 32" "4 + length body = ?n" "RTCPPacket_Serialize io (room - length out) p = Some (write_header count (GetType p) ?n @ body)"
      "RTCPPacket_Parse io (GetType p) (write_header count (GetType p) ?n @ body) = Some (Some (?n, packet_readback p))"
    by (auto simp: round_trips_def le_diff_conv2)
  define x where "x = write_header count (GetType p) ?n @ body"
  have x: "length x = ?n" using r(2) by (simp add: x_def)
  have "\<exists>d. write_fields (RTCPPacket_Serialize io) room ps (out @ x) = (out @ x) @ d \<and> length d = sum_list (map (RTCPPacket_GetSize io) ps)
    \<and> (\<forall>acc. parse_packets io d acc = Some (Some (acc @ map packet_readback ps)))"
    by (rule Cons.IH) (use Cons.prems x in auto)
  then obtain d where d: "write_fields (RTCPPacket_Serialize io) room ps (out @ x) = out @ x @ d" "length d = sum_list (map (RTCPPacket_GetSize io) ps)"
    "\<And>acc. parse_packets io d acc = Some (Some (acc @ map packet_readback ps))" by auto
  have "4 \<le> ?n" using r(2) by simp
  note h = read_written_header [OF r(1) GetType_bound p(2) this p(3)]
  have "read_header (x @ d) = Some (header_of count (GetType p) ?n)" unfolding x_def append.assoc by (rule h(1))
  moreover have "x \<noteq> []" "\<not> length (x @ d) < 4" using x r(2) by auto
  ultimately have "parse_packets io (x @ d) acc = Some (Some (acc @ map packet_readback (p # ps)))" for acc
    using r(2,4) x by (subst parse_packets.simps) (simp add: h(2) d(3) flip: x_def)
  moreover have "write_fields (RTCPPacket_Serialize io) room (p # ps) out = out @ x @ d"
    using d(1) r(3) by (simp add: write_fields_def x_def)
  moreover have "length (x @ d) = sum_list (map (RTCPPacket_GetSize io) (p # ps))" by (simp add: x d(2))
  ultimately show ?case by blast
qed

lemma FullIntra_lost:
  "\<exists>d. FullIntra_Serialize io 8 f = Some d \<and> d ! 4 = fi_seq f \<and> FullIntra_Parse io d = Some (Some (8, f\<lparr>fi_seq := 0\<rparr>))"
  by (simp add: FullIntra_Serialize_def FullIntra_Parse_def field_reads)

lemma compound_roundtrip:
  assumes "ps \<noteq> []" and "list_all (packet_ok io) ps" and "200 \<le> GetType (hd ps)" and "Compound_GetSize io ps \<le> room"
  shows "length (Compound_Serialize io room ps) = Compound_GetSize io ps
    \<and> Compound_Parse io (Compound_Serialize io room ps) = Some (Some (map packet_readback ps))"
proof -
  obtain p qs where ps: "ps = p # qs" using assms(1) by (cases ps) auto
  have w: "length [] + sum_list (map (RTCPPacket_GetSize io) ps) \<le> room" using assms(4) by (simp add: Compound_GetSize_def)
  from parse_written [OF assms(2) w] obtain d where d: "Compound_Serialize io room ps = d" "length d = Compound_GetSize io ps"
    "\<And>acc. parse_packets io d acc = Some (Some (acc @ map packet_readback ps))"
    using assms(4) by (auto simp: Compound_Serialize_def Compound_GetSize_def)
  have p: "packet_ok io p" "RTCPPacket_GetSize io p mod 4 = 0" "RTCPPacket_GetSize io p \<le> 262144" "RTCPPacket_GetSize io p \<le> room"
    using assms(2,4) by (auto simp: ps packet_ok_def Compound_GetSize_def)
  from packet_roundtrip [OF p(1,4)] obtain count body where r: "count < 32" "4 + length body = RTCPPacket_GetSize io p"
    "RTCPPacket_Serialize io room p = Some (write_header count (GetType p) (RTCPPacket_GetSize io p) @ body)"
    by (auto simp: round_trips_def)
  have "\<exists>rest. d = write_header count (GetType p) (RTCPPacket_GetSize io p) @ rest"
  proof -
    have "length (write_header count (GetType p) (RTCPPacket_GetSize io p) @ body) + sum_list (map (RTCPPacket_GetSize io) qs) \<le> room"
      using w r(2) by (simp add: ps)
    from parse_written [OF _ this] assms(2) r(3) show ?thesis
      using d(1) assms(4) by (auto simp: ps Compound_Serialize_def write_fields_def split: if_splits)
  qed
  then obtain rest where "d = write_header count (GetType p) (RTCPPacket_GetSize io p) @ rest" ..
  moreover have "4 \<le> RTCPPacket_GetSize io p" using r(2) by simp
  ultimately have "read_header d = Some (header_of count (GetType p) (RTCPPacket_GetSize io p))" "\<not> length d < 4"
    using read_written_header [OF r(1) GetType_bound p(2) _ p(3)] by auto
  moreover have "GetType p \<le> 206" by (cases p) simp_all
  ultimately have "IsRTCP d = Some True" using assms(3) by (simp add: IsRTCP_def ps)
  with d show ?thesis by (simp add: Compound_Parse_def)
qed

end

text \<open>
  C11. Round trip of RTCP. A compound packet of any packets of the ten classes that fit the format, the first of a
  type that \<open>IsRTCP\<close> recognises, takes \<open>GetSize\<close> octets, and what \<open>Parse\<close> reads from them are these packets,
  with every report, description, reason and feedback field, except that the sequence number of a
  \<open>FullIntraRequestField\<close> is read as 0.
\<close>

theorem rtcp_roundtrip:
  assumes "medkit_words io" and "ps \<noteq> []" and "list_all (packet_ok io) ps" and "200 \<le> GetType (hd ps)" and "Compound_GetSize io ps \<le> room"
  shows "length (Compound_Serialize io room ps) = Compound_GetSize io ps
    \<and> Compound_Parse io (Compound_Serialize io room ps) = Some (Some (map packet_readback ps))"
  by (rule medkit_words.compound_roundtrip [OF assms])

definition sample_compound :: "RTCPPacket list" where
  "sample_compound =
    [ReceiverReport \<lparr>rc_ssrc = 7, rc_reports = [\<lparr>rr_buffer = replicate 24 9\<rparr>]\<rparr>,
     SDES [\<lparr>ds_ssrc = 7, ds_items = [\<lparr>it_type = 1, it_data = str ''me''\<rparr>]\<rparr>],
     RTPFeedback \<lparr>rf_feedbackType = 1, rf_senderSSRC = 7, rf_mediaSSRC = 8, rf_fields = [Nack \<lparr>nk_pid = 10, nk_blp = 5\<rparr>]\<rparr>,
     PayloadFeedback \<lparr>pf_feedbackType = 4, pf_senderSSRC = 7, pf_mediaSSRC = 0, pf_fields = [FullIntra \<lparr>fi_ssrc = 8, fi_seq = 3\<rparr>]\<rparr>]"

theorem rtcp_roundtrip_witness:
  "Compound_Parse network_order (Compound_Serialize network_order 1500 sample_compound) = Some (Some
    [ReceiverReport \<lparr>rc_ssrc = 7, rc_reports = [\<lparr>rr_buffer = replicate 24 9\<rparr>]\<rparr>,
     SDES [\<lparr>ds_ssrc = 7, ds_items = [\<lparr>it_type = 1, it_data = str ''me''\<rparr>]\<rparr>],
     RTPFeedback \<lparr>rf_feedbackType = 1, rf_senderSSRC = 7, rf_mediaSSRC = 8, rf_fields = [Nack \<lparr>nk_pid = 10, nk_blp = 5\<rparr>]\<rparr>,
     PayloadFeedback \<lparr>pf_feedbackType = 4, pf_senderSSRC = 7, pf_mediaSSRC = 0, pf_fields = [FullIntra \<lparr>fi_ssrc = 8, fi_seq = 0\<rparr>]\<rparr>])"
proof -
  have s: "Compound_GetSize network_order sample_compound = 84"
    by (simp add: sample_compound_def Compound_GetSize_def ReceiverReport_GetSize_def SDES_GetSize_def Description_GetSize_def
        RTPFeedback_GetSize_def PayloadFeedback_GetSize_def network_order_def str_def)
  have "list_all (packet_ok network_order) sample_compound"
    by (simp add: sample_compound_def packet_ok_def ReceiverReport_GetSize_def SDES_GetSize_def Description_GetSize_def reports_wf_def
        RTPFeedback_GetSize_def PayloadFeedback_GetSize_def network_order_def str_def description_ok_def fields_ok_def RtpField_ok_def
        PayloadField_ok_def)
  with s rtcp_roundtrip [OF netd.medkit_words_axioms, of sample_compound 1500] show ?thesis
    by (simp add: sample_compound_def packet_readback_def RtpField_readback_def PayloadField_readback_def)
qed



end
