(* ===== verification/WebSocket.thy ===== *)
theory WebSocket
  imports Prelude
begin

text \<open>
  The WebSocket connection of \<open>websocketconnection.h\<close> and \<open>websocketconnection.cpp\<close> once it is upgraded:
  the frame header with its incremental parser, the frames that go out, the loop of \<open>ProcessData\<close> over what
  comes in, and the plain transport of \<open>websockettransport.h\<close>.

  \<^item> A header is its array of 14 octets. \<open>get2\<close>, \<open>get4\<close>, \<open>get8\<close> and their writers are those of medkit.
  \<^item> The calls into the \<open>WebSocket::Listener\<close> and the server are returned in order (\<open>ws_call\<close>).
  \<^item> \<open>RAND_bytes\<close> is an argument: the four octets of the \<open>n\<close>-th key drawn.
  \<^item> \<open>None\<close> is a loop that does not end or a member called on a pointer that is \<open>NULL\<close>.
  \<^item> Sizes are natural numbers: the code keeps them in a \<open>DWORD\<close>, so a message of 4 GB is out of the model.

  The HTTP exchange before the upgrade and the TLS transport are not part of it.
\<close>

section \<open>The header of a frame\<close>

datatype OpCode = ContinuationFrame | TextFrame | BinaryFrame | Reserved3 | Reserved4 | Reserved5
  | Reserved6 | Reserved7 | Close | Ping | Pong | ReservedB | ReservedC | ReservedD | ReservedE | ReservedF

type_synonym WebSocketFrameHeader = "byte list"

definition opcodes :: "OpCode list" where
  "opcodes = [ContinuationFrame, TextFrame, BinaryFrame, Reserved3, Reserved4, Reserved5, Reserved6, Reserved7,
    Close, Ping, Pong, ReservedB, ReservedC, ReservedD, ReservedE, ReservedF]"

fun op_code :: "OpCode \<Rightarrow> byte" where
  "op_code ContinuationFrame = 0x0" | "op_code TextFrame = 0x1" | "op_code BinaryFrame = 0x2"
| "op_code Reserved3 = 0x3" | "op_code Reserved4 = 0x4" | "op_code Reserved5 = 0x5"
| "op_code Reserved6 = 0x6" | "op_code Reserved7 = 0x7" | "op_code Close = 0x8"
| "op_code Ping = 0x9" | "op_code Pong = 0xA" | "op_code ReservedB = 0xB"
| "op_code ReservedC = 0xC" | "op_code ReservedD = 0xD" | "op_code ReservedE = 0xE"
| "op_code ReservedF = 0xF"

definition IsFin :: "WebSocketFrameHeader \<Rightarrow> bool" where
  "IsFin h = (h ! 0 AND 0x80 \<noteq> 0)"

definition GetOpCode :: "WebSocketFrameHeader \<Rightarrow> OpCode" where
  "GetOpCode h = opcodes ! unat (h ! 0 AND 0x0F)"

definition IsMasked :: "WebSocketFrameHeader \<Rightarrow> bool" where
  "IsMasked h = (h ! 1 AND 0x80 \<noteq> 0)"

definition GetPayloadLenghtSize :: "WebSocketFrameHeader \<Rightarrow> nat" where
  "GetPayloadLenghtSize h = (let len = h ! 1 AND 0x7F in if len = 126 then 3 else if len = 127 then 9 else 1)"

definition GetMask :: "medkit \<Rightarrow> WebSocketFrameHeader \<Rightarrow> int" where
  "GetMask io h = (if IsMasked h then get4 io h (1 + GetPayloadLenghtSize h) else 0)"

definition Header_GetSize :: "WebSocketFrameHeader \<Rightarrow> nat" where
  "Header_GetSize h = 1 + GetPayloadLenghtSize h + (if IsMasked h then 4 else 0)"

definition GetPayloadLength :: "medkit \<Rightarrow> WebSocketFrameHeader \<Rightarrow> nat" where
  "GetPayloadLength io h = (let len = h ! 1 AND 0x7F in
     if len = 126 then nat (get2 io h 2) else if len = 127 then nat (get8 io h 2) else unat len)"

text \<open>\<open>memcpy\<close> into the middle of an array.\<close>

definition overwrite :: "nat \<Rightarrow> byte list \<Rightarrow> byte list \<Rightarrow> byte list" where
  "overwrite i xs d = take i d @ xs @ drop (i + length xs) d"

definition SetFin :: "bool \<Rightarrow> WebSocketFrameHeader \<Rightarrow> WebSocketFrameHeader" where
  "SetFin fin h = h[0 := (h ! 0 AND 0x7F) OR (if fin then 0x80 else 0)]"

definition SetOpCode :: "OpCode \<Rightarrow> WebSocketFrameHeader \<Rightarrow> WebSocketFrameHeader" where
  "SetOpCode opCode h = h[0 := (h ! 0 AND 0x80) OR op_code opCode]"

definition SetPayloadLength :: "medkit \<Rightarrow> nat \<Rightarrow> WebSocketFrameHeader \<Rightarrow> WebSocketFrameHeader" where
  "SetPayloadLength io len h =
    (if len < 126 then h[1 := h ! 1 OR of_nat len]
     else if len < 0xFFFF then overwrite 2 (set2 io (int len)) (h[1 := h ! 1 OR 126])
     else overwrite 2 (set8 io (int len)) (h[1 := h ! 1 OR 127]))"

definition SetMask :: "medkit \<Rightarrow> int \<Rightarrow> WebSocketFrameHeader \<Rightarrow> WebSocketFrameHeader" where
  "SetMask io key h = (let h = h[1 := h ! 1 OR 0x80] in overwrite (1 + GetPayloadLenghtSize h) (set4 io key) h)"

definition Header_new :: "medkit \<Rightarrow> bool \<Rightarrow> OpCode \<Rightarrow> nat \<Rightarrow> int \<Rightarrow> WebSocketFrameHeader" where
  "Header_new io fin opCode len key =
    (let h = SetPayloadLength io len (SetOpCode opCode (SetFin fin (replicate 14 0)))
     in if key \<noteq> 0 then SetMask io key h else h)"

section \<open>The incremental parser of the header\<close>

record Parser =
  p_header :: "WebSocketFrameHeader option"
  p_len :: nat

definition Parser_new :: Parser where
  "Parser_new = \<lparr>p_header = None, p_len = 0\<rparr>"

definition IsParsed :: "Parser \<Rightarrow> bool" where
  "IsParsed p = (case p_header p of None \<Rightarrow> False | Some h \<Rightarrow> Header_GetSize h = p_len p)"

text \<open>One of the two copies of \<open>Parse\<close>: the octets that are missing, or what there is of them.\<close>

definition copy_missing :: "nat \<Rightarrow> byte list \<Rightarrow> WebSocketFrameHeader \<times> nat \<Rightarrow> byte list \<times> WebSocketFrameHeader \<times> nat" where
  "copy_missing missing data = (\<lambda>(h, len). let c = min missing (length data) in
     (drop c data, overwrite len (take c data) h, len + c))"

definition Parser_Parse :: "byte list \<Rightarrow> Parser \<Rightarrow> nat \<times> Parser" where
  "Parser_Parse data p =
    (let (h, len) = (case p_header p of None \<Rightarrow> (replicate 14 0, 0) | Some h \<Rightarrow> (h, p_len p));
         (rest, h, len) = (if len < 2 then copy_missing (2 - len) data (h, len) else (data, h, len));
         (rest, h, len) = (if rest \<noteq> [] then copy_missing (Header_GetSize h - len) rest (h, len) else (rest, h, len))
     in (length data - length rest, \<lparr>p_header = Some h, p_len = len\<rparr>))"

definition ConsumeHeader :: "Parser \<Rightarrow> WebSocketFrameHeader option \<times> Parser" where
  "ConsumeHeader p = (p_header p, p\<lparr>p_header := None\<rparr>)"

section \<open>The frames that go out\<close>

text \<open>The exclusive or with the key, from a position of the payload on.\<close>

fun xor_mask :: "byte list \<Rightarrow> nat \<Rightarrow> byte list \<Rightarrow> byte list" where
  "xor_mask key pos [] = []"
| "xor_mask key pos (b # data) = (b XOR key ! (pos mod 4)) # xor_mask key (pos + 1) data"

record WsFrame =
  f_data :: "byte list"
  f_size :: nat
  f_length :: nat
  f_headerSize :: nat
  f_masked :: bool
  f_mask :: "byte list"

definition Frame_Append :: "byte list \<Rightarrow> WsFrame \<Rightarrow> bool \<times> WsFrame" where
  "Frame_Append data f =
    (if length data + f_length f > f_size f then (False, f)
     else let out = (if f_masked f then xor_mask (f_mask f) (f_length f - f_headerSize f) data else data)
       in (True, f\<lparr>f_data := overwrite (f_length f) out (f_data f), f_length := f_length f + length data\<rparr>))"

definition frame_key :: "medkit \<Rightarrow> byte list \<Rightarrow> bool \<Rightarrow> byte list" where
  "frame_key io rnd masked =
    (if masked then if get4 io rnd 0 = 0 then rnd[0 := 1] else rnd else [0, 0, 0, 0])"

definition Frame_new :: "medkit \<Rightarrow> byte list \<Rightarrow> bool \<Rightarrow> OpCode \<Rightarrow> byte list option \<Rightarrow> nat \<Rightarrow> bool \<Rightarrow> WsFrame" where
  "Frame_new io rnd fin opCode data sz masked =
    (let key = frame_key io rnd masked;
         header = Header_new io fin opCode sz (if masked then get4 io key 0 else 0);
         n = Header_GetSize header;
         f = \<lparr>f_data = overwrite 0 (take n header) (replicate (sz + n) 0), f_size = sz + n, f_length = n,
              f_headerSize = n, f_masked = masked, f_mask = key\<rparr>
     in case data of None \<Rightarrow> f | Some data \<Rightarrow> snd (Frame_Append data f))"

section \<open>The plain transport\<close>

text \<open>What \<open>write\<close> answers: octets taken (none is an error), a full socket or an interruption, an error.\<close>

datatype write_result = Wrote nat | WouldBlock | WriteError

record PlainTransport =
  t_pendingOut :: "byte list"
  t_writes :: "write_result list"
  t_wire :: "byte list"

fun flush_loop :: "write_result list \<Rightarrow> PlainTransport \<Rightarrow> bool \<times> PlainTransport" where
  "flush_loop [] t = (True, t\<lparr>t_writes := []\<rparr>)"
| "flush_loop (r # rs) t =
    (if t_pendingOut t = [] then (True, t\<lparr>t_writes := r # rs\<rparr>)
     else case r of
       Wrote n \<Rightarrow>
         if n = 0 then (False, t\<lparr>t_writes := rs\<rparr>)
         else flush_loop rs (t\<lparr>t_wire := t_wire t @ take n (t_pendingOut t), t_pendingOut := drop n (t_pendingOut t)\<rparr>)
     | WouldBlock \<Rightarrow> (True, t\<lparr>t_writes := rs\<rparr>)
     | WriteError \<Rightarrow> (False, t\<lparr>t_writes := rs\<rparr>))"

definition Plain_Flush :: "PlainTransport \<Rightarrow> bool \<times> PlainTransport" where
  "Plain_Flush t = flush_loop (t_writes t) t"

definition Plain_Send :: "byte list \<Rightarrow> PlainTransport \<Rightarrow> bool \<times> PlainTransport" where
  "Plain_Send data t = Plain_Flush (t\<lparr>t_pendingOut := t_pendingOut t @ data\<rparr>)"

definition WantsWrite :: "PlainTransport \<Rightarrow> bool" where
  "WantsWrite t = (t_pendingOut t \<noteq> [])"

section \<open>The connection\<close>

datatype MessageType = Text | Binary

datatype ws_call = onMessageStart MessageType nat | onMessageData "byte list" | onMessageEnd | onWakeupNeeded

record WebSocketConnection =
  ws_client :: bool
  ws_wsl :: bool
  ws_parser :: Parser
  ws_header :: "WebSocketFrameHeader option"
  ws_framePos :: nat
  ws_pong :: "WsFrame option"
  ws_frames :: "WsFrame list"
  ws_closeRequested :: bool
  ws_closeAfterFlush :: bool
  ws_closeFrameQueued :: bool
  ws_response :: "byte list option"
  ws_transport :: PlainTransport
  ws_draws :: nat

definition MaxFramePayload :: nat where
  "MaxFramePayload = 16 * 1024 * 1024"

definition WebSocketConnection_new :: "bool \<Rightarrow> write_result list \<Rightarrow> WebSocketConnection" where
  "WebSocketConnection_new client writes = \<lparr>ws_client = client, ws_wsl = True, ws_parser = Parser_new, ws_header = None,
     ws_framePos = 0, ws_pong = None, ws_frames = [], ws_closeRequested = False, ws_closeAfterFlush = False,
     ws_closeFrameQueued = False, ws_response = None,
     ws_transport = \<lparr>t_pendingOut = [], t_writes = writes, t_wire = []\<rparr>, ws_draws = 0\<rparr>"

text \<open>A call into the listener of the socket, if it is still there.\<close>

definition tell :: "ws_call \<Rightarrow> WebSocketConnection \<Rightarrow> ws_call list" where
  "tell e c = (if ws_wsl c then [e] else [])"

text \<open>What a turn of the loop leaves: the calls, the octets that remain, whether the loop goes on, the connection.\<close>

datatype ws_turn = Turn "ws_call list" "byte list" bool WebSocketConnection

definition refuse :: "byte list \<Rightarrow> WebSocketConnection \<Rightarrow> ws_turn" where
  "refuse data c = Turn [] data False (c\<lparr>ws_closeRequested := True\<rparr>)"

definition open_frame :: "medkit \<Rightarrow> (nat \<Rightarrow> byte list) \<Rightarrow> WebSocketFrameHeader \<Rightarrow> byte list \<Rightarrow> WebSocketConnection \<Rightarrow> ws_turn" where
  "open_frame io rng h data c =
    (if GetPayloadLength io h > MaxFramePayload then refuse data c
     else if ws_client c \<and> IsMasked h then refuse data c
     else case GetOpCode h of
       TextFrame \<Rightarrow> Turn (tell (onMessageStart Text (GetPayloadLength io h)) c) data True c
     | Close \<Rightarrow> refuse data c
     | BinaryFrame \<Rightarrow> Turn (tell (onMessageStart Binary (GetPayloadLength io h)) c) data True c
     | Ping \<Rightarrow> Turn [] data True (c\<lparr>ws_pong := Some (Frame_new io (rng (ws_draws c)) True Pong None (GetPayloadLength io h) (ws_client c)),
         ws_draws := ws_draws c + (if ws_client c then 1 else 0)\<rparr>)
     | _ \<Rightarrow> Turn [] data True c)"

definition read_frame_header :: "medkit \<Rightarrow> (nat \<Rightarrow> byte list) \<Rightarrow> byte list \<Rightarrow> WebSocketConnection \<Rightarrow> ws_turn" where
  "read_frame_header io rng data c =
    (let (n, p) = Parser_Parse data (ws_parser c); data = drop n data in
     if IsParsed p then
       let (h, p) = ConsumeHeader p in
       open_frame io rng (the h) data (c\<lparr>ws_parser := p, ws_framePos := 0, ws_header := h\<rparr>)
     else Turn [] data True (c\<lparr>ws_parser := p\<rparr>))"

definition end_frame :: "WebSocketFrameHeader \<Rightarrow> WebSocketConnection \<Rightarrow> (ws_call list \<times> WebSocketConnection) option" where
  "end_frame h c =
    (case GetOpCode h of
       Ping \<Rightarrow> (case ws_pong c of None \<Rightarrow> None
               | Some pong \<Rightarrow> Some ([onWakeupNeeded], c\<lparr>ws_frames := ws_frames c @ [pong], ws_pong := None, ws_header := None\<rparr>))
     | ContinuationFrame \<Rightarrow> Some (if IsFin h then tell onMessageEnd c else [], c\<lparr>ws_header := None\<rparr>)
     | TextFrame \<Rightarrow> Some (if IsFin h then tell onMessageEnd c else [], c\<lparr>ws_header := None\<rparr>)
     | BinaryFrame \<Rightarrow> Some (if IsFin h then tell onMessageEnd c else [], c\<lparr>ws_header := None\<rparr>)
     | _ \<Rightarrow> Some ([], c\<lparr>ws_header := None\<rparr>))"

definition frame_data :: "WebSocketFrameHeader \<Rightarrow> byte list \<Rightarrow> WebSocketConnection \<Rightarrow> (ws_call list \<times> WebSocketConnection) option" where
  "frame_data h part c =
    (case GetOpCode h of
       Ping \<Rightarrow> (case ws_pong c of None \<Rightarrow> None | Some pong \<Rightarrow> Some ([], c\<lparr>ws_pong := Some (snd (Frame_Append part pong))\<rparr>))
     | ContinuationFrame \<Rightarrow> Some (tell (onMessageData part) c, c)
     | TextFrame \<Rightarrow> Some (tell (onMessageData part) c, c)
     | BinaryFrame \<Rightarrow> Some (tell (onMessageData part) c, c)
     | _ \<Rightarrow> Some ([], c))"

definition read_payload :: "medkit \<Rightarrow> WebSocketFrameHeader \<Rightarrow> byte list \<Rightarrow> WebSocketConnection \<Rightarrow> ws_turn option" where
  "read_payload io h data c =
    (let len = min (GetPayloadLength io h - ws_framePos c) (length data);
         part = take len data;
         part = (if IsMasked h then xor_mask (set4 io (GetMask io h)) (ws_framePos c) part else part)
     in do {
       (e, c) \<leftarrow> frame_data h part c;
       let c = c\<lparr>ws_framePos := ws_framePos c + len\<rparr> in
       if ws_framePos c = GetPayloadLength io h
       then do { (e', c) \<leftarrow> end_frame h c; Some (Turn (e @ e') (drop len data) True c) }
       else Some (Turn e (drop len data) True c)
     })"

definition frame_turn :: "medkit \<Rightarrow> (nat \<Rightarrow> byte list) \<Rightarrow> byte list \<Rightarrow> WebSocketConnection \<Rightarrow> ws_turn option" where
  "frame_turn io rng data c =
    (case ws_header c of
       None \<Rightarrow> Some (read_frame_header io rng data c)
     | Some h \<Rightarrow> read_payload io h data c)"

partial_function (option) process_frames :: "medkit \<Rightarrow> (nat \<Rightarrow> byte list) \<Rightarrow> byte list \<Rightarrow> WebSocketConnection \<Rightarrow> (ws_call list \<times> WebSocketConnection) option" where
  "process_frames io rng data c =
    (if data = [] then Some ([], c)
     else Option.bind (frame_turn io rng data c) (\<lambda>t. case t of Turn e rest on c \<Rightarrow>
       if on then Option.bind (process_frames io rng rest c) (\<lambda>(e', c). Some (e @ e', c)) else Some (e, c)))"

declare process_frames.simps [code]

definition ProcessData :: "medkit \<Rightarrow> (nat \<Rightarrow> byte list) \<Rightarrow> byte list \<Rightarrow> WebSocketConnection \<Rightarrow> (ws_call list \<times> WebSocketConnection) option" where
  "ProcessData io rng data c = process_frames io rng data c"

text \<open>\<open>OnReadable\<close>: the results of \<open>Recv\<close>, octets, nothing for now, or the end of the connection.\<close>

datatype recv_outcome = Octets "byte list" | Nothing | Gone

fun Ws_OnReadable :: "medkit \<Rightarrow> (nat \<Rightarrow> byte list) \<Rightarrow> recv_outcome list \<Rightarrow> WebSocketConnection \<Rightarrow> (ws_call list \<times> WebSocketConnection) option" where
  "Ws_OnReadable io rng [] c = Some ([], c)"
| "Ws_OnReadable io rng (Nothing # rs) c = Some ([], c)"
| "Ws_OnReadable io rng (Gone # rs) c = Some ([], c\<lparr>ws_closeRequested := True\<rparr>)"
| "Ws_OnReadable io rng (Octets data # rs) c = do {
     (e, c) \<leftarrow> ProcessData io rng data c;
     if ws_closeRequested c then Some (e, c)
     else do { (e', c) \<leftarrow> Ws_OnReadable io rng rs c; Some (e @ e', c) }
   }"

section \<open>Sending\<close>

definition push_frame :: "WsFrame \<Rightarrow> WebSocketConnection \<Rightarrow> WebSocketConnection" where
  "push_frame f c = c\<lparr>ws_frames := ws_frames c @ [f], ws_draws := ws_draws c + (if ws_client c then 1 else 0)\<rparr>"

definition SendMessage_text :: "medkit \<Rightarrow> (nat \<Rightarrow> byte list) \<Rightarrow> byte list \<Rightarrow> WebSocketConnection \<Rightarrow> WebSocketConnection" where
  "SendMessage_text io rng message c =
    (let f = Frame_new io (rng (ws_draws c)) True TextFrame (Some message) (length message) (ws_client c) in
     if ws_closeFrameQueued c then c\<lparr>ws_draws := ws_draws c + (if ws_client c then 1 else 0)\<rparr> else push_frame f c)"

function send_fragments :: "medkit \<Rightarrow> (nat \<Rightarrow> byte list) \<Rightarrow> OpCode \<Rightarrow> byte list \<Rightarrow> WebSocketConnection \<Rightarrow> WebSocketConnection" where
  "send_fragments io rng code data c =
    (let len = (if length data > 1300 then 1300 else length data);
         final = (len = length data);
         c = push_frame (Frame_new io (rng (ws_draws c)) final code (Some (take len data)) len (ws_client c)) c
     in if final then c else send_fragments io rng ContinuationFrame (drop len data) c)"
  by pat_completeness auto
termination
  by (relation "measure (\<lambda>(io, rng, code, data, c). length data)") (auto split: if_splits)

declare send_fragments.simps [simp del]

definition SendMessage_binary :: "medkit \<Rightarrow> (nat \<Rightarrow> byte list) \<Rightarrow> byte list \<Rightarrow> WebSocketConnection \<Rightarrow> WebSocketConnection" where
  "SendMessage_binary io rng data c =
    (if data = [] \<or> ws_closeFrameQueued c then c else send_fragments io rng BinaryFrame data c)"

definition Ws_Close :: "medkit \<Rightarrow> (nat \<Rightarrow> byte list) \<Rightarrow> 16 word \<Rightarrow> byte list \<Rightarrow> WebSocketConnection \<Rightarrow> WebSocketConnection" where
  "Ws_Close io rng code reason c =
    (if ws_closeFrameQueued c then c
     else let payload = ucast (drop_bit 8 code) # ucast (code AND 0xFF) # take 123 (takeWhile (\<lambda>b. b \<noteq> 0) reason)
       in (push_frame (Frame_new io (rng (ws_draws c)) True Close (Some payload) (length payload) (ws_client c)) c)
            \<lparr>ws_closeFrameQueued := True, ws_closeAfterFlush := True\<rparr>)"

definition GetNextFrame :: "WebSocketConnection \<Rightarrow> WsFrame option \<times> WebSocketConnection" where
  "GetNextFrame c = (case ws_frames c of [] \<Rightarrow> (None, c) | f # fs \<Rightarrow> (Some f, c\<lparr>ws_frames := fs\<rparr>))"

definition HasPendingOutput :: "WebSocketConnection \<Rightarrow> bool" where
  "HasPendingOutput c = (ws_response c \<noteq> None \<or> ws_frames c \<noteq> [] \<or> WantsWrite (ws_transport c))"

definition IsFinished :: "WebSocketConnection \<Rightarrow> bool" where
  "IsFinished c = (ws_closeRequested c \<or> ws_closeAfterFlush c \<and> \<not> HasPendingOutput c)"

definition Ws_OnWritable :: "WebSocketConnection \<Rightarrow> WebSocketConnection" where
  "Ws_OnWritable c =
    (let (ok, t) = Plain_Flush (ws_transport c); c = c\<lparr>ws_transport := t\<rparr> in
     if \<not> ok then c\<lparr>ws_closeRequested := True\<rparr>
     else if WantsWrite t then c
     else case ws_response c of
       Some out \<Rightarrow> c\<lparr>ws_transport := snd (Plain_Send out t), ws_response := None\<rparr>
     | None \<Rightarrow> (case GetNextFrame c of
           (None, c) \<Rightarrow> c
         | (Some f, c) \<Rightarrow> c\<lparr>ws_transport := snd (Plain_Send (f_data f) t)\<rparr>))"

section \<open>What a header says\<close>

lemma small_byte:
  fixes b :: byte
  assumes "unat b < 128"
  shows "b AND 0x7F = b" "(b OR 0x80) AND 0x7F = b" "b AND 0x80 = 0" "(b OR 0x80) AND 0x80 \<noteq> 0"
proof -
  have b: "\<not> bit b 7"
    using word_bit_bound [of b 7 7] assms by auto
  show "b AND 0x7F = b" "(b OR 0x80) AND 0x7F = b" "b AND 0x80 = 0"
    by (rule byte_eqI; simp add: bit_simps b)+
  have "bit ((b OR 0x80) AND 0x80) 7"
    by (simp add: bit_simps)
  then show "(b OR 0x80) AND 0x80 \<noteq> 0"
    by (metis bit_0_eq bot_apply bot_bool_def)
qed

lemma op_code_byte:
  fixes opCode :: OpCode
  defines "b \<equiv> op_code opCode"
  shows "opcodes ! unat (b AND 0x0F) = opCode" "opcodes ! unat ((0x80 OR b) AND 0x0F) = opCode"
    "b AND 0x80 = 0" "(0x80 OR b) AND 0x80 \<noteq> 0"
  unfolding b_def by (cases opCode; simp add: opcodes_def)+

definition length_code :: "nat \<Rightarrow> byte" where
  "length_code len = (if len < 126 then of_nat len else if len < 0xFFFF then 126 else 127)"

definition length_octets :: "medkit \<Rightarrow> nat \<Rightarrow> byte list" where
  "length_octets io len = (if len < 126 then [] else if len < 0xFFFF then set2 io (int len) else set8 io (int len))"

definition key_octets :: "medkit \<Rightarrow> int \<Rightarrow> byte list" where
  "key_octets io key = (if key = 0 then [] else set4 io key)"

definition header_octets :: "medkit \<Rightarrow> bool \<Rightarrow> OpCode \<Rightarrow> nat \<Rightarrow> int \<Rightarrow> byte list" where
  "header_octets io fin opCode len key =
    ((if fin then 0x80 else 0) OR op_code opCode) # (if key = 0 then length_code len else length_code len OR 0x80)
      # length_octets io len @ key_octets io key"

lemma unat_length_code: "unat (length_code len) = (if len < 126 then len else if len < 0xFFFF then 126 else 127)"
  by (simp add: length_code_def unat_of_nat)

lemma length_code_small: "unat (length_code len) < 128"
  by (simp add: unat_length_code)

lemma length_code_is:
  "length_code len = 126 \<longleftrightarrow> 126 \<le> len \<and> len < 0xFFFF" "length_code len = 127 \<longleftrightarrow> 0xFFFF \<le> len"
  using unat_length_code [of len] by (auto simp: length_code_def split: if_splits)

lemmas length_code_bits = small_byte [OF length_code_small]

lemma overwrite_two: "overwrite 2 xs (a # b # d) = a # b # xs @ drop (length xs) d"
  by (simp add: overwrite_def numeral_2_eq_2)

lemma overwrite_after: "overwrite (length as) xs (as @ d) = as @ xs @ drop (length xs) d"
  by (simp add: overwrite_def)

context medkit_frames
begin

lemma length_length_octets: "length (length_octets io len) = (if len < 126 then 0 else if len < 0xFFFF then 2 else 8)"
  by (simp add: length_octets_def set8_def length_set8)

lemma Header_new_octets:
  "Header_new io fin opCode len key = header_octets io fin opCode len key
    @ replicate (12 - length (length_octets io len) - length (key_octets io key)) 0"
proof -
  have fresh: "SetOpCode opCode (SetFin fin (replicate 14 0)) = ((if fin then 0x80 else 0) OR op_code opCode) # 0 # replicate 12 0"
    by (simp add: SetOpCode_def SetFin_def numeral_eq_Suc)
  have len: "SetPayloadLength io len (b # 0 # replicate 12 0)
      = b # length_code len # length_octets io len @ replicate (12 - length (length_octets io len)) 0" for b
    by (simp add: SetPayloadLength_def length_code_def length_octets_def overwrite_two set8_def length_set8)
  have "1 + GetPayloadLenghtSize (b # (length_code len OR 0x80) # d) = length (b # (length_code len OR 0x80) # length_octets io len)" for b d
    by (simp add: GetPayloadLenghtSize_def length_code_bits length_code_is length_length_octets)
  then have key: "SetMask io key (b # length_code len # length_octets io len @ d)
      = b # (length_code len OR 0x80) # length_octets io len @ set4 io key @ drop 4 d" for b d
    using overwrite_after [of "b # (length_code len OR 0x80) # length_octets io len" "set4 io key" d]
    by (simp add: SetMask_def)
  show ?thesis
    by (simp add: Header_new_def fresh len key header_octets_def key_octets_def)
qed

lemma header_read:
  fixes h and fin and opCode and len and key and rest
  defines "h \<equiv> header_octets io fin opCode len key @ rest"
  shows "IsFin h = fin" "GetOpCode h = opCode" "IsMasked h = (key \<noteq> 0)"
    "Header_GetSize h = length (header_octets io fin opCode len key)"
proof -
  show "IsFin h = fin" "GetOpCode h = opCode"
    by (simp_all add: h_def IsFin_def GetOpCode_def header_octets_def op_code_byte)
  show m: "IsMasked h = (key \<noteq> 0)"
    by (simp add: h_def IsMasked_def header_octets_def length_code_bits)
  show "Header_GetSize h = length (header_octets io fin opCode len key)"
    by (simp add: Header_GetSize_def m) (simp add: h_def header_octets_def GetPayloadLenghtSize_def length_code_bits
      length_code_is length_length_octets key_octets_def)
qed

lemma header_read_numbers:
  fixes h and fin and opCode and len and key and rest
  assumes len: "len < 2 ^ 64" and key: "0 \<le> key" "key < 2 ^ 32"
  defines "h \<equiv> header_octets io fin opCode len key @ rest"
  shows "GetPayloadLength io h = len" "GetMask io h = key"
proof -
  obtain b c r where h: "h = b # c # length_octets io len @ r" and r: "r = key_octets io key @ rest"
    and c: "c AND 0x7F = length_code len"
    by (simp add: h_def header_octets_def length_code_bits)
  have "get2 io h 2 = int len" if "126 \<le> len" "len < 0xFFFF"
    using that get2_set2 [of "int len" r] get2_append_right [of io "[b, c]" "set2 io (int len) @ r" 0]
    by (simp add: h length_octets_def numeral_2_eq_2)
  moreover have "get8 io h 2 = int len" if "0xFFFF \<le> len"
    using that get8_set8 [of "int len"] len length_set8 [of "int len"]
    by (simp add: h length_octets_def get8_def set8_def)
  ultimately show "GetPayloadLength io h = len"
    using unat_length_code [of len] c h by (auto simp: GetPayloadLength_def Let_def length_code_is)
  have "1 + GetPayloadLenghtSize h = length (b # c # length_octets io len)"
    by (simp add: h GetPayloadLenghtSize_def c length_code_is length_length_octets)
  moreover have "get4 io h (length (b # c # length_octets io len) + 0) = get4 io r 0"
    unfolding h using get_shift(2) [of io "b # c # length_octets io len" r 0] by simp
  ultimately have "IsMasked h \<Longrightarrow> GetMask io h = get4 io r 0"
    by (simp add: GetMask_def)
  moreover have "get4 io (set4 io key @ rest) 0 = key"
    using get4_dword [of "word_of_int key" rest] key by (simp add: uint_word_of_int)
  ultimately show "GetMask io h = key"
    using header_read(3) [of fin opCode len key rest] by (auto simp: GetMask_def h_def [symmetric] r key_octets_def)
qed

end

section \<open>What a frame holds\<close>

lemma length_xor_mask [simp]: "length (xor_mask key pos d) = length d"
  by (induction key pos d rule: xor_mask.induct) simp_all

lemma xor_mask_append: "xor_mask key pos (a @ b) = xor_mask key pos a @ xor_mask key (pos + length a) b"
  by (induction key pos a rule: xor_mask.induct) simp_all

lemma xor_mask_twice [simp]: "xor_mask key pos (xor_mask key pos d) = d"
  by (induction key pos d rule: xor_mask.induct) (simp_all add: xor.assoc)

text \<open>A frame for \<open>sz\<close> octets of payload of which \<open>x\<close> is filled in.\<close>

definition wire_key :: "medkit \<Rightarrow> byte list \<Rightarrow> bool \<Rightarrow> int" where
  "wire_key io rnd masked = (if masked then get4 io (frame_key io rnd masked) 0 else 0)"

definition on_wire :: "medkit \<Rightarrow> byte list \<Rightarrow> bool \<Rightarrow> nat \<Rightarrow> byte list \<Rightarrow> byte list" where
  "on_wire io rnd masked pos d = (if masked then xor_mask (frame_key io rnd masked) pos d else d)"

definition filled :: "medkit \<Rightarrow> byte list \<Rightarrow> bool \<Rightarrow> OpCode \<Rightarrow> nat \<Rightarrow> bool \<Rightarrow> byte list \<Rightarrow> WsFrame" where
  "filled io rnd fin opCode sz masked x =
    (let h = header_octets io fin opCode sz (wire_key io rnd masked) in
     \<lparr>f_data = h @ on_wire io rnd masked 0 x @ replicate (sz - length x) 0, f_size = sz + length h,
      f_length = length h + length x, f_headerSize = length h, f_masked = masked, f_mask = frame_key io rnd masked\<rparr>)"

lemma length_on_wire [simp]: "length (on_wire io rnd masked pos d) = length d"
  by (simp add: on_wire_def)

lemma on_wire_append: "on_wire io rnd masked pos (a @ b) = on_wire io rnd masked pos a @ on_wire io rnd masked (pos + length a) b"
  by (simp add: on_wire_def xor_mask_append)

lemma Append_filled:
  assumes "length x + length d \<le> sz"
  shows "Frame_Append d (filled io rnd fin opCode sz masked x) = (True, filled io rnd fin opCode sz masked (x @ d))"
proof -
  let ?h = "header_octets io fin opCode sz (wire_key io rnd masked) @ on_wire io rnd masked 0 x"
  have "overwrite (length ?h) (on_wire io rnd masked (length x) d) (?h @ replicate (sz - length x) 0)
      = ?h @ on_wire io rnd masked (length x) d @ replicate (sz - length (x @ d)) 0"
    unfolding overwrite_after by simp
  with assms show ?thesis
    by (cases masked) (simp_all add: Frame_Append_def filled_def Let_def on_wire_append, simp_all add: on_wire_def)
qed

context medkit_frames
begin

lemma Frame_new_filled: "Frame_new io rnd fin opCode None sz masked = filled io rnd fin opCode sz masked []"
proof -
  let ?h = "header_octets io fin opCode sz (wire_key io rnd masked)"
  obtain z where h: "Header_new io fin opCode sz (wire_key io rnd masked) = ?h @ z"
    using Header_new_octets by blast
  have n: "Header_GetSize (?h @ z) = length ?h"
    by (rule header_read(4))
  have o: "overwrite 0 ?h (replicate (sz + length ?h) 0) = ?h @ replicate sz 0"
    by (simp add: overwrite_def)
  show ?thesis
    unfolding Frame_new_def Let_def wire_key_def [symmetric] h n
    by (simp add: filled_def on_wire_def o Let_def)
qed

lemma Frame_new_whole:
  "Frame_new io rnd fin opCode (Some d) (length d) masked = filled io rnd fin opCode (length d) masked d"
  using Append_filled [of "[]" d "length d" io rnd fin opCode masked] Frame_new_filled [of rnd fin opCode "length d" masked]
  by (simp add: Frame_new_def Let_def)

lemma frame_key_length: "length rnd = 4 \<Longrightarrow> length (frame_key io rnd masked) = 4"
  by (simp add: frame_key_def)

lemma wire_key_bounds: "0 \<le> wire_key io rnd masked" "wire_key io rnd masked < 2 ^ 32"
  by (simp_all add: wire_key_def get4_bounds [simplified])

lemma wire_key_zero: "length rnd = 4 \<Longrightarrow> wire_key io rnd masked = 0 \<longleftrightarrow> \<not> masked"
  using get4_pos [of "rnd[0 := 1]" 0] by (auto simp: wire_key_def frame_key_def)

end

section \<open>The parser of the header\<close>

lemma GetSize_bounds: "2 \<le> Header_GetSize h" "Header_GetSize h \<le> 14"
  by (simp_all add: Header_GetSize_def GetPayloadLenghtSize_def Let_def)

lemma GetSize_second: "h ! 1 = h' ! 1 \<Longrightarrow> Header_GetSize h = Header_GetSize h'"
  by (simp add: Header_GetSize_def GetPayloadLenghtSize_def IsMasked_def)

text \<open>The front of the octets that belongs to the header, and whether it is all of it.\<close>

definition header_part :: "byte list \<Rightarrow> byte list" where
  "header_part xs = (if length xs < 2 then xs else take (Header_GetSize xs) xs)"

definition complete :: "byte list \<Rightarrow> bool" where
  "complete xs = (2 \<le> length xs \<and> Header_GetSize xs \<le> length xs)"

definition parser_of :: "byte list \<Rightarrow> Parser" where
  "parser_of pre = \<lparr>p_header = Some (pre @ replicate (14 - length pre) 0), p_len = length pre\<rparr>"

definition seen :: "Parser \<Rightarrow> byte list \<Rightarrow> bool" where
  "seen p pre = (p_header p = None \<and> pre = [] \<or> p = parser_of pre)"

lemma GetSize_append: "2 \<le> length xs \<Longrightarrow> Header_GetSize (xs @ ys) = Header_GetSize xs"
  by (rule GetSize_second) (simp add: nth_append)

lemma GetSize_part [simp]: "2 \<le> length xs \<Longrightarrow> Header_GetSize (header_part xs) = Header_GetSize xs"
  using GetSize_bounds(1) [of xs] by (intro GetSize_second) (auto simp: header_part_def)

lemma header_part_incomplete: "\<not> complete xs \<Longrightarrow> header_part xs = xs"
  by (auto simp: complete_def header_part_def)

lemma header_part_complete:
  assumes "complete xs"
  shows "length (header_part xs) = Header_GetSize xs" "header_part (xs @ ys) = header_part xs" "complete (xs @ ys)"
  using assms by (auto simp: complete_def header_part_def GetSize_append)

lemma copy_missing_pad:
  assumes "length pre + m \<le> 14"
  shows "copy_missing m data (pre @ replicate (14 - length pre) 0, length pre)
    = (drop m data, (pre @ take m data) @ replicate (14 - length (pre @ take m data)) 0, length (pre @ take m data))"
  using assms overwrite_after [of pre "take m data" "replicate (14 - length pre) 0"]
  by (auto simp: copy_missing_def Let_def min_def)

lemma Parse_seen:
  assumes p: "seen p pre" and i: "\<not> complete pre"
  shows "Parser_Parse data p = (length (header_part (pre @ data)) - length pre, parser_of (header_part (pre @ data)))"
proof -
  have start: "(case p_header p of None \<Rightarrow> (replicate 14 0, 0) | Some h \<Rightarrow> (h, p_len p))
      = (pre @ replicate (14 - length pre) 0, length pre)"
    using p by (auto simp: seen_def parser_of_def)
  define pre' where "pre' = (if length pre < 2 then pre @ take (2 - length pre) data else pre)"
  define rest where "rest = (if length pre < 2 then drop (2 - length pre) data else data)"
  have split: "pre @ data = pre' @ rest"
    by (simp add: pre'_def rest_def)
  have two: "rest \<noteq> [] \<Longrightarrow> 2 \<le> length pre'"
    by (auto simp: pre'_def rest_def split: if_splits)
  have len: "length pre \<le> length pre'"
    by (simp add: pre'_def)
  have first: "(if length pre < 2 then copy_missing (2 - length pre) data (pre @ replicate (14 - length pre) 0, length pre)
        else (data, pre @ replicate (14 - length pre) 0, length pre))
      = (rest, pre' @ replicate (14 - length pre') 0, length pre')"
    using copy_missing_pad [of pre "2 - length pre" data] by (simp add: pre'_def rest_def)
  show ?thesis
  proof (cases "rest = []")
    case True
    have "header_part pre' = pre'"
    proof (cases "length pre < 2")
      case True
      then have "length pre' \<le> 2"
        by (simp add: pre'_def)
      then show ?thesis
        using GetSize_bounds(1) [of pre'] by (simp add: header_part_def)
    next
      case False
      with i show ?thesis
        by (simp add: pre'_def header_part_incomplete)
    qed
    moreover have "length data = length pre' - length pre"
      using True arg_cong [OF split, of length] by simp
    ultimately show ?thesis
      using True split
      by (simp add: Parser_Parse_def start first parser_of_def Let_def del: replicate_Suc)
  next
    case False
    let ?n = "Header_GetSize pre'"
    have n: "Header_GetSize (pre' @ zs) = ?n" for zs
      using two [OF False] by (rule GetSize_append)
    have "length pre' \<le> ?n"
      using i GetSize_bounds(1) [of pre'] by (auto simp: pre'_def complete_def)
    then have part: "header_part (pre @ data) = pre' @ take (?n - length pre') rest"
      using two [OF False] by (simp add: split header_part_def n)
    have "copy_missing (?n - length pre') rest (pre' @ replicate (14 - length pre') 0, length pre')
        = (drop (?n - length pre') rest, header_part (pre @ data) @ replicate (14 - length (header_part (pre @ data))) 0,
           length (header_part (pre @ data)))"
      unfolding part using \<open>length pre' \<le> ?n\<close> GetSize_bounds(2) [of pre'] by (intro copy_missing_pad) simp
    moreover have "length data - length (drop (?n - length pre') rest) = length (header_part (pre @ data)) - length pre"
      using arg_cong [OF split, of length] len by (simp add: part)
    ultimately show ?thesis
      using False by (simp add: Parser_Parse_def start first n parser_of_def Let_def)
  qed
qed

lemma IsParsed_part:
  "IsParsed (parser_of (header_part xs)) = complete xs"
proof (cases "2 \<le> length xs")
  case True
  then have "2 \<le> length (header_part xs)"
    using GetSize_bounds(1) [of xs] by (simp add: header_part_def)
  from GetSize_append [OF this] True
  have "IsParsed (parser_of (header_part xs)) = (Header_GetSize xs = length (header_part xs))"
    by (simp add: IsParsed_def parser_of_def)
  with True show ?thesis
    by (auto simp: complete_def header_part_def)
next
  case False
  then have "Header_GetSize (xs @ replicate (14 - length xs) 0) = 2"
    by (simp add: Header_GetSize_def GetPayloadLenghtSize_def IsMasked_def nth_append nth_Cons split: nat.splits)
  with False show ?thesis
    by (simp add: IsParsed_def parser_of_def complete_def header_part_def)
qed

end
