(* ===== verification/WebSocketStream.thy ===== *)
theory WebSocketStream
  imports WebSocket
begin

text \<open>
  What reaches the listener of a WebSocket connection: the octets of the peer may be cut anywhere, the loop of
  \<open>ProcessData\<close> always ends, and the messages that one side sends are those the other side hears.
\<close>

section \<open>The state between two turns of the loop\<close>

definition between :: "medkit \<Rightarrow> WebSocketConnection \<Rightarrow> bool" where
  "between io c = (case ws_header c of
     None \<Rightarrow> \<exists>pre. seen (ws_parser c) pre \<and> \<not> complete pre
   | Some h \<Rightarrow> p_header (ws_parser c) = None \<and> ws_framePos c \<le> GetPayloadLength io h
       \<and> (GetOpCode h = Ping \<longrightarrow> (\<exists>rnd x. length x = ws_framePos c
            \<and> ws_pong c = Some (filled io rnd True Pong (GetPayloadLength io h) (ws_client c) x))))"

definition ws_inv :: "medkit \<Rightarrow> WebSocketConnection \<Rightarrow> bool" where
  "ws_inv io c = (ws_closeRequested c \<or> between io c)"

text \<open>The calls with the data octet by octet: where the stream was cut does not show.\<close>

fun flat1 :: "ws_call \<Rightarrow> ws_call list" where
  "flat1 (onMessageData d) = map (\<lambda>b. onMessageData [b]) d"
| "flat1 e = [e]"

definition flat :: "ws_call list \<Rightarrow> ws_call list" where
  "flat es = concat (map flat1 es)"

lemma flat_append [simp]: "flat (a @ b) = flat a @ flat b" "flat [] = []"
  by (simp_all add: flat_def)

definition work :: "byte list \<Rightarrow> WebSocketConnection \<Rightarrow> nat" where
  "work d c = 2 * length d + (if ws_header c = None then 0 else 1)"

definition padded_header :: "byte list \<Rightarrow> WebSocketFrameHeader" where
  "padded_header xs = header_part xs @ replicate (14 - length (header_part xs)) 0"

definition with_header :: "byte list \<Rightarrow> WebSocketConnection \<Rightarrow> WebSocketConnection" where
  "with_header xs c = c\<lparr>ws_parser := \<lparr>p_header = None, p_len = length (header_part xs)\<rparr>, ws_framePos := 0,
     ws_header := Some (padded_header xs)\<rparr>"

lemma read_frame_header_seen:
  assumes "seen (ws_parser c) pre" "\<not> complete pre"
  shows "read_frame_header io rng data c =
    (if complete (pre @ data)
     then open_frame io rng (padded_header (pre @ data)) (drop (length (header_part (pre @ data)) - length pre) data)
            (with_header (pre @ data) c)
     else Turn [] [] True (c\<lparr>ws_parser := parser_of (pre @ data)\<rparr>))"
  using Parse_seen [OF assms, of data] IsParsed_part [of "pre @ data"] header_part_incomplete [of "pre @ data"]
  by (simp add: read_frame_header_def ConsumeHeader_def parser_of_def padded_header_def with_header_def)

definition unmasked :: "medkit \<Rightarrow> WebSocketFrameHeader \<Rightarrow> nat \<Rightarrow> byte list \<Rightarrow> byte list" where
  "unmasked io h pos y = (if IsMasked h then xor_mask (set4 io (GetMask io h)) pos y else y)"

definition after_data :: "medkit \<Rightarrow> WebSocketFrameHeader \<Rightarrow> ws_call list \<Rightarrow> byte list \<Rightarrow> WebSocketConnection \<Rightarrow> ws_turn option" where
  "after_data io h e rest c =
    (if ws_framePos c = GetPayloadLength io h
     then do { (e', c) \<leftarrow> end_frame h c; Some (Turn (e @ e') rest True c) }
     else Some (Turn e rest True c))"

lemma length_unmasked [simp]: "length (unmasked io h pos y) = length y"
  by (simp add: unmasked_def)

lemma unmasked_append: "unmasked io h pos (a @ b) = unmasked io h pos a @ unmasked io h (pos + length a) b"
  by (simp add: unmasked_def xor_mask_append)

lemma frame_turn_payload:
  assumes "ws_header c = Some h" "len = min (GetPayloadLength io h - ws_framePos c) (length d)"
    and "frame_data h (unmasked io h (ws_framePos c) (take len d)) c = Some (e, c')" "ws_framePos c' = ws_framePos c"
  shows "frame_turn io rng d c = after_data io h e (drop len d) (c'\<lparr>ws_framePos := ws_framePos c + len\<rparr>)"
  using assms(1,3,4)
  by (simp add: frame_turn_def read_payload_def Let_def after_data_def flip: assms(2) unmasked_def)

lemma after_data_calls:
  assumes "after_data io h e rest c = Some (Turn e' rest' on c')"
  shows "on \<and> (\<exists>f. e' = e @ f \<and> (\<forall>g. after_data io h g rest c = Some (Turn (g @ f) rest' on c')))"
  using assms by (auto simp: after_data_def bind_eq_Some_conv split: if_splits)

context medkit_frames
begin

lemma open_frame_shape:
  assumes "open_frame io rng h data c = Turn e rest on c'"
  shows "rest = data" "open_frame io rng h data' c = Turn e data' on c'" "\<not> on \<Longrightarrow> ws_closeRequested c'"
    "on \<Longrightarrow> ws_header c' = ws_header c \<and> ws_framePos c' = ws_framePos c \<and> ws_parser c' = ws_parser c
      \<and> ws_closeRequested c' = ws_closeRequested c \<and> ws_client c' = ws_client c"
    "on \<Longrightarrow> GetOpCode h = Ping \<Longrightarrow> \<exists>rnd. ws_pong c' = Some (filled io rnd True Pong (GetPayloadLength io h) (ws_client c') [])"
  using assms by (auto simp: open_frame_def refuse_def Frame_new_filled split: if_splits OpCode.splits)

lemma frame_data_shape:
  assumes "between io c" "ws_header c = Some h" and n: "ws_framePos c + length part \<le> GetPayloadLength io h"
  obtains e c' where "frame_data h part c = Some (e, c')"
    and "between io (c'\<lparr>ws_framePos := ws_framePos c + length part\<rparr>)"
    and "ws_header c' = Some h" "ws_framePos c' = ws_framePos c" "ws_closeRequested c' = ws_closeRequested c"
    and "GetOpCode h = Ping \<Longrightarrow> ws_pong c' \<noteq> None"
proof (cases "GetOpCode h = Ping")
  case True
  with assms obtain rnd x where x: "length x = ws_framePos c"
    "ws_pong c = Some (filled io rnd True Pong (GetPayloadLength io h) (ws_client c) x)"
    by (auto simp: between_def)
  let ?f = "filled io rnd True Pong (GetPayloadLength io h) (ws_client c) (x @ part)"
  have "frame_data h part c = Some ([], c\<lparr>ws_pong := Some ?f\<rparr>)"
    using True x n by (simp add: frame_data_def Append_filled)
  moreover have "between io (c\<lparr>ws_pong := Some ?f, ws_framePos := ws_framePos c + length part\<rparr>)"
    unfolding between_def using assms x by (simp add: between_def) (metis length_append)
  ultimately show ?thesis
    using assms that [of "[]" "c\<lparr>ws_pong := Some ?f\<rparr>"] by simp
next
  case False
  then have "\<exists>e. frame_data h part c = Some (e, c)"
    by (auto simp: frame_data_def split: OpCode.splits)
  moreover have "between io (c\<lparr>ws_framePos := ws_framePos c + length part\<rparr>)"
    using assms False by (simp add: between_def)
  ultimately show ?thesis
    using assms that False by auto
qed

lemma end_frame_shape:
  assumes "ws_header c = Some h" "p_header (ws_parser c) = None" "GetOpCode h = Ping \<Longrightarrow> ws_pong c \<noteq> None"
  obtains e c' where "end_frame h c = Some (e, c')" "ws_header c' = None" "between io c'"
    "ws_closeRequested c' = ws_closeRequested c"
proof -
  have p: "seen (ws_parser c) [] \<and> \<not> complete []"
    using assms(2) by (simp add: seen_def complete_def)
  have "\<exists>e c'. end_frame h c = Some (e, c') \<and> ws_header c' = None \<and> ws_parser c' = ws_parser c
    \<and> ws_closeRequested c' = ws_closeRequested c"
    using assms(3) by (auto simp: end_frame_def split: OpCode.splits option.splits)
  with p that show ?thesis
    unfolding between_def by fastforce
qed

lemma payload_turn:
  assumes b: "between io c" "ws_header c = Some h" and d: "d \<noteq> []" and c: "\<not> ws_closeRequested c"
  shows "\<exists>e r c'. frame_turn io rng d c = Some (Turn e r True c') \<and> between io c' \<and> \<not> ws_closeRequested c'
    \<and> work r c' < work d c"
proof -
  define len where "len = min (GetPayloadLength io h - ws_framePos c) (length d)"
  define part where "part = unmasked io h (ws_framePos c) (take len d)"
  have p: "length part = len" "ws_framePos c + length part \<le> GetPayloadLength io h"
    using b by (auto simp: part_def len_def between_def)
  from frame_data_shape [OF b p(2)] obtain e c' where e: "frame_data h part c = Some (e, c')"
    "between io (c'\<lparr>ws_framePos := ws_framePos c + length part\<rparr>)"
    "ws_header c' = Some h" "ws_framePos c' = ws_framePos c" "ws_closeRequested c' = ws_closeRequested c"
    "GetOpCode h = Ping \<Longrightarrow> ws_pong c' \<noteq> None" by blast
  let ?c = "c'\<lparr>ws_framePos := ws_framePos c + len\<rparr>"
  have turn: "frame_turn io rng d c = after_data io h e (drop len d) ?c"
    using b e(1,4) by (intro frame_turn_payload) (simp_all add: len_def part_def)
  show ?thesis
  proof (cases "ws_framePos c + len = GetPayloadLength io h")
    case True
    have "p_header (ws_parser ?c) = None"
      using e by (simp add: between_def)
    with end_frame_shape [of ?c h] e obtain e' c'' where
      "end_frame h ?c = Some (e', c'')" "ws_header c'' = None" "between io c''" "ws_closeRequested c'' = ws_closeRequested ?c"
      by auto
    with True turn c e b show ?thesis
      by (auto simp: work_def after_data_def)
  next
    case False
    with b d have "len \<noteq> 0" "len \<le> length d"
      by (auto simp: between_def len_def)
    with False turn c e b p show ?thesis
      by (auto simp: work_def after_data_def)
  qed
qed

lemma header_turn:
  assumes b: "between io c" "ws_header c = None" and d: "d \<noteq> []" and c: "\<not> ws_closeRequested c"
  shows "\<exists>e r on c'. frame_turn io rng d c = Some (Turn e r on c')
    \<and> (if on then between io c' \<and> \<not> ws_closeRequested c' \<and> work r c' < work d c else ws_closeRequested c')"
proof -
  from b obtain pre where pre: "seen (ws_parser c) pre" "\<not> complete pre"
    by (auto simp: between_def)
  show ?thesis
  proof (cases "complete (pre @ d)")
    case True
    define n where "n = length (header_part (pre @ d)) - length pre"
    obtain e r on c' where o: "open_frame io rng (padded_header (pre @ d)) (drop n d) (with_header (pre @ d) c) = Turn e r on c'"
      by (metis ws_turn.exhaust)
    have turn: "frame_turn io rng d c = Some (Turn e r on c')"
      using b True o by (simp add: frame_turn_def read_frame_header_seen [OF pre] n_def)
    have "n \<noteq> 0"
      using True pre(2) header_part_complete(1) [OF True] GetSize_append [of pre d] GetSize_bounds(1) [of "pre @ d"]
      by (auto simp: n_def complete_def)
    with d have w: "Suc (2 * (length d - n)) < 2 * length d"
      by (cases d) auto
    note s = open_frame_shape [OF o]
    have "between io c'" if on
      using s(4) [OF that] s(5) [OF that] that by (auto simp: between_def with_header_def)
    with turn s(1,3,4) b c w show ?thesis
      by (auto simp: work_def with_header_def)
  next
    case False
    with b c d pre have "frame_turn io rng d c = Some (Turn [] [] True (c\<lparr>ws_parser := parser_of (pre @ d)\<rparr>))"
      by (simp add: frame_turn_def read_frame_header_seen [OF pre])
    with False b c d show ?thesis
      by (auto simp: between_def work_def seen_def)
  qed
qed

lemma frame_turn_shape:
  assumes "between io c" "\<not> ws_closeRequested c" "d \<noteq> []"
  obtains e r on c' where "frame_turn io rng d c = Some (Turn e r on c')"
    "on \<Longrightarrow> between io c' \<and> \<not> ws_closeRequested c' \<and> work r c' < work d c" "\<not> on \<Longrightarrow> ws_closeRequested c'"
  using payload_turn [of c _ d] header_turn [of c d] assms by (cases "ws_header c") (fastforce split: if_splits)+

section \<open>The stream may be cut anywhere\<close>

lemma frame_data_append:
  assumes "between io c" "ws_header c = Some h" and n: "ws_framePos c + length (p @ q) \<le> GetPayloadLength io h"
    and "frame_data h p c = Some (e, c')"
  shows "\<exists>e2 e3 c''. frame_data h q (c'\<lparr>ws_framePos := i\<rparr>) = Some (e2, c''\<lparr>ws_framePos := i\<rparr>)
    \<and> frame_data h (p @ q) c = Some (e3, c'') \<and> flat e3 = flat e @ flat e2 \<and> ws_framePos c'' = ws_framePos c"
proof (cases "GetOpCode h = Ping")
  case True
  with assms obtain rnd x where x: "length x = ws_framePos c"
    "ws_pong c = Some (filled io rnd True Pong (GetPayloadLength io h) (ws_client c) x)"
    by (auto simp: between_def)
  let ?f = "\<lambda>x. filled io rnd True Pong (GetPayloadLength io h) (ws_client c) x"
  have "frame_data h p c = Some ([], c\<lparr>ws_pong := Some (?f (x @ p))\<rparr>)"
    "frame_data h (p @ q) c = Some ([], c\<lparr>ws_pong := Some (?f (x @ p @ q))\<rparr>)"
    "frame_data h q (c\<lparr>ws_pong := Some (?f (x @ p)), ws_framePos := i\<rparr>)
      = Some ([], c\<lparr>ws_pong := Some (?f (x @ p @ q)), ws_framePos := i\<rparr>)"
    using True x n by (simp_all add: frame_data_def Append_filled)
  with assms(4) show ?thesis
    by auto
next
  case False
  with assms(4) show ?thesis
    by (auto simp: frame_data_def tell_def flat_def split: OpCode.splits)
qed

lemma payload_append:
  assumes b: "between io c" "ws_header c = Some h" and d: "d \<noteq> []" and x: "x \<noteq> []" and c: "\<not> ws_closeRequested c"
    and t: "frame_turn io rng d c = Some (Turn e r on c')"
  shows "frame_turn io rng (d @ x) c = Some (Turn e (r @ x) on c')
    \<or> r = [] \<and> on \<and> (\<exists>e1 e2 r2 on2 c2. frame_turn io rng x c' = Some (Turn e2 r2 on2 c2)
        \<and> frame_turn io rng (d @ x) c = Some (Turn e1 r2 on2 c2) \<and> flat e1 = flat e @ flat e2)"
proof (cases "GetPayloadLength io h - ws_framePos c \<le> length d")
  case True
  with b t have "frame_turn io rng (d @ x) c = Some (Turn e (r @ x) on c')"
    by (auto simp: frame_turn_def read_payload_def Let_def min_absorb1 bind_eq_Some_conv split: if_splits)
  then show ?thesis ..
next
  case False
  let ?i = "ws_framePos c + length d"
  define m where "m = min (GetPayloadLength io h - ?i) (length x)"
  have m: "min (GetPayloadLength io h - ws_framePos c) (length (d @ x)) = length d + m"
    "min (GetPayloadLength io h - ws_framePos c) (length d) = length d" "?i \<noteq> GetPayloadLength io h"
    using False by (auto simp: m_def)
  let ?p = "unmasked io h (ws_framePos c) d" and ?q = "unmasked io h ?i (take m x)"
  have pq: "unmasked io h (ws_framePos c) (take (length d + m) (d @ x)) = ?p @ ?q"
    by (simp add: unmasked_append)
  have n: "ws_framePos c + length (?p @ ?q) \<le> GetPayloadLength io h"
    using False by (simp add: m_def)
  then have "ws_framePos c + length ?p \<le> GetPayloadLength io h"
    by simp
  from frame_data_shape [OF b this] obtain e0 c0 where f: "frame_data h ?p c = Some (e0, c0)"
    "between io (c0\<lparr>ws_framePos := ws_framePos c + length ?p\<rparr>)"
    "ws_header c0 = Some h" "ws_framePos c0 = ws_framePos c" "ws_closeRequested c0 = ws_closeRequested c" by metis
  let ?c = "c0\<lparr>ws_framePos := ?i\<rparr>"
  from frame_data_append [OF b n f(1), of ?i] obtain e2 e3 c3 where g: "frame_data h ?q ?c = Some (e2, c3\<lparr>ws_framePos := ?i\<rparr>)"
    "frame_data h (?p @ ?q) c = Some (e3, c3)" "flat e3 = flat e0 @ flat e2" "ws_framePos c3 = ws_framePos c"
    by blast
  have "frame_turn io rng d c = after_data io h e0 (drop (length d) d) ?c"
    using b f m by (intro frame_turn_payload) simp_all
  with t m have t1: "e = e0" "r = []" "on" "c' = ?c"
    by (auto simp: after_data_def)
  have t2: "frame_turn io rng x ?c = after_data io h e2 (drop m x) (c3\<lparr>ws_framePos := ?i + m\<rparr>)"
    using frame_turn_payload [of ?c h m io x e2 "c3\<lparr>ws_framePos := ?i\<rparr>"] f g by (simp add: m_def)
  have t3: "frame_turn io rng (d @ x) c = after_data io h e3 (drop m x) (c3\<lparr>ws_framePos := ?i + m\<rparr>)"
    using frame_turn_payload [of c h "length d + m" io "d @ x" e3 c3] b g m pq by (simp add: add.assoc)
  obtain e2' r2 c2 where "frame_turn io rng x ?c = Some (Turn e2' r2 True c2)"
    using payload_turn [of ?c h x rng] f x c by auto
  with t2 t3 after_data_calls [of io h e2 "drop m x" "c3\<lparr>ws_framePos := ?i + m\<rparr>" e2' r2 True c2] g t1
  show ?thesis
    by auto
qed

lemma header_append:
  assumes b: "between io c" "ws_header c = None" and x: "x \<noteq> []" and c: "\<not> ws_closeRequested c"
    and t: "frame_turn io rng d c = Some (Turn e r on c')"
  shows "frame_turn io rng (d @ x) c = Some (Turn e (r @ x) on c')
    \<or> r = [] \<and> on \<and> (\<exists>e1 e2 r2 on2 c2. frame_turn io rng x c' = Some (Turn e2 r2 on2 c2)
        \<and> frame_turn io rng (d @ x) c = Some (Turn e1 r2 on2 c2) \<and> flat e1 = flat e @ flat e2)"
proof -
  from b obtain pre where pre: "seen (ws_parser c) pre" "\<not> complete pre"
    by (auto simp: between_def)
  show ?thesis
  proof (cases "complete (pre @ d)")
    case True
    let ?n = "length (header_part (pre @ d)) - length pre"
    note more = header_part_complete(2,3) [OF True, of x]
    have "with_header (pre @ d @ x) c = with_header (pre @ d) c" "padded_header (pre @ d @ x) = padded_header (pre @ d)"
      using more(1) by (simp_all add: with_header_def padded_header_def)
    moreover have "drop ?n (d @ x) = drop ?n d @ x"
      by (simp add: header_part_def)
    moreover have o: "open_frame io rng (padded_header (pre @ d)) (drop ?n d) (with_header (pre @ d) c) = Turn e r on c'"
      using t b True by (simp add: frame_turn_def read_frame_header_seen [OF pre])
    ultimately have "frame_turn io rng (d @ x) c = Some (Turn e (r @ x) on c')"
      using b more open_frame_shape(1,2) [OF o] by (simp add: frame_turn_def read_frame_header_seen [OF pre])
    then show ?thesis ..
  next
    case False
    let ?c = "c\<lparr>ws_parser := parser_of (pre @ d)\<rparr>"
    have t1: "e = []" "r = []" "on" "c' = ?c"
      using t b False by (simp_all add: frame_turn_def read_frame_header_seen [OF pre])
    have "seen (ws_parser ?c) (pre @ d)"
      by (simp add: seen_def)
    note again = read_frame_header_seen [OF this False, of io rng x]
    have "length (pre @ d) \<le> length (header_part (pre @ d @ x))" if "complete (pre @ d @ x)"
      using that False GetSize_append [of "pre @ d" x] GetSize_bounds(1) [of "pre @ d @ x"]
        header_part_complete(1) [OF that] by (cases "2 \<le> length (pre @ d)") (auto simp: complete_def)
    then have "drop (length (header_part (pre @ d @ x)) - length pre) (d @ x)
        = drop (length (header_part (pre @ d @ x)) - length (pre @ d)) x" if "complete (pre @ d @ x)"
      using that by simp
    then have joined: "frame_turn io rng (d @ x) c = frame_turn io rng x ?c"
      using b again by (simp add: frame_turn_def read_frame_header_seen [OF pre] with_header_def)
    have "between io ?c"
      using b False by (auto simp: between_def seen_def)
    moreover have "\<not> ws_closeRequested ?c"
      using c by simp
    ultimately obtain e2 r2 on2 c2 where "frame_turn io rng x ?c = Some (Turn e2 r2 on2 c2)"
      using x by (rule frame_turn_shape)
    then show ?thesis
      using t1 joined by auto
  qed
qed

lemma turn_append:
  assumes "between io c" "\<not> ws_closeRequested c" "d \<noteq> []" "x \<noteq> []" "frame_turn io rng d c = Some (Turn e r on c')"
  shows "frame_turn io rng (d @ x) c = Some (Turn e (r @ x) on c')
    \<or> r = [] \<and> on \<and> (\<exists>e1 e2 r2 on2 c2. frame_turn io rng x c' = Some (Turn e2 r2 on2 c2)
        \<and> frame_turn io rng (d @ x) c = Some (Turn e1 r2 on2 c2) \<and> flat e1 = flat e @ flat e2)"
  using payload_append [of c _ d x rng e r on c'] header_append [of c x rng d e r on c'] assms
  by (cases "ws_header c") blast+

lemma process_returns:
  assumes "between io c" "\<not> ws_closeRequested c"
  shows "\<exists>e c'. process_frames io rng d c = Some (e, c') \<and> ws_inv io c'"
  using assms
proof (induction "work d c" arbitrary: d c rule: less_induct)
  case less
  show ?case
  proof (cases "d = []")
    case True
    with less.prems show ?thesis
      by (subst process_frames.simps) (simp add: ws_inv_def)
  next
    case False
    with less.prems obtain e r on c' where t: "frame_turn io rng d c = Some (Turn e r on c')"
      "on \<Longrightarrow> between io c' \<and> \<not> ws_closeRequested c' \<and> work r c' < work d c" "\<not> on \<Longrightarrow> ws_closeRequested c'"
      using frame_turn_shape [of c d rng] by metis
    show ?thesis
    proof (cases on)
      case True
      with t less.hyps [of r c'] obtain e' c'' where "process_frames io rng r c' = Some (e', c'')" "ws_inv io c''"
        by blast
      with True t False show ?thesis
        by (subst process_frames.simps) simp
    next
      case on: False
      with t False show ?thesis
        by (subst process_frames.simps) (simp add: ws_inv_def)
    qed
  qed
qed

lemma process_append:
  assumes "between io c" "\<not> ws_closeRequested c" "process_frames io rng a c = Some (e, c')"
  shows "if ws_closeRequested c' then process_frames io rng (a @ b) c = Some (e, c')
    else \<exists>e1 e2 c2. process_frames io rng b c' = Some (e2, c2) \<and> process_frames io rng (a @ b) c = Some (e1, c2)
      \<and> flat e1 = flat e @ flat e2"
  using assms
proof (induction "work a c" arbitrary: a c e rule: less_induct)
  case less
  note p = less.prems(3)
  show ?case
  proof (cases "a = [] \<or> b = []")
    case True
    with p less.prems process_returns [of c rng b] show ?thesis
      by (auto simp: process_frames.simps [of io rng "[]"])
  next
    case False
    with less.prems obtain e0 r on c1 where t: "frame_turn io rng a c = Some (Turn e0 r on c1)"
      "on \<Longrightarrow> between io c1 \<and> \<not> ws_closeRequested c1 \<and> work r c1 < work a c" "\<not> on \<Longrightarrow> ws_closeRequested c1"
      using frame_turn_shape [of c a rng] by metis
    from False t(1) p have a: "if on then \<exists>e'. process_frames io rng r c1 = Some (e', c') \<and> e = e0 @ e' else e = e0 \<and> c' = c1"
      by (subst (asm) process_frames.simps) (auto simp: bind_eq_Some_conv split: if_splits)
    from turn_append [OF less.prems(1,2) _ _ t(1), of b] False
    consider (same) "frame_turn io rng (a @ b) c = Some (Turn e0 (r @ b) on c1)"
      | (joined) e1 e2 r2 on2 c2 where "r = []" "on" "frame_turn io rng b c1 = Some (Turn e2 r2 on2 c2)"
        "frame_turn io rng (a @ b) c = Some (Turn e1 r2 on2 c2)" "flat e1 = flat e0 @ flat e2" by blast
    then show ?thesis
    proof cases
      case same
      show ?thesis
      proof (cases on)
        case True
        with a obtain e' where e': "process_frames io rng r c1 = Some (e', c')" "e = e0 @ e'"
          by auto
        from same True False have ab: "process_frames io rng (a @ b) c
            = Option.bind (process_frames io rng (r @ b) c1) (\<lambda>(e', c). Some (e0 @ e', c))"
          by (subst process_frames.simps) simp
        from less.hyps [OF _ _ _ e'(1)] t(2) True show ?thesis
          by (auto simp: ab e'(2) split: if_splits)
      next
        case off: False
        with same t a False show ?thesis
          by (subst process_frames.simps) simp
      qed
    next
      case joined
      from joined a have c': "c' = c1" "e = e0"
        by (auto simp: process_frames.simps [of io rng "[]"])
      have ab: "process_frames io rng (a @ b) c
            = (if on2 then Option.bind (process_frames io rng r2 c2) (\<lambda>(e', c). Some (e1 @ e', c)) else Some (e1, c2))"
        "process_frames io rng b c1
            = (if on2 then Option.bind (process_frames io rng r2 c2) (\<lambda>(e', c). Some (e2 @ e', c)) else Some (e2, c2))"
        using joined False by (subst process_frames.simps, simp)+
      from process_returns [of c1 rng b] t(2) joined(2) obtain e3 c3 where "process_frames io rng b c1 = Some (e3, c3)"
        by auto
      with ab joined(2,5) c' t(2) show ?thesis
        by (cases on2; cases "process_frames io rng r2 c2") auto
    qed
  qed
qed

lemma OnReadable_chunks:
  assumes "between io c" "\<not> ws_closeRequested c"
  shows "\<exists>e e' c'. Ws_OnReadable io rng (map Octets cs) c = Some (e, c') \<and> ProcessData io rng (concat cs) c = Some (e', c')
    \<and> flat e = flat e' \<and> ws_inv io c'"
  using assms
proof (induction cs arbitrary: c)
  case Nil
  then show ?case
    by (simp add: ProcessData_def process_frames.simps [of io rng "[]"] ws_inv_def)
next
  case (Cons d cs)
  from process_returns [OF Cons.prems, of rng d] obtain e c1 where
    d: "process_frames io rng d c = Some (e, c1)" "ws_inv io c1" by blast
  note more = process_append [OF Cons.prems d(1), of "concat cs"]
  show ?case
  proof (cases "ws_closeRequested c1")
    case True
    with d more show ?thesis
      by (simp add: ProcessData_def)
  next
    case False
    with d Cons.IH [of c1] obtain e2 e2' c2 where
      "Ws_OnReadable io rng (map Octets cs) c1 = Some (e2, c2)" "process_frames io rng (concat cs) c1 = Some (e2', c2)"
      "flat e2 = flat e2'" "ws_inv io c2"
      by (auto simp: ws_inv_def ProcessData_def)
    with False d more show ?thesis
      by (auto simp: ProcessData_def)
  qed
qed

end

section \<open>A frame reaches an idle connection\<close>

definition idle :: "WebSocketConnection \<Rightarrow> bool" where
  "idle c = (ws_header c = None \<and> p_header (ws_parser c) = None \<and> \<not> ws_closeRequested c \<and> ws_wsl c)"

lemma on_wire_Nil [simp]: "on_wire io rnd masked pos [] = []"
  by (simp add: on_wire_def)

lemma idle_between: "idle c \<Longrightarrow> between io c"
  by (auto simp: idle_def between_def seen_def complete_def)

definition start_calls :: "OpCode \<Rightarrow> nat \<Rightarrow> ws_call list" where
  "start_calls opCode n = (case opCode of TextFrame \<Rightarrow> [onMessageStart Text n] | BinaryFrame \<Rightarrow> [onMessageStart Binary n] | _ \<Rightarrow> [])"

definition then_calls :: "ws_call list \<Rightarrow> (ws_call list \<times> WebSocketConnection) option \<Rightarrow> (ws_call list \<times> WebSocketConnection) option" where
  "then_calls e r = Option.bind r (\<lambda>(e', c). Some (e @ e', c))"

context medkit_frames
begin

text \<open>The header of a frame is read in one turn.\<close>

lemma header_arrives:
  assumes c: "idle c" and f: "length rnd = 4" "length d < 2 ^ 64"
  obtains h n c1 where "c1 = c\<lparr>ws_parser := \<lparr>p_header = None, p_len = n\<rparr>, ws_framePos := 0, ws_header := Some h\<rparr>"
    and "f_data (filled io rnd fin opCode (length d) masked d) @ rest \<noteq> []"
    and "frame_turn io rng (f_data (filled io rnd fin opCode (length d) masked d) @ rest) c
      = Some (open_frame io rng h (on_wire io rnd masked 0 d @ rest) c1)"
    and "IsFin h = fin" "GetOpCode h = opCode" "IsMasked h = masked" "GetPayloadLength io h = length d"
    and "unmasked io h 0 (on_wire io rnd masked 0 d) = d"
proof -
  let ?k = "wire_key io rnd masked"
  let ?h = "header_octets io fin opCode (length d) ?k"
  let ?w = "on_wire io rnd masked 0 d"
  note read = header_read [of fin opCode "length d" ?k] header_read_numbers [OF f(2) wire_key_bounds, of fin opCode rnd masked]
  have two: "2 \<le> length ?h"
    by (simp add: header_octets_def)
  have part: "header_part (?h @ y) = ?h" "complete (?h @ y)" for y
    using two read(4) [of y] by (simp_all add: header_part_def complete_def)
  define h where "h = padded_header (?h @ ?w @ rest)"
  have h: "h = ?h @ replicate (14 - length ?h) 0"
    by (simp add: h_def padded_header_def part)
  have hr: "IsFin h = fin" "GetOpCode h = opCode" "IsMasked h = masked" "GetPayloadLength io h = length d" "GetMask io h = ?k"
    using read wire_key_zero [OF f(1), of masked] by (simp_all add: h)
  have key: "masked \<Longrightarrow> set4 io ?k = frame_key io rnd masked"
    using set4_of_get4 [OF frame_key_length [OF f(1), of masked]] by (simp add: wire_key_def)
  have data: "unmasked io h 0 ?w = d"
    using key by (cases masked) (simp_all add: unmasked_def hr on_wire_def)
  have octets: "f_data (filled io rnd fin opCode (length d) masked d) @ rest = ?h @ ?w @ rest"
    by (simp add: filled_def Let_def)
  have "seen (ws_parser c) []" "\<not> complete []"
    using c by (simp_all add: idle_def seen_def complete_def)
  from read_frame_header_seen [OF this, of io rng "?h @ ?w @ rest"] c
  have "frame_turn io rng (?h @ ?w @ rest) c = Some (open_frame io rng h (?w @ rest) (with_header (?h @ ?w @ rest) c))"
    by (simp add: frame_turn_def idle_def part h_def)
  then show ?thesis
    using hr data two octets
    by (intro that [where n = "length ?h" and h = h and ?c1.0 = "with_header (?h @ ?w @ rest) c"]) (auto simp: with_header_def part h_def)
qed

lemma frame_read:
  assumes c: "idle c" "ws_client c \<Longrightarrow> \<not> masked"
    and f: "length rnd = 4" "opCode \<in> {TextFrame, BinaryFrame, ContinuationFrame}" "length d \<le> MaxFramePayload" "d \<noteq> []"
  shows "\<exists>c'. idle c' \<and> ws_client c' = ws_client c \<and>
    process_frames io rng (f_data (filled io rnd fin opCode (length d) masked d) @ rest) c
      = then_calls (start_calls opCode (length d) @ onMessageData d # (if fin then [onMessageEnd] else [])) (process_frames io rng rest c')"
proof -
  let ?x = "f_data (filled io rnd fin opCode (length d) masked d) @ rest" and ?w = "on_wire io rnd masked 0 d"
  have "length d < 2 ^ 64"
    using f(3) by (simp add: MaxFramePayload_def)
  then obtain h n c1 where c1: "c1 = c\<lparr>ws_parser := \<lparr>p_header = None, p_len = n\<rparr>, ws_framePos := 0, ws_header := Some h\<rparr>"
    and x: "?x \<noteq> []" "frame_turn io rng ?x c = Some (open_frame io rng h (?w @ rest) c1)"
    and h: "IsFin h = fin" "GetOpCode h = opCode" "IsMasked h = masked" "GetPayloadLength io h = length d" "unmasked io h 0 ?w = d"
    by (rule header_arrives [OF c(1) f(1)])
  have t1: "frame_turn io rng ?x c = Some (Turn (start_calls opCode (length d)) (?w @ rest) True c1)"
    using c f(2,3) x(2) h by (auto simp: idle_def open_frame_def tell_def start_calls_def c1)
  define c2 where "c2 = c1\<lparr>ws_framePos := length d, ws_header := None\<rparr>"
  have "frame_turn io rng (?w @ rest) c1 = after_data io h [onMessageData d] rest (c1\<lparr>ws_framePos := 0 + length d\<rparr>)"
    using c f(2) h frame_turn_payload [of c1 h "length d" io "?w @ rest" "[onMessageData d]" c1 rng]
    by (auto simp: c1 frame_data_def tell_def idle_def)
  also have "\<dots> = Some (Turn (onMessageData d # (if fin then [onMessageEnd] else [])) rest True c2)"
    using c f(2) h by (auto simp: after_data_def end_frame_def tell_def idle_def c1 c2_def)
  finally have t2: "frame_turn io rng (?w @ rest) c1 = Some (Turn (onMessageData d # (if fin then [onMessageEnd] else [])) rest True c2)" .
  have "?w @ rest \<noteq> []"
    using f(4) length_on_wire [of io rnd masked 0 d] by (auto simp del: length_on_wire)
  then have "process_frames io rng ?x c
      = then_calls (start_calls opCode (length d) @ onMessageData d # (if fin then [onMessageEnd] else [])) (process_frames io rng rest c2)"
    using x(1) t1 t2 process_frames.simps [of io rng ?x c] process_frames.simps [of io rng "?w @ rest" c1]
    by (cases "process_frames io rng rest c2") (auto simp: then_calls_def)
  moreover have "idle c2" "ws_client c2 = ws_client c"
    using c by (simp_all add: c1 c2_def idle_def)
  ultimately show ?thesis
    by blast
qed

text \<open>A ping is answered by a pong with the same payload, one turn after its header.\<close>

lemma ping_read:
  fixes rng :: "nat \<Rightarrow> byte list"
  assumes c: "idle c" "ws_client c \<Longrightarrow> \<not> masked" and f: "length rnd = 4" "length d \<le> MaxFramePayload"
  defines "pong \<equiv> Frame_new io (rng (ws_draws c)) True Pong (Some d) (length d) (ws_client c)"
  obtains c1 c2 where
    "process_frames io rng (f_data (filled io rnd True Ping (length d) masked d) @ rest) c
      = process_frames io rng (on_wire io rnd masked 0 d @ rest) c1"
    and "ws_frames c1 = ws_frames c" "ws_pong c1 \<noteq> None"
    and "on_wire io rnd masked 0 d @ rest \<noteq> [] \<longrightarrow> process_frames io rng (on_wire io rnd masked 0 d @ rest) c1
      = then_calls [onWakeupNeeded] (process_frames io rng rest c2)"
    and "idle c2" "ws_frames c2 = ws_frames c @ [pong]"
proof -
  let ?x = "f_data (filled io rnd True Ping (length d) masked d) @ rest" and ?w = "on_wire io rnd masked 0 d"
  have "length d < 2 ^ 64"
    using f(2) by (simp add: MaxFramePayload_def)
  then obtain h n c0 where c0: "c0 = c\<lparr>ws_parser := \<lparr>p_header = None, p_len = n\<rparr>, ws_framePos := 0, ws_header := Some h\<rparr>"
    and x: "?x \<noteq> []" "frame_turn io rng ?x c = Some (open_frame io rng h (?w @ rest) c0)"
    and h: "IsFin h" "GetOpCode h = Ping" "IsMasked h = masked" "GetPayloadLength io h = length d" "unmasked io h 0 ?w = d"
    by (rule header_arrives [OF c(1) f(1), where fin = True and opCode = Ping and masked = masked and rng = rng and rest = rest and d = d]) simp
  let ?p = "\<lambda>y. filled io (rng (ws_draws c)) True Pong (length d) (ws_client c) y"
  define c1 where "c1 = c0\<lparr>ws_pong := Some (?p []), ws_draws := ws_draws c + (if ws_client c then 1 else 0)\<rparr>"
  define c2 where "c2 = c1\<lparr>ws_framePos := length d, ws_frames := ws_frames c @ [?p d], ws_pong := None, ws_header := None\<rparr>"
  have "frame_turn io rng ?x c = Some (Turn [] (?w @ rest) True c1)"
    using c f(2) x(2) h by (auto simp: idle_def open_frame_def c0 c1_def Frame_new_filled)
  then have p1: "process_frames io rng ?x c = process_frames io rng (?w @ rest) c1"
    using x(1) by (subst process_frames.simps) (cases "process_frames io rng (?w @ rest) c1"; auto)
  have c1: "ws_header c1 = Some h" "ws_framePos c1 = 0" "ws_pong c1 = Some (?p [])"
    by (simp_all add: c0 c1_def)
  have "frame_data h d c1 = Some ([], c1\<lparr>ws_pong := Some (?p d)\<rparr>)"
    using h(2) c1(3) Append_filled [of "[]" d "length d" io "rng (ws_draws c)" True Pong "ws_client c"] by (simp add: frame_data_def)
  then have "frame_turn io rng (?w @ rest) c1 = after_data io h [] rest (c1\<lparr>ws_pong := Some (?p d), ws_framePos := 0 + length d\<rparr>)"
    using frame_turn_payload [OF c1(1), of "length d" io "?w @ rest" "[]" "c1\<lparr>ws_pong := Some (?p d)\<rparr>" rng] h(4,5) c1(2)
    by simp
  also have "\<dots> = Some (Turn [onWakeupNeeded] rest True c2)"
    using h by (simp add: after_data_def end_frame_def c0 c1_def c2_def)
  finally have p2: "?w @ rest \<noteq> [] \<longrightarrow> process_frames io rng (?w @ rest) c1 = then_calls [onWakeupNeeded] (process_frames io rng rest c2)"
    by (subst process_frames.simps) (auto simp: then_calls_def)
  show ?thesis
    by (rule that [OF p1 _ _ p2]) (use c in \<open>simp_all add: c0 c1_def c2_def idle_def pong_def Frame_new_whole\<close>)
qed

end

section \<open>Messages\<close>

text \<open>What a listener that collects the data from a start to an end hears.\<close>

fun heard :: "(MessageType \<times> byte list) option \<Rightarrow> ws_call list \<Rightarrow> (MessageType \<times> byte list) list" where
  "heard m [] = []"
| "heard m (onMessageStart t n # es) = heard (Some (t, [])) es"
| "heard m (onMessageData d # es) = heard (map_option (\<lambda>(t, x). (t, x @ d)) m) es"
| "heard m (onMessageEnd # es) = (case m of None \<Rightarrow> heard None es | Some x \<Rightarrow> x # heard None es)"
| "heard m (onWakeupNeeded # es) = heard m es"

lemma heard_data: "heard m (map (\<lambda>b. onMessageData [b]) d @ es) = heard (map_option (\<lambda>(t, x). (t, x @ d)) m) es"
  by (induction d arbitrary: m) (auto simp: option.map_comp comp_def case_prod_unfold option.map_ident)

lemma heard_flat: "heard m (flat es) = heard m es"
  by (induction m es rule: heard.induct) (auto simp: flat_def heard_data split: option.splits)

fun Ws_SendMessage :: "medkit \<Rightarrow> (nat \<Rightarrow> byte list) \<Rightarrow> MessageType \<times> byte list \<Rightarrow> WebSocketConnection \<Rightarrow> WebSocketConnection" where
  "Ws_SendMessage io rng (Text, m) c = SendMessage_text io rng m c"
| "Ws_SendMessage io rng (Binary, m) c = SendMessage_binary io rng m c"

text \<open>The octets \<open>x\<close> make an idle peer hear the message \<open>m\<close>, whatever follows them.\<close>

definition delivers :: "medkit \<Rightarrow> bool \<Rightarrow> (MessageType \<times> byte list) option \<Rightarrow> MessageType \<times> byte list \<Rightarrow> byte list \<Rightarrow> bool" where
  "delivers io masked before m x = (\<forall>rng c rest. idle c \<longrightarrow> ws_client c = (\<not> masked) \<longrightarrow>
     (\<exists>e c'. idle c' \<and> ws_client c' = ws_client c \<and> (\<forall>es. heard before (e @ es) = m # heard None es)
        \<and> process_frames io rng (x @ rest) c = then_calls e (process_frames io rng rest c')))"

text \<open>All that was accepted for the peer: on the wire, in the transport, in the queue.\<close>

definition accepted_octets :: "WebSocketConnection \<Rightarrow> byte list" where
  "accepted_octets c = t_wire (ws_transport c) @ t_pendingOut (ws_transport c)
     @ (case ws_response c of None \<Rightarrow> [] | Some r \<Rightarrow> r) @ concat (map f_data (ws_frames c))"

lemma Plain_Flush_keeps:
  "Plain_Flush t = (ok, t') \<Longrightarrow> t_wire t' @ t_pendingOut t' = t_wire t @ t_pendingOut t"
proof -
  have "flush_loop rs t = (ok, t') \<Longrightarrow> t_wire t' @ t_pendingOut t' = t_wire t @ t_pendingOut t" for rs
    by (induction rs t rule: flush_loop.induct) (fastforce split: if_splits write_result.splits)+
  then show "Plain_Flush t = (ok, t') \<Longrightarrow> t_wire t' @ t_pendingOut t' = t_wire t @ t_pendingOut t"
    by (simp add: Plain_Flush_def)
qed

lemma Plain_Send_adds: "t_wire (snd (Plain_Send d t)) @ t_pendingOut (snd (Plain_Send d t)) = t_wire t @ t_pendingOut t @ d"
  using Plain_Flush_keeps [of "t\<lparr>t_pendingOut := t_pendingOut t @ d\<rparr>"] by (cases "Plain_Send d t") (simp add: Plain_Send_def)

lemma OnWritable_output: "accepted_octets (Ws_OnWritable c) = accepted_octets c"
proof -
  obtain ok t where t: "Plain_Flush (ws_transport c) = (ok, t)"
    by fastforce
  note k = Plain_Flush_keeps [OF t]
  have k': "t_wire (ws_transport c) @ t_pendingOut (ws_transport c) @ y = t_wire t @ t_pendingOut t @ y" for y
    using arg_cong [OF k, of "\<lambda>x. x @ y"] by simp
  have s: "t_wire (snd (Plain_Send d t)) @ t_pendingOut (snd (Plain_Send d t)) @ y = t_wire t @ t_pendingOut t @ d @ y" for d y
    using arg_cong [OF Plain_Send_adds [of d t], of "\<lambda>x. x @ y"] by simp
  show ?thesis
    by (cases "ws_frames c"; cases "ws_response c")
      (auto simp: Ws_OnWritable_def Let_def t accepted_octets_def k k' s Plain_Send_adds GetNextFrame_def)
qed

lemma OnWritable_still:
  "ws_client (Ws_OnWritable c) = ws_client c" "ws_closeFrameQueued (Ws_OnWritable c) = ws_closeFrameQueued c"
  by (auto simp: Ws_OnWritable_def Let_def GetNextFrame_def split: prod.splits option.splits list.splits)

lemma accepted_push:
  "accepted_octets (push_frame f c) = accepted_octets c @ f_data f" "ws_client (push_frame f c) = ws_client c"
  "ws_closeFrameQueued (push_frame f c) = ws_closeFrameQueued c"
  by (simp_all add: accepted_octets_def push_frame_def)

definition opened :: "OpCode \<Rightarrow> (MessageType \<times> byte list) option \<Rightarrow> (MessageType \<times> byte list) option" where
  "opened code m = (case code of TextFrame \<Rightarrow> Some (Text, []) | BinaryFrame \<Rightarrow> Some (Binary, []) | _ \<Rightarrow> m)"

lemma heard_start: "heard m (start_calls code n @ es) = heard (opened code m) es"
  by (simp add: start_calls_def opened_def split: OpCode.splits)

context medkit_frames
begin

lemma whole_delivers:
  assumes "length rnd = 4" "code \<in> {TextFrame, BinaryFrame, ContinuationFrame}" "length d \<le> MaxFramePayload" "d \<noteq> []"
    and "opened code before = Some (t, p)"
  shows "delivers io masked before (t, p @ d) (f_data (Frame_new io rnd True code (Some d) (length d) masked))"
proof -
  have "\<exists>e c'. idle c' \<and> ws_client c' = ws_client c \<and> (\<forall>es. heard before (e @ es) = (t, p @ d) # heard None es)
      \<and> process_frames io rng (f_data (filled io rnd True code (length d) masked d) @ rest) c = then_calls e (process_frames io rng rest c')"
    if "idle c" "ws_client c = (\<not> masked)" for rng c rest
  proof -
    have "\<forall>es. heard before ((start_calls code (length d) @ [onMessageData d, onMessageEnd]) @ es) = (t, p @ d) # heard None es"
      using heard_start [of before code "length d"] assms(5) by simp
    moreover from frame_read [OF that(1) _ assms(1-4), of masked rng True rest] that(2) obtain c1 where
      "idle c1" "ws_client c1 = ws_client c"
      "process_frames io rng (f_data (filled io rnd True code (length d) masked d) @ rest) c
        = then_calls (start_calls code (length d) @ [onMessageData d, onMessageEnd]) (process_frames io rng rest c1)" by auto
    ultimately show ?thesis
      by metis
  qed
  then show ?thesis
    by (simp add: delivers_def Frame_new_whole)
qed

lemma part_delivers:
  assumes "length rnd = 4" "code \<in> {TextFrame, BinaryFrame, ContinuationFrame}" "length d \<le> MaxFramePayload" "d \<noteq> []"
    and "opened code before = Some (t, p)" and more: "delivers io masked (Some (t, p @ d)) m x"
  shows "delivers io masked before m (f_data (Frame_new io rnd False code (Some d) (length d) masked) @ x)"
proof -
  have "\<exists>e c'. idle c' \<and> ws_client c' = ws_client c \<and> (\<forall>es. heard before (e @ es) = m # heard None es)
      \<and> process_frames io rng (f_data (filled io rnd False code (length d) masked d) @ x @ rest) c = then_calls e (process_frames io rng rest c')"
    if c: "idle c" "ws_client c = (\<not> masked)" for rng c rest
  proof -
    from frame_read [OF c(1) _ assms(1-4), of masked rng False "x @ rest"] c(2) obtain c1 where
      c1: "idle c1" "ws_client c1 = ws_client c"
      "process_frames io rng (f_data (filled io rnd False code (length d) masked d) @ x @ rest) c
        = then_calls (start_calls code (length d) @ [onMessageData d]) (process_frames io rng (x @ rest) c1)" by auto
    with more c obtain e c2 where e: "idle c2" "ws_client c2 = ws_client c1"
      "\<forall>es. heard (Some (t, p @ d)) (e @ es) = m # heard None es"
      "process_frames io rng (x @ rest) c1 = then_calls e (process_frames io rng rest c2)"
      unfolding delivers_def by metis
    have "\<forall>es. heard before ((start_calls code (length d) @ [onMessageData d] @ e) @ es) = m # heard None es"
      using heard_start [of before code "length d"] assms(5) e(3) by simp
    moreover have "then_calls (start_calls code (length d) @ [onMessageData d]) (then_calls e r)
        = then_calls (start_calls code (length d) @ [onMessageData d] @ e) r" for r
      by (cases r) (auto simp: then_calls_def)
    ultimately show ?thesis
      using c1 e by metis
  qed
  then show ?thesis
    by (simp add: delivers_def Frame_new_whole)
qed

lemma fragments_deliver:
  assumes "\<forall>n. length (rng n) = 4" "code \<in> {BinaryFrame, ContinuationFrame}" "data \<noteq> []" "opened code before = Some (Binary, p)"
  shows "\<exists>x. accepted_octets (send_fragments io rng code data c) = accepted_octets c @ x
    \<and> delivers io (ws_client c) before (Binary, p @ data) x
    \<and> ws_client (send_fragments io rng code data c) = ws_client c
    \<and> ws_closeFrameQueued (send_fragments io rng code data c) = ws_closeFrameQueued c"
  using assms(2-)
proof (induction "length data" arbitrary: code data before p c rule: less_induct)
  case less
  let ?n = "if length data > 1300 then 1300 else length data"
  let ?f = "Frame_new io (rng (ws_draws c)) (?n = length data) code (Some (take ?n data)) (length (take ?n data)) (ws_client c)"
  have rnd: "length (rng (ws_draws c)) = 4"
    using assms(1) by simp
  have n: "length (take ?n data) \<le> MaxFramePayload" "take ?n data \<noteq> []" "length (take ?n data) = ?n"
    using less.prems by (auto simp: MaxFramePayload_def)
  have code: "code \<in> {TextFrame, BinaryFrame, ContinuationFrame}"
    using less.prems by auto
  have sent: "send_fragments io rng code data c = (if ?n = length data then push_frame ?f c
      else send_fragments io rng ContinuationFrame (drop ?n data) (push_frame ?f c))"
    by (subst send_fragments.simps) (simp add: Let_def)
  show ?case
  proof (cases "?n = length data")
    case True
    with whole_delivers [OF rnd code n(1,2) less.prems(3), of "ws_client c"] sent show ?thesis
      by (simp add: accepted_push)
  next
    case False
    have "length (drop ?n data) < length data" "drop ?n data \<noteq> []"
      using False less.prems by (auto split: if_splits)
    from less.hyps [OF this(1) _ this(2), of ContinuationFrame "Some (Binary, p @ take ?n data)" "p @ take ?n data" "push_frame ?f c"]
    obtain x where x: "accepted_octets (send_fragments io rng code data c) = accepted_octets (push_frame ?f c) @ x"
      "delivers io (ws_client c) (Some (Binary, p @ take ?n data)) (Binary, p @ take ?n data @ drop ?n data) x"
      "ws_client (send_fragments io rng code data c) = ws_client c"
      "ws_closeFrameQueued (send_fragments io rng code data c) = ws_closeFrameQueued c"
      using False by (auto simp: sent opened_def accepted_push)
    with part_delivers [OF rnd code n(1,2) less.prems(3) x(2)] False show ?thesis
      by (simp add: accepted_push)
  qed
qed

text \<open>The messages that can be carried: none is empty, and a text fits into one frame the peer accepts.\<close>

lemma SendMessage_delivers:
  assumes "\<forall>n. length (rng n) = 4" "\<not> ws_closeFrameQueued c" "snd m \<noteq> []" "fst m = Text \<Longrightarrow> length (snd m) \<le> MaxFramePayload"
  shows "\<exists>x. accepted_octets (Ws_SendMessage io rng m c) = accepted_octets c @ x \<and> delivers io (ws_client c) None m x
    \<and> ws_client (Ws_SendMessage io rng m c) = ws_client c \<and> \<not> ws_closeFrameQueued (Ws_SendMessage io rng m c)"
proof (cases m)
  case (Pair t d)
  show ?thesis
  proof (cases t)
    case Text
    with Pair assms whole_delivers [of "rng (ws_draws c)" TextFrame d None Text "[]" "ws_client c"] show ?thesis
      by (auto simp: SendMessage_text_def Let_def accepted_push opened_def)
  next
    case Binary
    with Pair assms fragments_deliver [of rng BinaryFrame d None "[]" c] show ?thesis
      by (auto simp: SendMessage_binary_def opened_def)
  qed
qed

lemma delivered_messages:
  assumes "list_all2 (delivers io masked None) ms xs" "idle c" "ws_client c = (\<not> masked)"
  shows "\<exists>e c'. process_frames io rng (concat xs) c = Some (e, c') \<and> heard None e = ms \<and> idle c'"
  using assms
proof (induction ms xs arbitrary: c rule: list_all2_induct)
  case Nil
  then show ?case
    by (simp add: process_frames.simps [of io rng "[]"])
next
  case (Cons m ms x xs)
  from Cons.hyps(1) Cons.prems obtain e c1 where e: "idle c1" "ws_client c1 = ws_client c"
    "\<forall>es. heard None (e @ es) = m # heard None es"
    "process_frames io rng (x @ concat xs) c = then_calls e (process_frames io rng (concat xs) c1)"
    unfolding delivers_def by metis
  with Cons.IH [of c1] Cons.prems show ?case
    by (auto simp: then_calls_def)
qed

end

section \<open>From one side to the other\<close>

text \<open>What the sending side does, in any order: messages of any thread, and turns of the loop that writes.\<close>

datatype ws_act = Send MessageType "byte list" | Writable

fun do_act :: "medkit \<Rightarrow> (nat \<Rightarrow> byte list) \<Rightarrow> ws_act \<Rightarrow> WebSocketConnection \<Rightarrow> WebSocketConnection" where
  "do_act io rng (Send t m) c = Ws_SendMessage io rng (t, m) c"
| "do_act io rng Writable c = Ws_OnWritable c"

fun messages :: "ws_act list \<Rightarrow> (MessageType \<times> byte list) list" where
  "messages [] = []"
| "messages (Send t m # as) = (t, m) # messages as"
| "messages (Writable # as) = messages as"

definition sendable :: "MessageType \<times> byte list \<Rightarrow> bool" where
  "sendable m = (snd m \<noteq> [] \<and> (fst m = Text \<longrightarrow> length (snd m) \<le> MaxFramePayload))"

context medkit_frames
begin

lemma acts_deliver:
  assumes "\<forall>n. length (rng n) = 4" "list_all sendable (messages as)" "\<not> ws_closeFrameQueued c"
  shows "\<exists>xs. accepted_octets (fold (do_act io rng) as c) = accepted_octets c @ concat xs
    \<and> list_all2 (delivers io (ws_client c) None) (messages as) xs"
  using assms(2,3)
proof (induction as arbitrary: c rule: messages.induct)
  case 1
  then show ?case by simp
next
  case (2 t m as)
  then have "\<exists>x. accepted_octets (Ws_SendMessage io rng (t, m) c) = accepted_octets c @ x \<and> delivers io (ws_client c) None (t, m) x
    \<and> ws_client (Ws_SendMessage io rng (t, m) c) = ws_client c \<and> \<not> ws_closeFrameQueued (Ws_SendMessage io rng (t, m) c)"
    using SendMessage_delivers [of rng c "(t, m)"] assms(1) by (simp add: sendable_def)
  then obtain x where x: "accepted_octets (Ws_SendMessage io rng (t, m) c) = accepted_octets c @ x"
    "delivers io (ws_client c) None (t, m) x" "ws_client (Ws_SendMessage io rng (t, m) c) = ws_client c"
    "\<not> ws_closeFrameQueued (Ws_SendMessage io rng (t, m) c)" by blast
  with 2 obtain xs where "accepted_octets (fold (do_act io rng) as (Ws_SendMessage io rng (t, m) c)) = accepted_octets c @ x @ concat xs"
    "list_all2 (delivers io (ws_client c) None) (messages as) xs"
    by fastforce
  with x(2) show ?case
    by (auto intro!: exI [of _ "x # xs"])
next
  case (3 as)
  with "3.IH" [of "Ws_OnWritable c"] show ?case
    by (simp add: OnWritable_output OnWritable_still)
qed

end

lemma drained: "\<not> HasPendingOutput c \<Longrightarrow> accepted_octets c = t_wire (ws_transport c)"
  by (simp add: HasPendingOutput_def WantsWrite_def accepted_octets_def)

lemma idle_new: "idle (WebSocketConnection_new client writes)"
  by (simp add: idle_def WebSocketConnection_new_def Parser_new_def)

text \<open>
  C10. Messages cross a WebSocket connection unchanged. One side, client or server, sends texts and binary messages
  from any thread while its loop writes to a socket that takes as little as it likes. When everything is written, the
  other side may read the octets of the wire in pieces of any sizes: its listener hears exactly the messages, in the
  order of the calls and with their types, and the connection is ready for the next frame. The messages are those
  \<open>SendMessage\<close> can carry: not empty, and a text of at most \<open>MaxFramePayload\<close> octets.\<close>

theorem messages_cross:
  assumes "medkit_frames io" and "\<forall>n. length (rng n) = 4"
    and "list_all sendable (messages as)"
    and "s = fold (do_act io rng) as (WebSocketConnection_new client writes)" and "\<not> HasPendingOutput s"
    and "concat chunks = t_wire (ws_transport s)"
  shows "\<exists>e r. Ws_OnReadable io rng' (map Octets chunks) (WebSocketConnection_new (\<not> client) writes') = Some (e, r)
    \<and> heard None e = messages as \<and> idle r"
proof -
  let ?s = "WebSocketConnection_new client writes" and ?r = "WebSocketConnection_new (\<not> client) writes'"
  have "\<not> ws_closeFrameQueued ?s" "ws_client ?s = client" "accepted_octets ?s = []" "ws_client ?r = (\<not> client)"
    by (simp_all add: WebSocketConnection_new_def accepted_octets_def)
  with medkit_frames.acts_deliver [OF assms(1-3), of ?s] obtain xs where
    xs: "accepted_octets s = concat xs" "list_all2 (delivers io client None) (messages as) xs"
    using assms(4) by auto
  from medkit_frames.delivered_messages [OF assms(1) xs(2) idle_new, of "\<not> client" writes' rng'] \<open>ws_client ?r = (\<not> client)\<close>
  obtain e r where p: "process_frames io rng' (concat xs) ?r = Some (e, r)" "heard None e = messages as" "idle r" by blast
  have "between io ?r" "\<not> ws_closeRequested ?r"
    using idle_new [of "\<not> client" writes'] idle_between by (auto simp: idle_def)
  from medkit_frames.OnReadable_chunks [OF assms(1) this, of rng' chunks] p assms(5,6) xs(1) drained [of s]
  show ?thesis
    by (auto simp: ProcessData_def) (metis heard_flat)
qed

definition sample_key :: "nat \<Rightarrow> byte list" where
  "sample_key n = [0x37, 0xFA, 0x21, of_nat n]"

definition sample_acts :: "ws_act list" where
  "sample_acts = [Send Text (str ''Hello''), Writable, Send Binary [1, 2, 3], Writable, Writable, Writable]"

definition sample_sender :: WebSocketConnection where
  "sample_sender = fold (do_act network_order sample_key) sample_acts (WebSocketConnection_new True [Wrote 3, WouldBlock, Wrote 100, Wrote 100])"

theorem messages_cross_witness:
  "\<exists>e r. Ws_OnReadable network_order sample_key (map Octets (map (\<lambda>b. [b]) (t_wire (ws_transport sample_sender))))
      (WebSocketConnection_new False []) = Some (e, r)
    \<and> heard None e = [(Text, str ''Hello''), (Binary, [1, 2, 3])] \<and> idle r"
proof -
  have "list_all sendable (messages sample_acts)"
    by (simp add: sample_acts_def sendable_def MaxFramePayload_def str_def)
  moreover have "\<not> HasPendingOutput sample_sender"
    by code_simp
  moreover have "messages sample_acts = [(Text, str ''Hello''), (Binary, [1, 2, 3])]" "\<forall>n. length (sample_key n) = 4"
    by (simp_all add: sample_acts_def sample_key_def)
  ultimately show ?thesis
    using messages_cross [OF netf.medkit_frames_axioms _ _ sample_sender_def,
      of "map (\<lambda>b. [b]) (t_wire (ws_transport sample_sender))" sample_key "[]"] by simp
qed

section \<open>Whatever the peer sends\<close>

text \<open>All that happens to a connection after the upgrade.\<close>

datatype ws_op = OpRead "recv_outcome list" | OpAct ws_act | OpClose "16 word" "byte list"

fun do_ws :: "medkit \<Rightarrow> (nat \<Rightarrow> byte list) \<Rightarrow> ws_op \<Rightarrow> WebSocketConnection \<Rightarrow> WebSocketConnection option" where
  "do_ws io rng (OpRead rs) c = (if IsFinished c then Some c else map_option snd (Ws_OnReadable io rng rs c))"
| "do_ws io rng (OpAct a) c = Some (do_act io rng a c)"
| "do_ws io rng (OpClose code reason) c = Some (Ws_Close io rng code reason c)"

definition reading_part where
  "reading_part c = (ws_header c, ws_parser c, ws_framePos c, ws_pong c, ws_client c, ws_closeRequested c)"

lemma reading_part_inv: "reading_part c' = reading_part c \<Longrightarrow> ws_inv io c' = ws_inv io c"
  by (auto simp: reading_part_def ws_inv_def between_def split: option.splits)

lemma reading_part_push: "reading_part (push_frame f c) = reading_part c"
  by (simp add: reading_part_def push_frame_def)

lemma reading_part_fragments: "reading_part (send_fragments io rng code data c) = reading_part c"
proof (induction io rng code data c rule: send_fragments.induct)
  case (1 io rng code data c)
  then show ?case
    by (subst send_fragments.simps) (simp add: Let_def reading_part_push)
qed

lemma OnWritable_reading: "ws_closeRequested (Ws_OnWritable c) \<or> reading_part (Ws_OnWritable c) = reading_part c"
proof -
  obtain ok t where "Plain_Flush (ws_transport c) = (ok, t)"
    by fastforce
  then show ?thesis
    by (cases "ws_frames c"; cases "ws_response c") (simp_all add: Ws_OnWritable_def Let_def GetNextFrame_def reading_part_def)
qed

lemma SendMessage_reading: "reading_part (Ws_SendMessage io rng m c) = reading_part c"
proof -
  obtain t d where m: "m = (t, d)"
    by fastforce
  have "reading_part (c\<lparr>ws_draws := n\<rparr>) = reading_part c" for n
    by (simp add: reading_part_def)
  then show ?thesis
    by (cases t) (simp_all add: m SendMessage_text_def SendMessage_binary_def Let_def reading_part_push reading_part_fragments)
qed

lemma act_inv: "ws_inv io c \<Longrightarrow> ws_inv io (do_act io rng a c)"
  using OnWritable_reading [of c] reading_part_inv [OF SendMessage_reading, of io io rng]
    reading_part_inv [of "Ws_OnWritable c" c io] ws_inv_def [of io "Ws_OnWritable c"]
  by (cases a) (auto simp del: Ws_SendMessage.simps)

lemma close_inv: "ws_inv io (Ws_Close io rng code reason c) = ws_inv io c"
  using reading_part_push by (intro reading_part_inv) (simp add: Ws_Close_def Let_def reading_part_def push_frame_def)

context medkit_frames
begin

lemma OnReadable_inv:
  assumes "ws_inv io c" "\<not> ws_closeRequested c"
  shows "\<exists>e c'. Ws_OnReadable io rng rs c = Some (e, c') \<and> ws_inv io c'"
  using assms
proof (induction rs arbitrary: c)
  case (Cons r rs)
  show ?case
  proof (cases r)
    case (Octets data)
    from Cons.prems process_returns [of c rng data] obtain e c' where
      "process_frames io rng data c = Some (e, c')" "ws_inv io c'"
      by (auto simp: ws_inv_def)
    with Octets Cons.IH [of c'] show ?thesis
      by (auto simp: ProcessData_def)
  qed (use Cons.prems in \<open>simp_all add: ws_inv_def\<close>)
qed simp

lemma run_inv:
  "ws_inv io c \<Longrightarrow> \<exists>c'. foldM (do_ws io rng) ops c = Some c' \<and> ws_inv io c'"
proof (induction ops arbitrary: c)
  case (Cons op ops)
  have "\<exists>c'. do_ws io rng op c = Some c' \<and> ws_inv io c'"
    using Cons.prems OnReadable_inv [of c rng] act_inv [of io c rng] close_inv [of io rng]
    by (cases op) (fastforce simp: IsFinished_def)+
  with Cons.IH show ?case
    by (auto simp del: do_ws.simps)
qed simp

end

text \<open>
  C13. Whatever octets the peer sends, in pieces of whatever sizes, between messages, writes and a close of our own
  side: every call of \<open>OnReadable\<close> returns, and no frame of the answer to a ping is used before it is made. How the
  stream is cut makes no difference: reading the pieces leaves the connection in the state in which reading all of
  it at once would, with the same calls into the listener up to the size of the pieces of data.\<close>

theorem reading_total:
  assumes "medkit_frames io"
  shows "\<exists>c. foldM (do_ws io rng) ops (WebSocketConnection_new client writes) = Some c
    \<and> (IsFinished c \<or> (\<exists>e e' c'. Ws_OnReadable io rng (map Octets chunks) c = Some (e, c')
        \<and> ProcessData io rng (concat chunks) c = Some (e', c') \<and> flat e = flat e'))"
proof -
  have "ws_inv io (WebSocketConnection_new client writes)"
    using idle_new idle_between by (simp add: ws_inv_def)
  from medkit_frames.run_inv [OF assms this] obtain c where
    c: "foldM (do_ws io rng) ops (WebSocketConnection_new client writes) = Some c" "ws_inv io c" by blast
  with medkit_frames.OnReadable_chunks [OF assms, of c rng chunks] show ?thesis
    by (auto simp: ws_inv_def IsFinished_def)
qed

theorem reading_total_witness:
  "\<exists>c. foldM (do_ws network_order sample_key) [OpRead [Octets [0x89]], OpClose 1000 [], OpRead [Octets [0x83, 1, 2]]]
      (WebSocketConnection_new False []) = Some c
    \<and> (IsFinished c \<or> (\<exists>e e' c'. Ws_OnReadable network_order sample_key (map Octets [[3], [4, 5, 6], [7]]) c = Some (e, c')
        \<and> ProcessData network_order sample_key (concat [[3], [4, 5, 6], [7]]) c = Some (e', c') \<and> flat e = flat e'))"
  by (rule reading_total [OF netf.medkit_frames_axioms])

section \<open>Two things the loop does not do\<close>

text \<open>
  C39. A ping without payload is complete with its header, but the loop \<open>while (size)\<close> ends before the end of the
  frame is noticed. An idle connection that has read exactly the octets of the ping has the pong ready and queues
  nothing: the answer waits until the peer happens to send something else. The first octet that follows, whatever it
  is, lets the pong go.\<close>

theorem empty_ping_waits:
  assumes "medkit_frames io" and "length rnd = 4" and "idle c" and "ws_client c \<longrightarrow> \<not> masked"
    and "ping = f_data (Frame_new io rnd True Ping (Some []) 0 masked)"
  shows "(\<exists>c'. ProcessData io rng ping c = Some ([], c') \<and> ws_frames c' = ws_frames c \<and> ws_pong c' \<noteq> None)
    \<and> (\<exists>c'. ProcessData io rng (ping @ [b]) c = Some ([onWakeupNeeded], c')
        \<and> ws_frames c' = ws_frames c @ [Frame_new io (rng (ws_draws c)) True Pong (Some []) 0 (ws_client c)])"
proof -
  have ping: "ping = f_data (filled io rnd True Ping (length ([] :: byte list)) masked [])"
    using assms(5) medkit_frames.Frame_new_whole [OF assms(1), of rnd True Ping "[]" masked] by simp
  have role: "ws_client c \<Longrightarrow> \<not> masked"
    using assms(4) by simp
  have z: "length ([] :: byte list) \<le> MaxFramePayload"
    by simp
  have stop: "process_frames io rng [] c' = Some ([], c')" for c'
    by (simp add: process_frames.simps)
  have one: "\<exists>c'. process_frames io rng [b] c2 = Some ([], c') \<and> ws_frames c' = ws_frames c2" if "idle c2" for c2
  proof -
    have "seen (ws_parser c2) []" "\<not> complete []" "\<not> complete [b]"
      using that by (simp_all add: idle_def seen_def complete_def)
    with that have "frame_turn io rng [b] c2 = Some (Turn [] [] True (c2\<lparr>ws_parser := parser_of [b]\<rparr>))"
      by (simp add: frame_turn_def idle_def read_frame_header_seen)
    then show ?thesis
      by (subst process_frames.simps) (simp add: stop)
  qed
  have read: "\<exists>c1 c2. process_frames io rng (ping @ rest) c = process_frames io rng rest c1 \<and> ws_frames c1 = ws_frames c
      \<and> ws_pong c1 \<noteq> None \<and> (rest \<noteq> [] \<longrightarrow> process_frames io rng rest c1 = then_calls [onWakeupNeeded] (process_frames io rng rest c2))
      \<and> idle c2 \<and> ws_frames c2 = ws_frames c @ [Frame_new io (rng (ws_draws c)) True Pong (Some []) 0 (ws_client c)]" for rest
  proof -
    obtain c1 c2 where "process_frames io rng (ping @ rest) c = process_frames io rng (on_wire io rnd masked 0 [] @ rest) c1"
      "ws_frames c1 = ws_frames c" "ws_pong c1 \<noteq> None"
      "on_wire io rnd masked 0 [] @ rest \<noteq> [] \<longrightarrow> process_frames io rng (on_wire io rnd masked 0 [] @ rest) c1
        = then_calls [onWakeupNeeded] (process_frames io rng rest c2)"
      "idle c2" "ws_frames c2 = ws_frames c @ [Frame_new io (rng (ws_draws c)) True Pong (Some []) (length ([] :: byte list)) (ws_client c)]"
      unfolding ping by (rule medkit_frames.ping_read [OF assms(1,3) role assms(2) z, where rng = rng and rest = rest])
    then show ?thesis
      by (intro exI [of _ c1] exI [of _ c2]) simp
  qed
  from read [of "[]"] have "\<exists>c'. ProcessData io rng ping c = Some ([], c') \<and> ws_frames c' = ws_frames c \<and> ws_pong c' \<noteq> None"
    by (auto simp: ProcessData_def stop)
  moreover from read [of "[b]"] obtain c1 c2 where
    "process_frames io rng (ping @ [b]) c = then_calls [onWakeupNeeded] (process_frames io rng [b] c2)" "idle c2"
    "ws_frames c2 = ws_frames c @ [Frame_new io (rng (ws_draws c)) True Pong (Some []) 0 (ws_client c)]"
    by auto
  with one [of c2] have "\<exists>c'. ProcessData io rng (ping @ [b]) c = Some ([onWakeupNeeded], c')
      \<and> ws_frames c' = ws_frames c @ [Frame_new io (rng (ws_draws c)) True Pong (Some []) 0 (ws_client c)]"
    by (auto simp: ProcessData_def then_calls_def)
  ultimately show ?thesis ..
qed

theorem empty_ping_waits_witness:
  "(\<exists>c'. ProcessData network_order sample_key (f_data (Frame_new network_order [1, 2, 3, 4] True Ping (Some []) 0 True))
        (WebSocketConnection_new False []) = Some ([], c')
      \<and> ws_frames c' = ws_frames (WebSocketConnection_new False []) \<and> ws_pong c' \<noteq> None)
    \<and> (\<exists>c'. ProcessData network_order sample_key (f_data (Frame_new network_order [1, 2, 3, 4] True Ping (Some []) 0 True) @ [0x81])
        (WebSocketConnection_new False []) = Some ([onWakeupNeeded], c')
      \<and> ws_frames c' = ws_frames (WebSocketConnection_new False []) @ [Frame_new network_order (sample_key (ws_draws (WebSocketConnection_new False [])))
          True Pong (Some []) 0 (ws_client (WebSocketConnection_new False []))])"
  by (rule empty_ping_waits [OF netf.medkit_frames_axioms _ idle_new _ refl]) (simp_all add: WebSocketConnection_new_def)

text \<open>
  C40. After \<open>Close\<close> with a code, a message is not queued any more, but the answer to a ping is: the pong, with the
  payload of the ping, follows the Close frame on the wire, although the member \<open>closeFrameQueued\<close> stands for
  "no frame may follow it" and its interface promises that nothing is sent after the Close frame.\<close>

theorem pong_after_close:
  assumes "medkit_frames io" and "length rnd = 4" and "idle c" and "ws_client c \<longrightarrow> \<not> masked"
    and "d \<noteq> []" "length d \<le> 125" and "closing = Ws_Close io rng code reason c"
  shows "ws_frames (Ws_SendMessage io rng m closing) = ws_frames closing
    \<and> (\<exists>c'. ProcessData io rng (f_data (Frame_new io rnd True Ping (Some d) (length d) masked)) closing = Some ([onWakeupNeeded], c')
        \<and> ws_frames c' = ws_frames closing @ [Frame_new io (rng (ws_draws closing)) True Pong (Some d) (length d) (ws_client c)])"
proof
  have q: "ws_closeFrameQueued closing" "ws_client closing = ws_client c" "idle closing"
    using assms(3) by (simp_all add: assms(7) Ws_Close_def Let_def push_frame_def idle_def)
  then show "ws_frames (Ws_SendMessage io rng m closing) = ws_frames closing"
    by (cases "(io, rng, m, closing)" rule: Ws_SendMessage.cases) (simp_all add: SendMessage_text_def SendMessage_binary_def)
  have role: "ws_client closing \<Longrightarrow> \<not> masked" and len: "length d \<le> MaxFramePayload"
    using assms(4,6) q by (simp_all add: MaxFramePayload_def)
  obtain c1 c2 where "process_frames io rng (f_data (filled io rnd True Ping (length d) masked d) @ []) closing
      = process_frames io rng (on_wire io rnd masked 0 d @ []) c1"
    "ws_frames c1 = ws_frames closing" "ws_pong c1 \<noteq> None"
    "on_wire io rnd masked 0 d @ [] \<noteq> [] \<longrightarrow> process_frames io rng (on_wire io rnd masked 0 d @ []) c1
      = then_calls [onWakeupNeeded] (process_frames io rng [] c2)"
    "idle c2" "ws_frames c2 = ws_frames closing @ [Frame_new io (rng (ws_draws closing)) True Pong (Some d) (length d) (ws_client closing)]"
    by (rule medkit_frames.ping_read [OF assms(1) q(3) role assms(2) len, where rng = rng and rest = "[]"])
  moreover have "on_wire io rnd masked 0 d \<noteq> []"
    using assms(5) length_on_wire [of io rnd masked 0 d] by (auto simp del: length_on_wire)
  moreover have "process_frames io rng [] c2 = Some ([], c2)"
    by (simp add: process_frames.simps)
  ultimately show "\<exists>c'. ProcessData io rng (f_data (Frame_new io rnd True Ping (Some d) (length d) masked)) closing = Some ([onWakeupNeeded], c')
      \<and> ws_frames c' = ws_frames closing @ [Frame_new io (rng (ws_draws closing)) True Pong (Some d) (length d) (ws_client c)]"
    by (simp add: ProcessData_def medkit_frames.Frame_new_whole [OF assms(1)] then_calls_def q)
qed

theorem pong_after_close_witness:
  "ws_frames (Ws_SendMessage network_order sample_key (Text, str ''x'') (Ws_Close network_order sample_key 1000 [] (WebSocketConnection_new False [])))
      = ws_frames (Ws_Close network_order sample_key 1000 [] (WebSocketConnection_new False []))
    \<and> (\<exists>c'. ProcessData network_order sample_key (f_data (Frame_new network_order [1, 2, 3, 4] True Ping (Some [42]) (length [42 :: byte]) True))
          (Ws_Close network_order sample_key 1000 [] (WebSocketConnection_new False [])) = Some ([onWakeupNeeded], c')
        \<and> ws_frames c' = ws_frames (Ws_Close network_order sample_key 1000 [] (WebSocketConnection_new False []))
            @ [Frame_new network_order (sample_key (ws_draws (Ws_Close network_order sample_key 1000 [] (WebSocketConnection_new False []))))
                True Pong (Some [42]) (length [42 :: byte]) (ws_client (WebSocketConnection_new False []))])"
  by (rule pong_after_close [OF netf.medkit_frames_axioms _ idle_new _ _ _ refl]) (simp_all add: WebSocketConnection_new_def)

end
