(* ===== verification/Spec2Isabelle.thy ===== *)
theory Spec2Isabelle
  imports BfcpLifetime AddressProfiles Reactor SentHistory RtpBuffer RedCodec Rtcp WebSocketStream
begin

text \<open>
  A verification of parts of the media server \<open>mcu\<close>: the floor control of shared documents (BFCP), the
  addresses and the reactor it runs on, and the codecs and queues of the media path whose correctness does not
  depend on an external codec: RTCP, transport-wide feedback, the reordering buffer, redundant text and the frames
  of a WebSocket. Paths below are relative to \<open>src/mcu\<close>.

  \<^bold>\<open>The parts and how they meet.\<close> A conference that shares a document owns a floor control server
  (\<open>src/shareddocmixer.cpp\<close>). Participants reach it over TCP, through a listener, or over UDP, through an endpoint
  each; one thread, the reactor, polls all of their sockets. Octets that arrive are cut into messages, parsed and
  handed to the server, which grants, denies and revokes floors and answers through the same transports. On the
  media path, received packets pass the reordering buffer, their arrival is reported to the sender by RTCP feedback,
  the sender matches the reports with its history, and text is carried with two generations of redundancy or over a
  WebSocket.

  \<^bold>\<open>Shared vocabulary\<close>

  \<^item> \<open>Prelude\<close>: octets, the accessors of \<open>medkit/tools.h\<close> (a header of a submodule that is not part of the
    repository: a record \<open>medkit\<close>, with what the code relies on as the locales \<open>medkit_octets\<close>, \<open>medkit_network\<close>,
    \<open>medkit_words\<close> and \<open>medkit_frames\<close>, all met by \<open>network_order\<close>), reads that can leave a buffer, loops that stop at
    a failure, \<open>std::map\<close> and \<open>std::set\<close> as ascending lists (locale \<open>ordered_map\<close>), and invariants of step relations
    (locale \<open>invariant_system\<close>).

  \<^bold>\<open>Floor control\<close>

  \<^item> \<open>BfcpAttribute\<close> and \<open>BfcpAttributes\<close>: the attribute format and the attribute classes (\<open>src/bfcp/BFCPAttribute.cpp\<close>,
    \<open>src/bfcp/attributes\<close>). Every class is an instance of the locale \<open>attr_codec\<close>: what it writes, it reads back.
  \<^item> \<open>BfcpMessage\<close>: \<open>src/bfcp/BFCPMessage.cpp\<close> and \<open>src/bfcp/messages\<close>. A message that is serialized is parsed back;
    what \<open>Parse\<close> accepts is well formed.
  \<^item> \<open>BfcpServer\<close>: users, floor requests and every operation of \<open>BFCPFloorControlServer\<close>, the locked helpers included.
    The mutex makes each public operation one step; the calls into transports and listener are recorded in order.
  \<^item> \<open>BfcpInvariant\<close> and \<open>BfcpFloorControl\<close>: the invariant of that server, and what follows in every reachable state:
    a floor has one holder, the listener knows who holds what, requests refer to users and floors that exist, and the
    effect of the operations on every branch.
  \<^item> \<open>BfcpWire\<close>: what the server sends fits the wire and is decoded to itself by the peer.
  \<^item> \<open>BfcpTcp\<close> and \<open>BfcpUdp\<close>: the transports of \<open>BFCPTcpTransport.cpp\<close> and \<open>BFCPUdpTransport.cpp\<close>. A socket is the list of
    the results its calls will give, so every partial write, refusal and interruption is an input of the theorems.
  \<^item> \<open>BfcpTargets\<close>, \<open>BfcpConference\<close> and \<open>BfcpLifetime\<close>: server, transports, listener and the document mixer together. The
    way TCP cuts the stream does not matter; no operation calls a transport that was destroyed, except where
    \<open>StopBfcpServer\<close> does.

  \<^bold>\<open>Addresses and the reactor\<close>

  \<^item> \<open>IpAddress\<close> and \<open>AddressProfiles\<close>: \<open>ipaddress.cpp\<close> and \<open>addressprofiles.cpp\<close>. The functions of the C library
    (\<open>inet_pton\<close>, \<open>getaddrinfo\<close>, \<open>getifaddrs\<close> and so on) are parameters.
  \<^item> \<open>Reactor\<close>: \<open>rtpsessionset.cpp\<close> as a step relation of its own thread and of its callers, interleaved freely: after
    \<open>Remove\<close> has returned no callback of the handler runs, and \<open>Remove\<close> does return.

  \<^bold>\<open>Media path\<close>

  \<^item> \<open>TransportFeedback\<close>, \<open>FeedbackGenerator\<close>, \<open>SentHistory\<close>: \<open>transportfeedback.cpp\<close> and \<open>sentpackethistory.cpp\<close>. A report
    is parsed to what was put into it, it says of every packet what happened to it, and the sender computes from it
    the delays that were measured.
  \<^item> \<open>RtpBuffer\<close>: \<open>rtpbuffer.h\<close>. Packets leave in the order of their numbers, each owned once, and a buffer drains.
  \<^item> \<open>RedCodec\<close>: \<open>redcodec.cpp\<close> and the redundant packets of \<open>rtp.cpp\<close>. Text survives the loss of two packets in a row.
  \<^item> \<open>RtcpFields\<close> and \<open>Rtcp\<close>: the RTCP classes of \<open>rtp.h\<close> and \<open>rtp.cpp\<close>. The parser reads nothing outside of what was
    received, the writers stay inside their buffer, and a compound packet is parsed back. The fields share the locale
    \<open>wire_field\<close>.
  \<^item> \<open>WebSocket\<close> and \<open>WebSocketStream\<close>: \<open>websocketconnection.h\<close>, \<open>websocketconnection.cpp\<close> and the plain transport of
    \<open>websockettransport.h\<close>, from the upgrade on. Messages of either side reach the other unchanged however the stream is
    cut, and reading always returns.

  \<^bold>\<open>Conventions.\<close> A class is a record, \<open>NULL\<close> and failure are \<open>None\<close>; where a read or a call can go wrong in a way C++
  leaves undefined (outside a buffer, through a pointer that is not valid), the outermost \<open>None\<close> is that event, and the
  safety theorems say it does not happen. Integers keep their width as words where the code relies on it, and are
  integers where a theorem bounds them. The clock, \<open>rand\<close> and \<open>RAND_bytes\<close> are arguments.

  \<^bold>\<open>Bounds and fuel.\<close> No definition takes fuel. Loops are structural recursion or have a measure (the octets left);
  \<open>process_frames\<close> of \<open>WebSocket\<close>, whose end depends on the state of the connection, is partial, and its theorem shows
  that it returns in every reachable state. The loop of \<open>RTPBuffer::Wait\<close> is given pass by pass.

  \<^bold>\<open>Not modelled.\<close>

  \<^item> Logging (\<open>Dump\<close>, \<open>Log\<close>, \<open>Debug\<close>) and statistics: no effect on the behaviour stated here.
  \<^item> The floating-point conversions of NTP times and delays in \<open>rtp.cpp\<close> and \<open>rtp.h\<close>, and the bandwidth estimators
    (\<open>remoterateestimator.cpp\<close>, \<open>senderbwe.cpp\<close> and their like): their meaning is numerical.
  \<^item> \<open>rtpsession.cpp\<close> apart from the reading of a REMB, the SRTP, DTLS, SCTP and TLS layers: calls into libsrtp, OpenSSL
    and usrsctp.
  \<^item> The HTTP parser and the upgrade of a WebSocket, the RTMP and AMF stacks, STUN and forward error correction:
    self-contained formats of their own that this development does not reach.
  \<^item> Audio and video mixing, encoding, recording, playing and Flash: work of external codecs and file libraries.
  \<^item> The XML-RPC, AMQP, JSR-309 and speech interfaces, the Java programs, the tests: glue over external services.
\<close>

end
